(* ===== verification/Prelude.thy ===== *)
theory Prelude
  imports Main "HOL-Library.AList" "HOL-Library.Word" "HOL-Library.Sublist"
    "HOL-Library.Multiset" "HOL-Library.State_Monad"
begin

text \<open>
  Shared vocabulary of the development: Go's clock readings and durations, Go maps and the
  runtime's unspecified iteration order, \<open>error\<close> values, transition systems with their
  reachable states, and external effects (commands, files) as operations answered by a function.
  The two interfaces stated here as locales are \<open>go_map\<close> (what a client of a Go map relies
  on, interpreted by association lists) and \<open>inv_system\<close> (an inductive invariant of a
  transition system, interpreted by every concurrent component).
\<close>

named_theorems model_defs \<open>definitions unfolded together when an operation is executed\<close>
named_theorems step_simps \<open>what one operation does to one projection of the state\<close>

section \<open>Clock readings and durations\<close>

text \<open>
  A \<open>time.Time\<close> is an \<open>int\<close>: nanoseconds since January 1 of year 1, the epoch of Go's own
  representation. A \<open>time.Duration\<close> is an \<open>int\<close> within the range of \<open>int64\<close>. Every
  \<open>time.Now()\<close> of the source is an argument of the model.
\<close>

type_synonym time = int
type_synonym duration = int
type_synonym byte = "8 word"

abbreviation second :: duration where "second \<equiv> 1000000000"
abbreviation minute :: duration where "minute \<equiv> 60 * second"
abbreviation hour :: duration where "hour \<equiv> 60 * minute"

definition max_duration :: duration where "max_duration = 2 ^ 63 - 1"
definition min_duration :: duration where "min_duration = - (2 ^ 63)"

text \<open>Go's \<open>t.Sub(u)\<close> saturates at the ends of \<open>int64\<close>.\<close>

definition time_sub :: "time \<Rightarrow> time \<Rightarrow> duration" where
  "time_sub t u = max min_duration (min max_duration (t - u))"

text \<open>
  \<open>time.Unix(sec, 0)\<close> adds the offset between 1970 and year 1 to an \<open>int64\<close>, which wraps.
\<close>

definition unix_to_internal :: "64 word" where "unix_to_internal = 62135596800"

definition time_Unix :: "64 word \<Rightarrow> time" where
  "time_Unix sec = sint (sec + unix_to_internal) * second"

text \<open>\<open>t.Unix()\<close> for a clock reading, as an integer.\<close>

definition unix_seconds :: "time \<Rightarrow> int" where
  "unix_seconds t = t div second - 62135596800"

lemma time_sub_gt:
  "d < max_duration \<Longrightarrow> min_duration \<le> d \<Longrightarrow> time_sub t u > d \<longleftrightarrow> t - u > d"
  by (auto simp: time_sub_def)

lemma time_sub_exact:
  "min_duration \<le> t - u \<Longrightarrow> t - u \<le> max_duration \<Longrightarrow> time_sub t u = t - u"
  by (simp add: time_sub_def)

lemma minutes_in_range [simp]:
  "min_duration \<le> n * minute \<longleftrightarrow> -153722867 \<le> n"
  "n * minute < max_duration \<longleftrightarrow> n \<le> 153722867"
  by (auto simp: min_duration_def max_duration_def)

section \<open>Errors\<close>

text \<open>
  A Go \<open>error\<close> result: \<open>None\<close> is \<open>nil\<close>, \<open>Some e\<close> an error value. Where a function
  returns a value or an error the model uses a sum, the error on the left.
\<close>

type_synonym 'e go_error = "'e option"

fun result_err :: "'e + 'a \<Rightarrow> 'e go_error" where
  "result_err (Inl e) = Some e"
| "result_err (Inr x) = None"

lemma result_err_None [simp]: "result_err r = None \<longleftrightarrow> (\<exists>x. r = Inr x)"
  by (cases r) auto

lemma result_err_Some [simp]: "result_err r = Some e \<longleftrightarrow> r = Inl e"
  by (cases r) auto

section \<open>Go maps\<close>

text \<open>
  A Go \<open>map[k]v\<close> is an association list with distinct keys: \<open>map_of\<close> reads it,
  \<open>AList.update\<close> and \<open>AList.delete\<close> write it and \<open>length\<close> is Go's \<open>len\<close>. The order of
  \<open>range\<close> over a map is not specified: where the source iterates, the model applies a
  function that may permute the entries in any way (\<open>range_order\<close>).
\<close>

type_synonym ('k, 'v) gomap = "('k \<times> 'v) list"

definition gm_ok :: "('k, 'v) gomap \<Rightarrow> bool" where
  "gm_ok m \<longleftrightarrow> distinct (map fst m)"

definition range_order :: "(('k, 'v) gomap \<Rightarrow> ('k \<times> 'v) list) \<Rightarrow> bool" where
  "range_order ord \<longleftrightarrow> (\<forall>m. mset (ord m) = mset m)"

lemma range_order_id: "range_order (\<lambda>m. m)"
  by (simp add: range_order_def)

lemma range_order_rev: "range_order rev"
  by (simp add: range_order_def)

lemma set_range_order: "range_order ord \<Longrightarrow> set (ord m) = set m"
  by (metis range_order_def set_mset_mset)

text \<open>What a client of a map relies on, with the number of entries as \<open>len\<close>.\<close>

locale go_map =
  fixes get :: "'m \<Rightarrow> 'k \<Rightarrow> 'v option"
    and put :: "'k \<Rightarrow> 'v \<Rightarrow> 'm \<Rightarrow> 'm"
    and del :: "'k \<Rightarrow> 'm \<Rightarrow> 'm"
    and len :: "'m \<Rightarrow> nat"
    and ok :: "'m \<Rightarrow> bool"
  assumes get_put: "get (put k v m) = (get m)(k \<mapsto> v)"
    and get_del: "get (del k m) = (get m)(k := None)"
    and ok_put: "ok m \<Longrightarrow> ok (put k v m)"
    and ok_del: "ok m \<Longrightarrow> ok (del k m)"
    and len_card: "ok m \<Longrightarrow> len m = card (dom (get m))"
    and finite_dom: "finite (dom (get m))"
begin

lemma dom_put: "dom (get (put k v m)) = insert k (dom (get m))"
  by (simp add: get_put)

lemma dom_del: "dom (get (del k m)) = dom (get m) - {k}"
  by (simp add: get_del)

lemma len_put:
  "ok m \<Longrightarrow> len (put k v m) = (if k \<in> dom (get m) then len m else Suc (len m))"
  by (simp add: len_card ok_put dom_put finite_dom insert_absorb)

lemma len_del:
  "ok m \<Longrightarrow> len (del k m) = (if k \<in> dom (get m) then len m - 1 else len m)"
  by (simp add: len_card ok_del dom_del finite_dom)

lemma ok_fold_del: "ok m \<Longrightarrow> ok (fold del ks m)"
  by (induction ks arbitrary: m) (simp_all add: ok_del)

lemma get_fold_del: "get (fold del ks m) = (get m) |` (- set ks)"
proof (induction ks arbitrary: m)
  case (Cons k ks)
  show ?case
    by (simp add: Cons get_del fun_eq_iff restrict_map_def)
qed (simp add: restrict_map_def fun_eq_iff)

lemma len_fold_del_le: "ok m \<Longrightarrow> len (fold del ks m) \<le> len m"
proof (induction ks arbitrary: m)
  case (Cons k ks)
  have "len (fold del ks (del k m)) \<le> len (del k m)"
    by (rule Cons.IH) (rule ok_del [OF Cons.prems])
  also have "\<dots> \<le> len m"
    using len_del [OF Cons.prems, of k] by simp
  finally show ?case by simp
qed simp

lemma len_mono: "ok m \<Longrightarrow> ok n \<Longrightarrow> dom (get m) \<subseteq> dom (get n) \<Longrightarrow> len m \<le> len n"
  by (simp add: len_card card_mono finite_dom)

end

interpretation gm: go_map map_of AList.update AList.delete length gm_ok
proof
  fix m :: "('k \<times> 'v) list"
  assume "gm_ok m"
  then have "card (dom (map_of m)) = length (map fst m)"
    unfolding gm_ok_def dom_map_of_conv_image_fst
    by (metis distinct_card list.set_map)
  then show "length m = card (dom (map_of m))" by simp
qed (simp_all add: update_conv' delete_conv' gm_ok_def distinct_update distinct_delete
       finite_dom_map_of)

lemma gm_ok_Nil [simp]: "gm_ok []"
  by (simp add: gm_ok_def)

lemma gm_mem: "gm_ok m \<Longrightarrow> (k, v) \<in> set m \<longleftrightarrow> map_of m k = Some v"
  by (simp add: gm_ok_def)

section \<open>Transition systems\<close>

text \<open>
  A concurrent component is a set of initial states and a relation with one rule per atomic
  section of the code (what runs under one lock acquisition, or one channel operation).
\<close>

inductive reach :: "('s \<Rightarrow> bool) \<Rightarrow> ('s \<Rightarrow> 's \<Rightarrow> bool) \<Rightarrow> 's \<Rightarrow> bool"
  for init :: "'s \<Rightarrow> bool" and step :: "'s \<Rightarrow> 's \<Rightarrow> bool" where
  reach_init: "init s \<Longrightarrow> reach init step s"
| reach_step: "reach init step s \<Longrightarrow> step s t \<Longrightarrow> reach init step t"

locale inv_system =
  fixes init :: "'s \<Rightarrow> bool"
    and step :: "'s \<Rightarrow> 's \<Rightarrow> bool"
    and inv :: "'s \<Rightarrow> bool"
  assumes inv_init: "init s \<Longrightarrow> inv s"
    and inv_step: "inv s \<Longrightarrow> step s t \<Longrightarrow> inv t"
begin

lemma inv_reach: "reach init step s \<Longrightarrow> inv s"
  by (induction rule: reach.induct) (auto intro: inv_init inv_step)

lemma inv_steps: "step\<^sup>*\<^sup>* s t \<Longrightarrow> inv s \<Longrightarrow> inv t"
  by (induction rule: rtranclp_induct) (auto intro: inv_step)

end

lemma reach_steps: "step\<^sup>*\<^sup>* s t \<Longrightarrow> reach init step s \<Longrightarrow> reach init step t"
  by (induction rule: rtranclp_induct) (auto intro: reach_step)

section \<open>External effects\<close>

text \<open>
  Commands, file operations and other calls into the operating system are values of an
  operation type. What the system answers is any function of the operations
  performed so far and the next one. A computation carries the trace of operations, so a
  theorem can say what was executed and in which order, for every behaviour of the system.
\<close>

type_synonym ('op, 'r) answers = "'op list \<Rightarrow> 'op \<Rightarrow> 'r"
type_synonym ('op, 'a) io = "('op list, 'a) state"

definition perform :: "('op, 'r) answers \<Rightarrow> 'op \<Rightarrow> ('op, 'r) io" where
  "perform orc oper = State (\<lambda>tr. (orc tr oper, tr @ [oper]))"

lemma run_perform [simp]: "run_state (perform orc oper) tr = (orc tr oper, tr @ [oper])"
  by (simp add: perform_def)

abbreviation return :: "'a \<Rightarrow> ('s, 'a) state" where
  "return \<equiv> State_Monad.return"

text \<open>Go's \<open>if err := m(); err != nil { return err }; return k()\<close>.\<close>

definition or_return :: "('s, 'e go_error) state \<Rightarrow> ('s, 'e go_error) state \<Rightarrow>
    ('s, 'e go_error) state" where
  "or_return m k = do { e \<leftarrow> m; case e of Some x \<Rightarrow> return (Some x) | None \<Rightarrow> k }"

lemma run_or_return [simp]:
  "run_state (or_return m k) s =
     (case run_state m s of (Some e, s') \<Rightarrow> (Some e, s') | (None, s') \<Rightarrow> run_state k s')"
  by (simp add: or_return_def split: prod.splits option.splits)

text \<open>\<open>fmt.Errorf("...: %w", err)\<close>: a failure keeps its cause and gains a context.\<close>

definition wrap_err :: "('e \<Rightarrow> 'f) \<Rightarrow> ('s, 'e go_error) state \<Rightarrow> ('s, 'f go_error) state" where
  "wrap_err f m = do { e \<leftarrow> m; return (map_option f e) }"

lemma run_wrap_err [simp]:
  "run_state (wrap_err f m) s = (case run_state m s of (e, s') \<Rightarrow> (map_option f e, s'))"
  by (simp add: wrap_err_def split: prod.splits)

text \<open>A computation only ever appends to the trace it is given.\<close>

definition appends :: "('op, 'a) io \<Rightarrow> bool" where
  "appends m \<longleftrightarrow> (\<forall>tr. prefix tr (snd (run_state m tr)))"

lemma appends_return [simp, intro]: "appends (return x)"
  by (simp add: appends_def)

lemma appends_perform [simp, intro]: "appends (perform orc oper)"
  by (simp add: appends_def)

lemma appends_bind [intro]:
  "appends m \<Longrightarrow> (\<And>x. appends (f x)) \<Longrightarrow> appends (m \<bind> f)"
  unfolding appends_def
  by (auto split: prod.splits) (metis prefix_order.trans snd_conv)

lemma appends_or_return [intro]: "appends m \<Longrightarrow> appends k \<Longrightarrow> appends (or_return m k)"
  unfolding or_return_def by (rule appends_bind) (auto split: option.splits)

lemma appends_wrap_err [intro]: "appends m \<Longrightarrow> appends (wrap_err f m)"
  unfolding wrap_err_def by (rule appends_bind) auto

end
