(* ===== verification/Go_Text.thy ===== *)
theory Go_Text
  imports Prelude
begin

unbundle bit_operations_syntax

text \<open>
  The parts of Go's \<open>strings\<close>, \<open>fmt\<close>, \<open>strconv\<close> and \<open>encoding/hex\<close> that the service uses,
  on strings as byte sequences (\<open>string\<close>, one \<open>char\<close> per byte). Where Go falls back to its
  Unicode tables (a byte of 128 or more) the model calls a function of the record \<open>go_lib\<close>,
  so that nothing is assumed about those tables.
\<close>

section \<open>Bytes, ASCII and the Unicode tables\<close>

definition ascii :: "char \<Rightarrow> bool" where
  "ascii c \<longleftrightarrow> (of_char c :: nat) < 128"

text \<open>
  \<open>uni_lower\<close>, \<open>uni_trim\<close> and \<open>uni_quote\<close> are \<open>strings.ToLower\<close>, \<open>strings.TrimSpace\<close> and
  \<open>strconv.Quote\<close> on text that is not ASCII; \<open>parse_ip s\<close> says whether \<open>net.ParseIP(s)\<close> is not \<open>nil\<close>.
\<close>

record go_lib =
  uni_lower :: "string \<Rightarrow> string"
  uni_trim :: "string \<Rightarrow> string"
  uni_quote :: "string \<Rightarrow> string"
  parse_ip :: "string \<Rightarrow> bool"

definition lower_byte :: "char \<Rightarrow> char" where
  "lower_byte c =
     (if 65 \<le> (of_char c :: nat) \<and> (of_char c :: nat) \<le> 90
      then char_of ((of_char c :: nat) + 32) else c)"

definition ToLower :: "'a go_lib_scheme \<Rightarrow> string \<Rightarrow> string" where
  "ToLower lib s = (if list_all ascii s then map lower_byte s else uni_lower lib s)"

definition is_space :: "char \<Rightarrow> bool" where
  "is_space c \<longleftrightarrow> (of_char c :: nat) \<in> {9, 10, 11, 12, 13, 32}"

definition trim_ascii :: "string \<Rightarrow> string" where
  "trim_ascii s = rev (dropWhile is_space (rev (dropWhile is_space s)))"

definition TrimSpace :: "'a go_lib_scheme \<Rightarrow> string \<Rightarrow> string" where
  "TrimSpace lib s = (if list_all ascii s then trim_ascii s else uni_trim lib s)"

lemma trim_ascii_id: "s = [] \<or> \<not> is_space (hd s) \<and> \<not> is_space (last s) \<Longrightarrow> trim_ascii s = s"
  by (cases "s = []") (auto simp: trim_ascii_def hd_rev dropWhile_eq_self_iff [THEN iffD2])

section \<open>Searching and splitting\<close>

fun has_prefix :: "string \<Rightarrow> string \<Rightarrow> bool" where
  "has_prefix [] s = True"
| "has_prefix (p # ps) [] = False"
| "has_prefix (p # ps) (c # cs) = (p = c \<and> has_prefix ps cs)"

fun str_contains :: "string \<Rightarrow> string \<Rightarrow> bool" where
  "str_contains pat [] = (pat = [])"
| "str_contains pat (c # cs) = (has_prefix pat (c # cs) \<or> str_contains pat cs)"

lemma has_prefix_iff: "has_prefix p s \<longleftrightarrow> prefix p s"
  by (induction p s rule: has_prefix.induct) auto

lemma str_contains_iff: "str_contains pat s \<longleftrightarrow> sublist pat s"
  by (induction s) (auto simp: has_prefix_iff sublist_Cons_right)

lemma str_contains_mono: "sublist p q \<Longrightarrow> str_contains q s \<Longrightarrow> str_contains p s"
  by (auto simp: str_contains_iff intro: sublist_order.order.trans)

fun str_split :: "char \<Rightarrow> string \<Rightarrow> string list" where
  "str_split sep [] = [[]]"
| "str_split sep (c # cs) =
     (if c = sep then [] # str_split sep cs
      else (case str_split sep cs of p # ps \<Rightarrow> (c # p) # ps | [] \<Rightarrow> [[c]]))"

lemma str_split_nonempty [simp]: "str_split sep s \<noteq> []"
  by (induction s) (auto split: list.splits)

lemma hd_str_split: "hd (str_split sep s) = takeWhile (\<lambda>c. c \<noteq> sep) s"
  by (induction s) (auto split: list.splits)

fun str_join :: "string \<Rightarrow> string list \<Rightarrow> string" where
  "str_join sep [] = []"
| "str_join sep [s] = s"
| "str_join sep (s # t # ts) = s @ sep @ str_join sep (t # ts)"

section \<open>Numbers as text\<close>

definition hextable :: string where "hextable = ''0123456789abcdef''"

definition hex_digit :: "nat \<Rightarrow> char" where "hex_digit n = hextable ! n"

text \<open>\<open>%d\<close> and \<open>%x\<close> of an integer.\<close>

fun nat_in_base :: "nat \<Rightarrow> nat \<Rightarrow> string" where
  "nat_in_base b n =
     (if b < 2 \<or> n < b then [hex_digit n]
      else nat_in_base b (n div b) @ [hex_digit (n mod b)])"

declare nat_in_base.simps [simp del]

definition fmt_int :: "nat \<Rightarrow> int \<Rightarrow> string" where
  "fmt_int b i = (if i < 0 then ''-'' @ nat_in_base b (nat (- i)) else nat_in_base b (nat i))"

abbreviation fmt_d :: "int \<Rightarrow> string" where "fmt_d \<equiv> fmt_int 10"
abbreviation fmt_x :: "int \<Rightarrow> string" where "fmt_x \<equiv> fmt_int 16"

text \<open>The permission bits written \<open>0oabc\<close> in Go.\<close>

definition octal :: "nat \<Rightarrow> nat \<Rightarrow> nat \<Rightarrow> nat" where
  "octal a b c = 64 * a + 8 * b + c"

text \<open>\<open>hex.EncodeToString\<close>, and \<open>%x\<close> of a byte slice.\<close>

definition hex_byte :: "byte \<Rightarrow> string" where
  "hex_byte v = [hex_digit (unat (drop_bit 4 v)), hex_digit (unat (v AND 15))]"

definition EncodeToString :: "byte list \<Rightarrow> string" where
  "EncodeToString bs = concat (map hex_byte bs)"

lemma length_hex_byte [simp]: "length (hex_byte v) = 2"
  by (simp add: hex_byte_def)

lemma length_EncodeToString [simp]: "length (EncodeToString bs) = 2 * length bs"
  by (induction bs) (simp_all add: EncodeToString_def)

lemma length_hextable [simp]: "length hextable = 16"
  by (simp add: hextable_def)

lemma distinct_hextable: "distinct hextable"
  by (simp add: hextable_def)

lemma hex_digit_inj: "m < 16 \<Longrightarrow> n < 16 \<Longrightarrow> hex_digit m = hex_digit n \<longleftrightarrow> m = n"
  using distinct_hextable by (simp add: hex_digit_def nth_eq_iff_index_eq)

lemma hex_digit_in: "n < 16 \<Longrightarrow> hex_digit n \<in> set hextable"
  by (simp add: hex_digit_def)

lemma nibble_bounds:
  "unat (drop_bit 4 (v :: byte)) < 16" "unat (v AND 15 :: byte) < 16"
proof -
  have "unat (drop_bit 4 v) = unat v div 16"
    by (simp add: unat_div drop_bit_eq_div)
  moreover have "unat v < 256" using unsigned_less [of v, where ?'a = nat] by simp
  ultimately show "unat (drop_bit 4 v) < 16" by simp
  have "unat (v AND 15) \<le> unat (15 :: byte)"
    by (rule word_and_le1 [THEN word_le_nat_alt [THEN iffD1]])
  then show "unat (v AND 15 :: byte) < 16" by simp
qed

lemma nibbles_eq:
  assumes "drop_bit 4 v = drop_bit 4 (w :: byte)" and "v AND 15 = w AND 15"
  shows "v = w"
proof -
  have low: "(15 :: byte) = mask 4" by (simp add: mask_eq_exp_minus_1)
  have split: "x = push_bit 4 (drop_bit 4 x) OR (x AND 15)" for x :: byte
    unfolding low by (rule bit_word_eqI) (auto simp: bit_simps)
  from split [of v] split [of w] assms show ?thesis by simp
qed

lemma hex_byte_inj: "hex_byte v = hex_byte w \<longleftrightarrow> v = w"
  using nibble_bounds [of v] nibble_bounds [of w] nibbles_eq [of v w]
  by (auto simp: hex_byte_def hex_digit_inj simp flip: word_unat_eq_iff)

lemma EncodeToString_simps [simp]:
  "EncodeToString [] = []"
  "EncodeToString (v # vs) = hex_byte v @ EncodeToString vs"
  by (simp_all add: EncodeToString_def)

lemma EncodeToString_inj: "EncodeToString vs = EncodeToString ws \<longleftrightarrow> vs = ws"
proof (induction vs arbitrary: ws)
  case Nil
  show ?case by (cases ws) (auto simp: hex_byte_def)
next
  case (Cons v vs)
  show ?case by (cases ws) (auto simp: Cons hex_byte_inj, simp add: hex_byte_def)
qed

lemma EncodeToString_digits: "set (EncodeToString vs) \<subseteq> set hextable"
  by (induction vs) (auto simp: hex_byte_def intro: hex_digit_in nibble_bounds)

subsection \<open>Reading numbers back\<close>

definition digit_val :: "char \<Rightarrow> nat" where
  "digit_val c = length (takeWhile (\<lambda>d. d \<noteq> c) hextable)"

definition base_val :: "nat \<Rightarrow> string \<Rightarrow> nat" where
  "base_val b s = foldl (\<lambda>a c. a * b + digit_val c) 0 s"

lemma takeWhile_distinct: "distinct xs \<Longrightarrow> n < length xs \<Longrightarrow> takeWhile (\<lambda>d. d \<noteq> xs ! n) xs = take n xs"
  by (rule takeWhile_eq_take_P_nth) (auto simp: nth_eq_iff_index_eq)

lemma digit_val_hex_digit: "n < 16 \<Longrightarrow> digit_val (hex_digit n) = n"
  using takeWhile_distinct [OF distinct_hextable, of n]
  by (simp add: digit_val_def hex_digit_def)

lemma base_val_snoc: "base_val b (s @ [c]) = base_val b s * b + digit_val c"
  by (simp add: base_val_def)

lemma base_val_nat_in_base:
  "2 \<le> b \<Longrightarrow> b \<le> 16 \<Longrightarrow> base_val b (nat_in_base b n) = n"
proof (induction b n rule: nat_in_base.induct)
  case (1 b n)
  show ?case
  proof (cases "n < b")
    case True
    then show ?thesis using 1
      by (simp add: nat_in_base.simps [of b n] base_val_def digit_val_hex_digit)
  next
    case False
    moreover have "n mod b < 16"
      using mod_less_divisor [of b n] 1 by linarith
    ultimately show ?thesis using 1
      by (simp add: nat_in_base.simps [of b n] base_val_snoc digit_val_hex_digit)
  qed
qed

lemma nat_in_base_inj: "2 \<le> b \<Longrightarrow> b \<le> 16 \<Longrightarrow> nat_in_base b m = nat_in_base b n \<longleftrightarrow> m = n"
  by (metis base_val_nat_in_base)

lemma nat_in_base_nonempty [simp]: "nat_in_base b n \<noteq> []"
  by (simp add: nat_in_base.simps [of b n])

lemma nat_in_base_digits: "2 \<le> b \<Longrightarrow> b \<le> 16 \<Longrightarrow> set (nat_in_base b n) \<subseteq> set hextable"
proof (induction b n rule: nat_in_base.induct)
  case (1 b n)
  show ?case
  proof (cases "n < b")
    case True
    then show ?thesis using 1 by (simp add: nat_in_base.simps [of b n] hex_digit_in)
  next
    case False
    moreover have "n mod b < 16"
      using mod_less_divisor [of b n] False 1 by linarith
    ultimately show ?thesis using 1
      by (simp add: nat_in_base.simps [of b n] hex_digit_in)
  qed
qed

text \<open>\<open>strconv.Quote\<close>: a Go string literal, which is not an escape for a shell.\<close>

definition quote_byte :: "char \<Rightarrow> string" where
  "quote_byte c =
     (if c = CHR 0x22 then [CHR 0x5C, CHR 0x22] else if c = CHR 0x5C then [CHR 0x5C, CHR 0x5C]
      else if c = CHR 7 then [CHR 0x5C, CHR ''a''] else if c = CHR 8 then [CHR 0x5C, CHR ''b'']
      else if c = CHR 12 then [CHR 0x5C, CHR ''f''] else if c = CHR 10 then [CHR 0x5C, CHR ''n'']
      else if c = CHR 13 then [CHR 0x5C, CHR ''r''] else if c = CHR 9 then [CHR 0x5C, CHR ''t'']
      else if c = CHR 11 then [CHR 0x5C, CHR ''v'']
      else if (of_char c :: nat) < 32 \<or> (of_char c :: nat) = 127
      then [CHR 0x5C, CHR ''x''] @ hex_byte (of_char c) else [c])"

definition Quote :: "'a go_lib_scheme \<Rightarrow> string \<Rightarrow> string" where
  "Quote lib s =
     (if list_all ascii s then [CHR 0x22] @ concat (map quote_byte s) @ [CHR 0x22]
      else uni_quote lib s)"

end
