(* ===== verification/Executor.thy ===== *)
theory Executor
  imports Go_Text "HOL-Library.Signed_Division"
begin

text \<open>
  \<open>internal/infrastructure/system\<close>: the three executors (\<open>executor.go\<close>,
  \<open>executor_secure.go\<close>, \<open>executor_timeout.go\<close>). A command, a file test and a file read are
  operations (\<open>sys_op\<close>) that the operating system answers; each method is a computation
  that carries the trace of the operations it performed.

  Lemmas: each update is its plan of commands run until the first failure (\<open>run_plan\<close>); the
  interface \<open>executor\<close> that the action service relies on, interpreted for the default and
  the secure executor; distribution detection as a first match; the total time an update
  with timeouts may take.
\<close>

section \<open>Operations and answers\<close>

text \<open>
  \<open>Exec c as t\<close> is \<open>CombinedOutput\<close> of the command \<open>c\<close> with arguments \<open>as\<close>, under a context
  with timeout \<open>t\<close> where there is one. The answer says which error came back, what was
  printed (or read from a file), and whether the context's deadline had passed.
\<close>

datatype sys_op =
  LookPath string | Stat string | ReadFile string | Exec string "string list" "duration option"

datatype sys_err = ExitError int | OtherError string

record sys_answer =
  a_err :: "sys_err go_error"
  a_out :: string
  a_deadline :: bool

type_synonym sys_env = "(sys_op, sys_answer) answers"
type_synonym 'a sys = "(sys_op, 'a) io"

definition op_fails :: "sys_env \<Rightarrow> sys_op list \<Rightarrow> sys_op \<Rightarrow> bool" where
  "op_fails os tr oper \<longleftrightarrow> a_err (os tr oper) \<noteq> None"

datatype exec_error =
  CommandFailed sys_err string
| CommandTimedOut duration
| UpdateTimedOut duration
| UpdateFailed sys_err string
| UpgradeTimedOut duration
| UpgradeFailed sys_err string
| RebootTimedOut
| RebootFailed sys_err string
| UnsupportedDistribution string
| UnsupportedPrivilege string

type_synonym exec_result = "exec_error go_error sys"

section \<open>Distributions\<close>

datatype Distribution =
  DistroAlpine | DistroDebian | DistroUbuntu | DistroRHEL | DistroCentOS | DistroFedora |
  DistroSUSE | DistroArch | DistroUnknown

primrec distro_string :: "Distribution \<Rightarrow> string" where
  "distro_string DistroAlpine = ''alpine''"
| "distro_string DistroDebian = ''debian''"
| "distro_string DistroUbuntu = ''ubuntu''"
| "distro_string DistroRHEL = ''rhel''"
| "distro_string DistroCentOS = ''centos''"
| "distro_string DistroFedora = ''fedora''"
| "distro_string DistroSUSE = ''suse''"
| "distro_string DistroArch = ''arch''"
| "distro_string DistroUnknown = ''unknown''"

text \<open>The \<open>switch\<close> over the lower-cased content of \<open>/etc/os-release\<close>; \<open>None\<close> falls through.\<close>

definition match_os_release :: "string \<Rightarrow> Distribution option" where
  "match_os_release osRelease =
     (if str_contains ''alpine'' osRelease then Some DistroAlpine
      else if str_contains ''ubuntu'' osRelease then Some DistroUbuntu
      else if str_contains ''debian'' osRelease then Some DistroDebian
      else if str_contains ''rhel'' osRelease \<or> str_contains ''red hat'' osRelease then Some DistroRHEL
      else if str_contains ''centos'' osRelease then Some DistroCentOS
      else if str_contains ''fedora'' osRelease then Some DistroFedora
      else if str_contains ''suse'' osRelease \<or> str_contains ''opensuse'' osRelease then Some DistroSUSE
      else if str_contains ''arch'' osRelease then Some DistroArch
      else None)"

definition detect_by_files :: "sys_env \<Rightarrow> Distribution sys" where
  "detect_by_files os =
     do {
       a \<leftarrow> perform os (Stat ''/etc/debian_version'');
       if a_err a = None then return DistroDebian
       else do {
         b \<leftarrow> perform os (Stat ''/etc/redhat-release'');
         return (if a_err b = None then DistroRHEL else DistroUnknown)
       }
     }"

definition DetectDistribution :: "'g go_lib_scheme \<Rightarrow> sys_env \<Rightarrow> Distribution sys" where
  "DetectDistribution g os =
     do {
       a \<leftarrow> perform os (Stat ''/etc/alpine-release'');
       if a_err a = None then return DistroAlpine
       else do {
         b \<leftarrow> perform os (Stat ''/etc/os-release'');
         if a_err b = None then do {
           c \<leftarrow> perform os (ReadFile ''/etc/os-release'');
           if a_err c \<noteq> None then return DistroUnknown
           else (case match_os_release (ToLower g (a_out c)) of
                   Some d \<Rightarrow> return d
                 | None \<Rightarrow> detect_by_files os)
         }
         else detect_by_files os
       }
     }"

section \<open>The default executor (executor.go)\<close>

record DefaultExecutor = privilegeCmd :: string

fun lookup_first :: "sys_env \<Rightarrow> string list \<Rightarrow> string sys" where
  "lookup_first os [] = return []"
| "lookup_first os (c # cs) =
     do { a \<leftarrow> perform os (LookPath c);
          if a_err a = None then return c else lookup_first os cs }"

definition detectPrivilegeCommand :: "sys_env \<Rightarrow> string sys" where
  "detectPrivilegeCommand os = lookup_first os [''doas'', ''sudo'', ''su'']"

definition NewSystemExecutor :: "sys_env \<Rightarrow> DefaultExecutor sys" where
  "NewSystemExecutor os = do { p \<leftarrow> detectPrivilegeCommand os; return \<lparr>privilegeCmd = p\<rparr> }"

text \<open>
  The command line \<open>runPrivileged\<close> builds. No caller passes an empty argument list (for which
  the source's \<open>args[0]\<close> panics).
\<close>

definition privileged_cmd :: "'g go_lib_scheme \<Rightarrow> string \<Rightarrow> string list \<Rightarrow> string \<times> string list" where
  "privileged_cmd g priv args =
     (if priv = [] then (hd args, tl args)
      else if priv \<in> {''doas'', ''sudo''} then (priv, args)
      else if priv = ''su'' then (''su'', [''-c'', str_join '' '' (map (Quote g) args)])
      else (hd args, tl args))"

definition runPrivileged :: "'g go_lib_scheme \<Rightarrow> sys_env \<Rightarrow> DefaultExecutor \<Rightarrow> string list \<Rightarrow>
    exec_result" where
  "runPrivileged g os e args =
     (case privileged_cmd g (privilegeCmd e) args of
        (c, as) \<Rightarrow> do {
          a \<leftarrow> perform os (Exec c as None);
          return (map_option (\<lambda>x. CommandFailed x (a_out a)) (a_err a))
        })"

definition RunCloudInit :: "'g go_lib_scheme \<Rightarrow> sys_env \<Rightarrow> DefaultExecutor \<Rightarrow> exec_result" where
  "RunCloudInit g os e = runPrivileged g os e [''cloud-init'', ''init'']"

definition Reboot :: "'g go_lib_scheme \<Rightarrow> sys_env \<Rightarrow> DefaultExecutor \<Rightarrow> exec_result" where
  "Reboot g os e = runPrivileged g os e [''reboot'']"

definition update_distro :: "'g go_lib_scheme \<Rightarrow> sys_env \<Rightarrow> DefaultExecutor \<Rightarrow> Distribution \<Rightarrow>
    exec_result" where
  "update_distro g os e distro =
     (case distro of
        DistroAlpine \<Rightarrow>
          or_return (runPrivileged g os e [''apk'', ''update''])
            (runPrivileged g os e [''apk'', ''upgrade''])
      | DistroDebian \<Rightarrow>
          or_return (runPrivileged g os e [''apt-get'', ''update''])
            (runPrivileged g os e [''apt-get'', ''upgrade'', ''-y''])
      | DistroUbuntu \<Rightarrow>
          or_return (runPrivileged g os e [''apt-get'', ''update''])
            (runPrivileged g os e [''apt-get'', ''upgrade'', ''-y''])
      | DistroSUSE \<Rightarrow>
          or_return (runPrivileged g os e [''zypper'', ''refresh''])
            (runPrivileged g os e [''zypper'', ''update'', ''-y''])
      | DistroArch \<Rightarrow> runPrivileged g os e [''pacman'', ''-Syu'', ''--noconfirm'']
      | DistroUnknown \<Rightarrow> return (Some (UnsupportedDistribution (distro_string distro)))
      | _ \<Rightarrow> do {
          a \<leftarrow> perform os (LookPath ''dnf'');
          if a_err a = None then runPrivileged g os e [''dnf'', ''update'', ''-y'']
          else runPrivileged g os e [''yum'', ''update'', ''-y'']
        })"

definition UpdateSystem :: "'g go_lib_scheme \<Rightarrow> sys_env \<Rightarrow> DefaultExecutor \<Rightarrow> exec_result" where
  "UpdateSystem g os e = do { distro \<leftarrow> DetectDistribution g os; update_distro g os e distro }"

section \<open>The secure executor (executor_secure.go)\<close>

record SecureExecutor =
  sec_privilegeCmd :: string
  sec_timeout :: duration

definition NewSecureExecutor :: "sys_env \<Rightarrow> SecureExecutor sys" where
  "NewSecureExecutor os =
     do { p \<leftarrow> detectPrivilegeCommand os;
          return \<lparr>sec_privilegeCmd = p, sec_timeout = 5 * minute\<rparr> }"

definition run_secure :: "sys_env \<Rightarrow> SecureExecutor \<Rightarrow> string \<Rightarrow> string list \<Rightarrow> exec_result" where
  "run_secure os e c as =
     do {
       a \<leftarrow> perform os (Exec c as (Some (sec_timeout e)));
       return (case a_err a of
                 None \<Rightarrow> None
               | Some x \<Rightarrow> Some (if a_deadline a then CommandTimedOut (sec_timeout e)
                                else CommandFailed x (a_out a)))
     }"

definition runPrivilegedSecure :: "sys_env \<Rightarrow> SecureExecutor \<Rightarrow> string \<Rightarrow> string list \<Rightarrow>
    exec_result" where
  "runPrivilegedSecure os e command args =
     (let priv = sec_privilegeCmd e
      in if priv = [] then run_secure os e command args
         else if priv \<in> {''doas'', ''sudo''} then run_secure os e priv (command # args)
         else return (Some (UnsupportedPrivilege priv)))"

definition secure_RunCloudInit :: "sys_env \<Rightarrow> SecureExecutor \<Rightarrow> exec_result" where
  "secure_RunCloudInit os e =
     do {
       _ \<leftarrow> runPrivilegedSecure os e ''cloud-init'' [''clean'', ''--logs''];
       runPrivilegedSecure os e ''cloud-init'' [''init'', ''--local'']
     }"

definition secure_Reboot :: "sys_env \<Rightarrow> SecureExecutor \<Rightarrow> exec_result" where
  "secure_Reboot os e =
     runPrivilegedSecure os e ''shutdown'' [''-r'', ''+1'', ''Cloud Update triggered reboot'']"

text \<open>The secure executor detects the distribution with an empty default executor.\<close>

definition secure_DetectDistribution :: "'g go_lib_scheme \<Rightarrow> sys_env \<Rightarrow> SecureExecutor \<Rightarrow>
    Distribution sys" where
  [simp]: "secure_DetectDistribution g os e = DetectDistribution g os"

definition secure_update_distro :: "sys_env \<Rightarrow> SecureExecutor \<Rightarrow> Distribution \<Rightarrow> exec_result" where
  "secure_update_distro os e distro =
     (case distro of
        DistroAlpine \<Rightarrow>
          or_return (runPrivilegedSecure os e ''apk'' [''update''])
            (runPrivilegedSecure os e ''apk'' [''upgrade'', ''--available''])
      | DistroArch \<Rightarrow> runPrivilegedSecure os e ''pacman'' [''-Syu'', ''--noconfirm'']
      | DistroSUSE \<Rightarrow>
          or_return (runPrivilegedSecure os e ''zypper'' [''refresh''])
            (runPrivilegedSecure os e ''zypper'' [''update'', ''-y''])
      | DistroUnknown \<Rightarrow> return (Some (UnsupportedDistribution (distro_string distro)))
      | _ \<Rightarrow>
          if distro \<in> {DistroDebian, DistroUbuntu} then
            or_return (runPrivilegedSecure os e ''apt-get'' [''update''])
              (runPrivilegedSecure os e ''apt-get''
                 [''upgrade'', ''-y'', ''--with-new-pkgs'', ''-o'',
                  ''Dpkg::Options::=--force-confdef'', ''-o'', ''Dpkg::Options::=--force-confold''])
          else runPrivilegedSecure os e ''dnf'' [''upgrade'', ''-y'', ''--refresh''])"

definition secure_UpdateSystem :: "'g go_lib_scheme \<Rightarrow> sys_env \<Rightarrow> SecureExecutor \<Rightarrow> exec_result" where
  "secure_UpdateSystem g os e =
     do { distro \<leftarrow> secure_DetectDistribution g os e; secure_update_distro os e distro }"

section \<open>The executor with timeouts (executor_timeout.go)\<close>

record ExecutorWithTimeout = DefaultExecutor +
  defaultTimeout :: duration

definition NewExecutorWithTimeout :: "sys_env \<Rightarrow> duration \<Rightarrow> ExecutorWithTimeout sys" where
  "NewExecutorWithTimeout os timeout =
     do { p \<leftarrow> detectPrivilegeCommand os;
          return \<lparr>privilegeCmd = p,
                  defaultTimeout = (if timeout \<le> 0 then 5 * minute else timeout)\<rparr> }"

definition RunCommandWithTimeout :: "sys_env \<Rightarrow> ExecutorWithTimeout \<Rightarrow> duration \<Rightarrow> string \<Rightarrow>
    string list \<Rightarrow> exec_result" where
  "RunCommandWithTimeout os e timeout command args =
     (let timeout = (if timeout \<le> 0 then defaultTimeout e else timeout)
      in do {
           a \<leftarrow> perform os (Exec command args (Some timeout));
           return (if a_deadline a then Some (CommandTimedOut timeout)
                   else map_option (\<lambda>x. CommandFailed x (a_out a)) (a_err a))
         })"

definition getTimeoutForDistro :: "Distribution \<Rightarrow> duration" where
  "getTimeoutForDistro distro =
     (case distro of
        DistroAlpine \<Rightarrow> 3 * minute
      | DistroSUSE \<Rightarrow> 5 * minute
      | DistroArch \<Rightarrow> 5 * minute
      | DistroUnknown \<Rightarrow> 5 * minute
      | _ \<Rightarrow> 10 * minute)"

definition update_cmd :: "Distribution \<Rightarrow> (string \<times> string list) option" where
  "update_cmd distro =
     (case distro of
        DistroAlpine \<Rightarrow> Some (''apk'', [''update''])
      | DistroDebian \<Rightarrow> Some (''apt-get'', [''update''])
      | DistroUbuntu \<Rightarrow> Some (''apt-get'', [''update''])
      | DistroRHEL \<Rightarrow> Some (''yum'', [''check-update''])
      | DistroCentOS \<Rightarrow> Some (''yum'', [''check-update''])
      | DistroFedora \<Rightarrow> Some (''dnf'', [''check-update''])
      | DistroArch \<Rightarrow> Some (''pacman'', [''-Sy''])
      | _ \<Rightarrow> None)"

definition runUpdate :: "sys_env \<Rightarrow> Distribution \<Rightarrow> duration \<Rightarrow> exec_result" where
  "runUpdate os distro timeout =
     (case update_cmd distro of
        None \<Rightarrow> return (Some (UnsupportedDistribution (distro_string distro)))
      | Some (c, as) \<Rightarrow> do {
          a \<leftarrow> perform os (Exec c as (Some timeout));
          return (case a_err a of
                    None \<Rightarrow> None
                  | Some x \<Rightarrow>
                      if a_deadline a then Some (UpdateTimedOut timeout)
                      else if x = ExitError 100 then None
                      else Some (UpdateFailed x (a_out a)))
        })"

definition upgrade_cmd :: "Distribution \<Rightarrow> (string \<times> string list) option" where
  "upgrade_cmd distro =
     (case distro of
        DistroAlpine \<Rightarrow> Some (''apk'', [''upgrade''])
      | DistroDebian \<Rightarrow> Some (''apt-get'', [''upgrade'', ''-y''])
      | DistroUbuntu \<Rightarrow> Some (''apt-get'', [''upgrade'', ''-y''])
      | DistroRHEL \<Rightarrow> Some (''yum'', [''update'', ''-y''])
      | DistroCentOS \<Rightarrow> Some (''yum'', [''update'', ''-y''])
      | DistroFedora \<Rightarrow> Some (''dnf'', [''upgrade'', ''-y''])
      | DistroArch \<Rightarrow> Some (''pacman'', [''-Su'', ''--noconfirm''])
      | _ \<Rightarrow> None)"

definition runUpgrade :: "sys_env \<Rightarrow> Distribution \<Rightarrow> duration \<Rightarrow> exec_result" where
  "runUpgrade os distro timeout =
     (case upgrade_cmd distro of
        None \<Rightarrow> return (Some (UnsupportedDistribution (distro_string distro)))
      | Some (c, as) \<Rightarrow> do {
          a \<leftarrow> perform os (Exec c as (Some timeout));
          return (case a_err a of
                    None \<Rightarrow> None
                  | Some x \<Rightarrow>
                      if a_deadline a then Some (UpgradeTimedOut timeout)
                      else Some (UpgradeFailed x (a_out a)))
        })"

definition UpdateSystemWithTimeout :: "'g go_lib_scheme \<Rightarrow> sys_env \<Rightarrow> ExecutorWithTimeout \<Rightarrow>
    exec_result" where
  "UpdateSystemWithTimeout g os e =
     do {
       distro \<leftarrow> DetectDistribution g os;
       let timeout = getTimeoutForDistro distro;
       or_return (runUpdate os distro timeout) (runUpgrade os distro (timeout * 2))
     }"

text \<open>
  \<open>delay.Seconds()\<close> is a float; its truncation is the quotient for delays below 2 to the 23
  seconds (97 days), where no rounding reaches the next second.
\<close>

definition RebootWithDelay :: "sys_env \<Rightarrow> duration \<Rightarrow> exec_result" where
  "RebootWithDelay os delay =
     (let seconds = delay sdiv second; minutes = ''+'' @ fmt_d (seconds sdiv 60)
      in do {
           a \<leftarrow> perform os (Exec ''shutdown'' [''-r'', minutes] (Some (10 * second)));
           return (case a_err a of
                     None \<Rightarrow> None
                   | Some x \<Rightarrow> Some (if a_deadline a then RebootTimedOut
                                    else RebootFailed x (a_out a)))
         })"

lemmas executor_defs [model_defs] = detectPrivilegeCommand_def NewSystemExecutor_def
  RunCloudInit_def Reboot_def UpdateSystem_def update_distro_def secure_RunCloudInit_def
  secure_Reboot_def secure_UpdateSystem_def secure_update_distro_def UpdateSystemWithTimeout_def

section \<open>Commands run until the first failure\<close>

fun run_plan :: "sys_env \<Rightarrow> sys_op list \<Rightarrow> bool sys" where
  "run_plan os [] = return True"
| "run_plan os (p # ps) =
     do { a \<leftarrow> perform os p; if a_err a = None then run_plan os ps else return False }"

fun all_ok :: "sys_env \<Rightarrow> sys_op list \<Rightarrow> sys_op list \<Rightarrow> bool" where
  "all_ok os tr [] = True"
| "all_ok os tr (p # ps) = (\<not> op_fails os tr p \<and> all_ok os (tr @ [p]) ps)"

text \<open>A plan runs a prefix of its commands, and all of them exactly when it reports success.\<close>

lemma run_plan_prefix:
  "\<exists>n. snd (run_state (run_plan os ps) tr) = tr @ take n ps \<and>
     (fst (run_state (run_plan os ps) tr) \<longleftrightarrow> all_ok os tr ps)"
proof (induction ps arbitrary: tr)
  case (Cons p ps)
  obtain n where "snd (run_state (run_plan os ps) (tr @ [p])) = (tr @ [p]) @ take n ps"
    "fst (run_state (run_plan os ps) (tr @ [p])) \<longleftrightarrow> all_ok os (tr @ [p]) ps"
    using Cons.IH by blast
  then show ?case
    by (cases "a_err (os tr p)")
      (auto simp: op_fails_def intro: exI [of _ "Suc n"] exI [of _ 1])
qed simp

lemma run_plan_ok:
  "all_ok os tr ps \<Longrightarrow> run_state (run_plan os ps) tr = (True, tr @ ps)"
  by (induction ps arbitrary: tr) (auto simp: op_fails_def)

definition default_plan :: "bool \<Rightarrow> Distribution \<Rightarrow> string list list option" where
  "default_plan dnf d =
     (case d of
        DistroAlpine \<Rightarrow> Some [[''apk'', ''update''], [''apk'', ''upgrade'']]
      | DistroSUSE \<Rightarrow> Some [[''zypper'', ''refresh''], [''zypper'', ''update'', ''-y'']]
      | DistroArch \<Rightarrow> Some [[''pacman'', ''-Syu'', ''--noconfirm'']]
      | DistroUnknown \<Rightarrow> None
      | _ \<Rightarrow>
          if d \<in> {DistroDebian, DistroUbuntu}
          then Some [[''apt-get'', ''update''], [''apt-get'', ''upgrade'', ''-y'']]
          else Some [[if dnf then ''dnf'' else ''yum'', ''update'', ''-y'']])"

definition default_op :: "'g go_lib_scheme \<Rightarrow> DefaultExecutor \<Rightarrow> string list \<Rightarrow> sys_op" where
  "default_op g e args = (case privileged_cmd g (privilegeCmd e) args of (c, as) \<Rightarrow> Exec c as None)"

lemma run_runPrivileged:
  "run_state (runPrivileged g os e args) tr =
     (map_option (\<lambda>x. CommandFailed x (a_out (os tr (default_op g e args))))
        (a_err (os tr (default_op g e args))), tr @ [default_op g e args])"
  by (simp add: runPrivileged_def default_op_def split: prod.splits)

definition asks_dnf :: "Distribution \<Rightarrow> bool" where
  "asks_dnf d \<longleftrightarrow> d \<in> {DistroRHEL, DistroCentOS, DistroFedora}"

lemma default_update_eq:
  "(let (res, tr') = run_state (update_distro g os e d) tr in (res = None, tr')) =
   (let tr1 = (if asks_dnf d then tr @ [LookPath ''dnf''] else tr)
    in case default_plan (\<not> op_fails os tr (LookPath ''dnf'')) d of
         None \<Rightarrow> (False, tr1)
       | Some plan \<Rightarrow> run_state (run_plan os (map (default_op g e) plan)) tr1)"
  by (cases d)
    (auto simp: update_distro_def default_plan_def asks_dnf_def run_runPrivileged op_fails_def
      Let_def split: option.splits prod.splits)


section \<open>The interface the action service relies on\<close>

text \<open>Go's interface \<open>Executor\<close>: the four methods of one executor.\<close>

record executor_iface =
  if_RunCloudInit :: exec_result
  if_Reboot :: exec_result
  if_UpdateSystem :: exec_result
  if_DetectDistribution :: "Distribution sys"

definition default_iface :: "'g go_lib_scheme \<Rightarrow> sys_env \<Rightarrow> DefaultExecutor \<Rightarrow> executor_iface" where
  "default_iface g os e =
     \<lparr>if_RunCloudInit = RunCloudInit g os e, if_Reboot = Reboot g os e,
      if_UpdateSystem = UpdateSystem g os e, if_DetectDistribution = DetectDistribution g os\<rparr>"

definition secure_iface :: "'g go_lib_scheme \<Rightarrow> sys_env \<Rightarrow> SecureExecutor \<Rightarrow> executor_iface" where
  "secure_iface g os e =
     \<lparr>if_RunCloudInit = secure_RunCloudInit os e, if_Reboot = secure_Reboot os e,
      if_UpdateSystem = secure_UpdateSystem g os e,
      if_DetectDistribution = secure_DetectDistribution g os e\<rparr>"

text \<open>
  A command that takes the machine down names \<open>reboot\<close> or \<open>shutdown\<close>, as the command or in
  an argument (as it does below \<open>doas\<close>, \<open>sudo\<close> and \<open>su -c\<close>). \<open>only_ops P m\<close>: whatever the
  system answers, \<open>m\<close> extends the trace by operations of \<open>P\<close> only.
\<close>

definition takes_down :: "sys_op \<Rightarrow> bool" where
  "takes_down oper =
     (case oper of
        Exec c as t \<Rightarrow> list_ex (\<lambda>w. str_contains ''reboot'' w \<or> str_contains ''shutdown'' w) (c # as)
      | _ \<Rightarrow> False)"

definition only_ops :: "('op \<Rightarrow> bool) \<Rightarrow> ('op, 'a) io \<Rightarrow> bool" where
  "only_ops P m \<longleftrightarrow> (\<forall>tr. \<exists>new. snd (run_state m tr) = tr @ new \<and> list_all P new)"

lemma only_opsD: "only_ops P m \<Longrightarrow> \<exists>new. snd (run_state m tr) = tr @ new \<and> list_all P new"
  by (simp add: only_ops_def)

lemma only_ops_return [simp, intro]: "only_ops P (return x)"
  by (simp add: only_ops_def)

lemma only_ops_perform [simp]: "only_ops P (perform os oper) = P oper"
  by (simp add: only_ops_def)

lemma only_ops_bind [intro!]:
  assumes m: "only_ops P m" and f: "\<And>x. only_ops P (f x)"
  shows "only_ops P (m \<bind> f)"
  unfolding only_ops_def
proof
  fix tr
  obtain x tr1 where r: "run_state m tr = (x, tr1)" by fastforce
  obtain n1 where 1: "tr1 = tr @ n1" "list_all P n1" using only_opsD [OF m, of tr] r by auto
  obtain n2 where 2: "snd (run_state (f x) tr1) = tr1 @ n2" "list_all P n2"
    using only_opsD [OF f] by blast
  show "\<exists>new. snd (run_state (m \<bind> f) tr) = tr @ new \<and> list_all P new"
    using 1 2 r by (intro exI [of _ "n1 @ n2"]) simp
qed

lemma only_ops_or_return [intro!]:
  "only_ops P m \<Longrightarrow> only_ops P k \<Longrightarrow> only_ops P (or_return m k)"
  unfolding or_return_def by (rule only_ops_bind) (auto split: option.splits)

lemma only_ops_mono: "only_ops P m \<Longrightarrow> (\<And>x. P x \<Longrightarrow> Q x) \<Longrightarrow> only_ops Q m"
  unfolding only_ops_def by (metis list_all_iff)

locale executor =
  fixes iface :: "'e \<Rightarrow> executor_iface"
    and ok :: "'e \<Rightarrow> bool"
  assumes cloud_init_safe: "ok e \<Longrightarrow> only_ops (\<lambda>p. \<not> takes_down p) (if_RunCloudInit (iface e))"
    and update_safe: "ok e \<Longrightarrow> only_ops (\<lambda>p. \<not> takes_down p) (if_UpdateSystem (iface e))"
    and detect_safe: "ok e \<Longrightarrow> only_ops (\<lambda>p. \<not> takes_down p) (if_DetectDistribution (iface e))"
    and reboot_ops: "ok e \<Longrightarrow> only_ops takes_down (if_Reboot (iface e))"
begin

lemma reboot_extends: "ok e \<Longrightarrow> \<exists>new. snd (run_state (if_Reboot (iface e)) tr) = tr @ new"
  using only_opsD [OF reboot_ops] by metis

end

definition priv_ok :: "string \<Rightarrow> bool" where
  "priv_ok p \<longleftrightarrow> p \<in> {[], ''doas'', ''sudo'', ''su''}"

lemma lookup_first_result: "fst (run_state (lookup_first os cs) tr) \<in> insert [] (set cs)"
  by (induction cs arbitrary: tr) auto

lemma detected_priv_ok: "priv_ok (fst (run_state (detectPrivilegeCommand os) tr))"
  using lookup_first_result [of os "[''doas'', ''sudo'', ''su'']" tr]
  by (simp add: priv_ok_def detectPrivilegeCommand_def)

lemma detect_only: "only_ops (\<lambda>p. case p of Exec _ _ _ \<Rightarrow> False | _ \<Rightarrow> True) (DetectDistribution g os)"
  unfolding DetectDistribution_def detect_by_files_def
  by (auto split: option.splits)

lemma runPrivileged_only:
  assumes "priv_ok (privilegeCmd e)" and "args \<noteq> []"
    and "\<And>t. P (Exec (hd args) (tl args) t)" and "\<And>t. P (Exec ''doas'' args t)"
    and "\<And>t. P (Exec ''sudo'' args t)"
    and "\<And>t. P (Exec ''su'' [''-c'', str_join '' '' (map (Quote g) args)] t)"
  shows "only_ops P (runPrivileged g os e args)"
  using assms unfolding runPrivileged_def privileged_cmd_def priv_ok_def
  by (auto split: prod.splits)

lemma takes_down_plain [simp]:
  "\<not> takes_down (LookPath p)" "\<not> takes_down (Stat p)" "\<not> takes_down (ReadFile p)"
  by (simp_all add: takes_down_def)

lemma detect_no_power: "only_ops (\<lambda>p. \<not> takes_down p) (DetectDistribution g os)"
  by (rule only_ops_mono [OF detect_only]) (auto split: sys_op.splits)

lemmas literal_eval = takes_down_def Quote_def ascii_def quote_byte_def

lemma default_cloud_init_safe:
  "priv_ok (privilegeCmd e) \<Longrightarrow> only_ops (\<lambda>p. \<not> takes_down p) (RunCloudInit g os e)"
  unfolding RunCloudInit_def by (rule runPrivileged_only) (simp_all add: literal_eval)

lemma default_reboot_ops:
  "priv_ok (privilegeCmd e) \<Longrightarrow> only_ops takes_down (Reboot g os e)"
  unfolding Reboot_def by (rule runPrivileged_only) (simp_all add: literal_eval)

lemma default_update_safe:
  assumes "priv_ok (privilegeCmd e)"
  shows "only_ops (\<lambda>p. \<not> takes_down p) (UpdateSystem g os e)"
  unfolding UpdateSystem_def
proof (rule only_ops_bind [OF detect_no_power])
  fix d
  show "only_ops (\<lambda>p. \<not> takes_down p) (update_distro g os e d)"
    using assms unfolding update_distro_def
    by (cases d) (auto split: if_splits intro!: runPrivileged_only simp: literal_eval)
qed

interpretation default_exec: executor "default_iface g os" "\<lambda>e. priv_ok (privilegeCmd e)"
  by unfold_locales
    (simp_all add: default_iface_def default_cloud_init_safe default_update_safe detect_no_power
      default_reboot_ops)

text \<open>The secure executor runs a command as it is or below \<open>doas\<close> and \<open>sudo\<close>, or nothing at all.\<close>

lemma runPrivilegedSecure_only:
  assumes "priv_ok (sec_privilegeCmd e)" and "P (Exec c args (Some (sec_timeout e)))"
    and "P (Exec ''doas'' (c # args) (Some (sec_timeout e)))"
    and "P (Exec ''sudo'' (c # args) (Some (sec_timeout e)))"
  shows "only_ops P (runPrivilegedSecure os e c args)"
  using assms unfolding runPrivilegedSecure_def run_secure_def priv_ok_def Let_def
  by auto

lemma secure_update_only:
  assumes "priv_ok (sec_privilegeCmd e)"
    and "\<And>c args. c \<in> {''apk'', ''apt-get'', ''dnf'', ''pacman'', ''zypper''} \<Longrightarrow> args \<noteq> [] \<Longrightarrow>
      list_all (\<lambda>w. \<not> str_contains ''reboot'' w \<and> \<not> str_contains ''shutdown'' w) args \<Longrightarrow>
      P (Exec c args (Some (sec_timeout e))) \<and> P (Exec ''doas'' (c # args) (Some (sec_timeout e))) \<and>
      P (Exec ''sudo'' (c # args) (Some (sec_timeout e)))"
  shows "only_ops P (secure_update_distro os e d)"
  unfolding secure_update_distro_def
  by (cases d) (auto intro!: runPrivilegedSecure_only simp: assms)

lemma secure_update_safe:
  assumes "priv_ok (sec_privilegeCmd e)"
  shows "only_ops (\<lambda>p. \<not> takes_down p) (secure_UpdateSystem g os e)"
  unfolding secure_UpdateSystem_def secure_DetectDistribution_def
  by (rule only_ops_bind [OF detect_no_power], rule secure_update_only [OF assms])
    (auto simp: takes_down_def list_all_iff list_ex_iff)

lemma secure_cloud_init_safe:
  "priv_ok (sec_privilegeCmd e) \<Longrightarrow> only_ops (\<lambda>p. \<not> takes_down p) (secure_RunCloudInit os e)"
  unfolding secure_RunCloudInit_def
  by (intro only_ops_bind runPrivilegedSecure_only) (simp_all add: takes_down_def)

lemma secure_reboot_ops:
  "priv_ok (sec_privilegeCmd e) \<Longrightarrow> only_ops takes_down (secure_Reboot os e)"
  unfolding secure_Reboot_def by (rule runPrivilegedSecure_only) (simp_all add: takes_down_def)

interpretation secure_exec: executor "secure_iface g os" "\<lambda>e. priv_ok (sec_privilegeCmd e)"
  by unfold_locales
    (simp_all add: secure_iface_def secure_cloud_init_safe secure_update_safe detect_no_power
      secure_reboot_ops)

section \<open>Properties\<close>

text \<open>
  The default executor's update of a distribution is its plan of privileged commands run
  one after the other until the first failure: it reports success exactly when the plan
  does, performs the same operations, and an unknown distribution runs nothing and is an
  error. On the Red Hat family the only other operation is the look-up of \<open>dnf\<close>, before.
\<close>

theorem default_update_plan:
  "(let (res, tr') = run_state (update_distro g os e d) tr in (res = None, tr')) =
   (let tr1 = (if asks_dnf d then tr @ [LookPath ''dnf''] else tr)
    in case default_plan (\<not> op_fails os tr (LookPath ''dnf'')) d of
         None \<Rightarrow> (False, tr1)
       | Some plan \<Rightarrow> run_state (run_plan os (map (default_op g e) plan)) tr1)"
  by (rule default_update_eq)

definition secure_plan :: "Distribution \<Rightarrow> string list list option" where
  "secure_plan d =
     (case d of
        DistroAlpine \<Rightarrow> Some [[''apk'', ''update''], [''apk'', ''upgrade'', ''--available'']]
      | DistroSUSE \<Rightarrow> Some [[''zypper'', ''refresh''], [''zypper'', ''update'', ''-y'']]
      | DistroArch \<Rightarrow> Some [[''pacman'', ''-Syu'', ''--noconfirm'']]
      | DistroUnknown \<Rightarrow> None
      | _ \<Rightarrow>
          if d \<in> {DistroDebian, DistroUbuntu}
          then Some [[''apt-get'', ''update''],
                     [''apt-get'', ''upgrade'', ''-y'', ''--with-new-pkgs'', ''-o'',
                      ''Dpkg::Options::=--force-confdef'', ''-o'', ''Dpkg::Options::=--force-confold'']]
          else Some [[''dnf'', ''upgrade'', ''-y'', ''--refresh'']])"

definition secure_op :: "SecureExecutor \<Rightarrow> string list \<Rightarrow> sys_op" where
  "secure_op e args =
     (let full = (if sec_privilegeCmd e = [] then args else sec_privilegeCmd e # args)
      in Exec (hd full) (tl full) (Some (sec_timeout e)))"

lemma run_runPrivilegedSecure:
  assumes "sec_privilegeCmd e \<in> {[], ''doas'', ''sudo''}"
  shows "run_state (runPrivilegedSecure os e c args) tr =
    (let oper = secure_op e (c # args)
     in (map_option (\<lambda>x. if a_deadline (os tr oper) then CommandTimedOut (sec_timeout e)
                         else CommandFailed x (a_out (os tr oper))) (a_err (os tr oper)), tr @ [oper]))"
  using assms
  by (auto simp: runPrivilegedSecure_def run_secure_def secure_op_def Let_def split: option.splits)

text \<open>
  The same for the secure executor, whose commands all run under its timeout, unless its
  privilege command is \<open>su\<close>.
\<close>

theorem secure_update_plan:
  assumes "sec_privilegeCmd e \<in> {[], ''doas'', ''sudo''}"
  shows "(let (res, tr') = run_state (secure_update_distro os e d) tr in (res = None, tr')) =
    (case secure_plan d of
       None \<Rightarrow> (False, tr)
     | Some plan \<Rightarrow> run_state (run_plan os (map (secure_op e) plan)) tr)"
  by (cases d)
    (auto simp: secure_update_distro_def secure_plan_def run_runPrivilegedSecure [OF assms]
      Let_def split: option.splits prod.splits)

text \<open>A system that answers every operation with success, and says it is a Debian.\<close>

definition debian_env :: sys_env where
  "debian_env tr oper =
     \<lparr>a_err = (case oper of Stat p \<Rightarrow> if p = ''/etc/debian_version'' then None
                                    else Some (OtherError ''not found'') | _ \<Rightarrow> None),
      a_out = [], a_deadline = False\<rparr>"

theorem secure_update_plan_witness:
  "snd (run_state (secure_update_distro debian_env \<lparr>sec_privilegeCmd = ''sudo'', sec_timeout = minute\<rparr>
     DistroFedora) []) = [Exec ''sudo'' [''dnf'', ''upgrade'', ''-y'', ''--refresh''] (Some minute)]"
  using secure_update_plan [of "\<lparr>sec_privilegeCmd = ''sudo'', sec_timeout = minute\<rparr>" debian_env
      DistroFedora "[]"]
  by (simp add: secure_plan_def secure_op_def debian_env_def Let_def split: prod.splits)

text \<open>
  With \<open>su\<close> as the only privilege command, the secure executor never runs any command,
  and each of its operations reports an error.
\<close>

theorem secure_refuses_su:
  assumes "sec_privilegeCmd e = ''su''" and "m \<in> {secure_RunCloudInit os e, secure_Reboot os e,
    secure_UpdateSystem g os e}"
  shows "fst (run_state m tr) \<noteq> None \<and>
    (\<exists>new. snd (run_state m tr) = tr @ new \<and> list_all (\<lambda>p. case p of Exec _ _ _ \<Rightarrow> False | _ \<Rightarrow> True) new)"
proof -
  have run: "runPrivilegedSecure os e c as = return (Some (UnsupportedPrivilege ''su''))" for c as
    by (simp add: runPrivilegedSecure_def assms(1))
  have upd: "\<exists>x. secure_update_distro os e d = return (Some x)" for d
    by (cases d) (auto simp: secure_update_distro_def run or_return_def)
  obtain new where new: "snd (run_state (DetectDistribution g os) tr) = tr @ new"
    "list_all (\<lambda>p. case p of Exec _ _ _ \<Rightarrow> False | _ \<Rightarrow> True) new"
    using only_opsD [OF detect_only] by blast
  obtain d tr' where d: "run_state (DetectDistribution g os) tr = (d, tr')" by fastforce
  show ?thesis
    using assms(2) upd [of d] new d
    by (auto simp: secure_RunCloudInit_def secure_Reboot_def secure_UpdateSystem_def run)
qed

theorem secure_refuses_su_witness:
  "fst (run_state (secure_Reboot debian_env \<lparr>sec_privilegeCmd = ''su'', sec_timeout = minute\<rparr>) []) \<noteq> None"
  using secure_refuses_su [of "\<lparr>sec_privilegeCmd = ''su'', sec_timeout = minute\<rparr>"
      "secure_Reboot debian_env \<lparr>sec_privilegeCmd = ''su'', sec_timeout = minute\<rparr>" debian_env undefined "[]"]
  by simp

text \<open>
  C25: an update through the default executor reports success only after every command of
  the detected distribution's plan ran and succeeded, in order and with nothing else after
  the detection.
\<close>

theorem update_success_means_done:
  assumes "run_state (UpdateSystem g os e) [] = (None, tr)"
  shows "\<exists>d tr0 dnf plan. run_state (DetectDistribution g os) [] = (d, tr0) \<and>
    default_plan dnf d = Some plan \<and>
    (\<exists>tr1. (tr1 = tr0 \<or> tr1 = tr0 @ [LookPath ''dnf'']) \<and> all_ok os tr1 (map (default_op g e) plan) \<and>
      tr = tr1 @ map (default_op g e) plan)"
proof -
  obtain d tr0 where d: "run_state (DetectDistribution g os) [] = (d, tr0)" by fastforce
  then have upd: "run_state (update_distro g os e d) tr0 = (None, tr)"
    using assms by (simp add: UpdateSystem_def)
  let ?tr1 = "if asks_dnf d then tr0 @ [LookPath ''dnf''] else tr0"
  let ?dnf = "\<not> op_fails os tr0 (LookPath ''dnf'')"
  obtain plan where plan: "default_plan ?dnf d = Some plan"
    "run_state (run_plan os (map (default_op g e) plan)) ?tr1 = (True, tr)"
    using default_update_eq [of g os e d tr0] upd by (auto simp: Let_def split: option.splits)
  then have "all_ok os ?tr1 (map (default_op g e) plan)"
    using run_plan_prefix [of os "map (default_op g e) plan" ?tr1] by simp
  then show ?thesis
    using d plan run_plan_ok [of os ?tr1 "map (default_op g e) plan"]
    by (intro exI [of _ d] exI [of _ tr0] exI [of _ ?dnf] exI [of _ plan]) auto
qed

theorem update_success_means_done_witness:
  "\<exists>dnf plan. default_plan dnf DistroDebian = Some plan \<and>
     all_ok debian_env [Stat ''/etc/alpine-release'', Stat ''/etc/os-release'',
       Stat ''/etc/debian_version''] [Exec ''doas'' [''apt-get'', ''update''] None,
       Exec ''doas'' [''apt-get'', ''upgrade'', ''-y''] None]"
proof -
  let ?e = "\<lparr>privilegeCmd = ''doas''\<rparr>"
  let ?g = "\<lparr>uni_lower = (\<lambda>s. s), uni_trim = (\<lambda>s. s), uni_quote = (\<lambda>s. s), parse_ip = (\<lambda>s. True)\<rparr>"
  let ?tr = "[Stat ''/etc/alpine-release'', Stat ''/etc/os-release'', Stat ''/etc/debian_version'']"
  have d: "run_state (DetectDistribution ?g debian_env) [] = (DistroDebian, ?tr)"
    by (simp add: DetectDistribution_def detect_by_files_def debian_env_def)
  have r: "run_state (UpdateSystem ?g debian_env ?e) [] =
      (None, ?tr @ [Exec ''doas'' [''apt-get'', ''update''] None,
                    Exec ''doas'' [''apt-get'', ''upgrade'', ''-y''] None])"
    using d by (simp add: UpdateSystem_def update_distro_def run_runPrivileged default_op_def
        privileged_cmd_def debian_env_def)
  show ?thesis
    using update_success_means_done [OF r] d
    by (auto simp: default_plan_def default_op_def privileged_cmd_def)
qed

text \<open>
  Detection is a first match. The content of \<open>/etc/os-release\<close> is matched against a table
  of keywords, in this order, as substrings of the lower-cased text (so ``arch'' is found in
  ``search'' and ``monarch'' as well).
\<close>

definition os_table :: "(string list \<times> Distribution) list" where
  "os_table =
     [([''alpine''], DistroAlpine), ([''ubuntu''], DistroUbuntu), ([''debian''], DistroDebian),
      ([''rhel'', ''red hat''], DistroRHEL), ([''centos''], DistroCentOS),
      ([''fedora''], DistroFedora), ([''suse''], DistroSUSE), ([''arch''], DistroArch)]"

theorem os_release_first_match:
  "match_os_release s =
     map_option snd (List.find (\<lambda>(ks, d). \<exists>k \<in> set ks. sublist k s) os_table)"
proof -
  have "str_contains ''opensuse'' s \<Longrightarrow> str_contains ''suse'' s"
    by (rule str_contains_mono [of _ "''opensuse''"]) (simp_all flip: str_contains_iff)
  then show ?thesis
    by (auto simp: match_os_release_def os_table_def simp flip: str_contains_iff)
qed

fun op_timeout :: "sys_op \<Rightarrow> duration option" where
  "op_timeout (Exec c as t) = t"
| "op_timeout oper = Some 0"

lemma runUpdate_ops:
  "\<exists>cmds. snd (run_state (runUpdate os d t) tr) = tr @ cmds \<and>
     (cmds = [] \<or> (\<exists>c as. cmds = [Exec c as (Some t)]))"
  by (auto simp: runUpdate_def split: option.splits prod.splits)

lemma runUpgrade_ops:
  "\<exists>cmds. snd (run_state (runUpgrade os d t) tr) = tr @ cmds \<and>
     (cmds = [] \<or> (\<exists>c as. cmds = [Exec c as (Some t)]))"
  by (auto simp: runUpgrade_def split: option.splits prod.splits)

text \<open>
  C26: an update with timeouts starts no command without a timeout, and the timeouts of all
  commands it starts add up to at most 30 minutes.
\<close>

theorem update_time_bound:
  "\<exists>new. snd (run_state (UpdateSystemWithTimeout g os e) tr) = tr @ new \<and>
     None \<notin> set (map op_timeout new) \<and> sum_list (map (the \<circ> op_timeout) new) \<le> 30 * minute"
proof -
  obtain d tr1 where d: "run_state (DetectDistribution g os) tr = (d, tr1)" by fastforce
  obtain look where tr1: "tr1 = tr @ look"
    and none: "list_all (\<lambda>p. case p of Exec _ _ _ \<Rightarrow> False | _ \<Rightarrow> True) look"
    using only_opsD [OF detect_only, of g os tr] d by auto
  from none have free: "None \<notin> op_timeout ` set look" "sum_list (map (the \<circ> op_timeout) look) = 0"
    by (induction look) (auto split: sys_op.splits)
  let ?t = "getTimeoutForDistro d"
  have t: "0 < ?t" "3 * ?t \<le> 30 * minute" by (cases d; simp add: getTimeoutForDistro_def)+
  obtain c1 where c1: "snd (run_state (runUpdate os d ?t) tr1) = tr1 @ c1"
    "c1 = [] \<or> (\<exists>c as. c1 = [Exec c as (Some ?t)])" using runUpdate_ops by blast
  obtain c2 where c2: "snd (run_state (runUpgrade os d (?t * 2)) (tr1 @ c1)) = (tr1 @ c1) @ c2"
    "c2 = [] \<or> (\<exists>c as. c2 = [Exec c as (Some (?t * 2))])" using runUpgrade_ops by blast
  have "snd (run_state (UpdateSystemWithTimeout g os e) tr) \<in> {tr @ look @ c1, tr @ look @ c1 @ c2}"
    using d c1(1) c2(1) tr1 by (auto simp: UpdateSystemWithTimeout_def Let_def split: prod.splits option.splits)
  then show ?thesis using free t c1(2) c2(2) by (elim insertE) auto
qed

text \<open>
  The exit status 100, by which \<open>yum\<close> and \<open>dnf\<close> say that updates are available, counts as a
  success of the first command for every supported distribution, also where (as for
  \<open>apt-get\<close>) it is the status of an error: the upgrade is run all the same, and if it
  succeeds the whole update does.
\<close>

theorem exit_100_is_success:
  assumes "update_cmd d = Some (c, as)" and "a_err (os tr (Exec c as (Some t))) = Some (ExitError 100)"
    and "\<not> a_deadline (os tr (Exec c as (Some t)))"
  shows "run_state (or_return (runUpdate os d t) (runUpgrade os d (t * 2))) tr =
    run_state (runUpgrade os d (t * 2)) (tr @ [Exec c as (Some t)])"
  using assms by (simp add: runUpdate_def)

text \<open>An \<open>apt-get update\<close> that fails with status 100 because another process holds the lock.\<close>

definition apt_locked :: sys_env where
  "apt_locked tr oper =
     \<lparr>a_err = (if oper = Exec ''apt-get'' [''update''] (Some minute) then Some (ExitError 100) else None),
      a_out = ''E: Could not get lock'', a_deadline = False\<rparr>"

theorem exit_100_is_success_witness:
  "fst (run_state (or_return (runUpdate apt_locked DistroDebian minute)
     (runUpgrade apt_locked DistroDebian (minute * 2))) []) = None"
proof -
  have "run_state (or_return (runUpdate apt_locked DistroDebian minute)
      (runUpgrade apt_locked DistroDebian (minute * 2))) [] =
    run_state (runUpgrade apt_locked DistroDebian (minute * 2))
      ([] @ [Exec ''apt-get'' [''update''] (Some minute)])"
    by (rule exit_100_is_success) (simp_all add: update_cmd_def apt_locked_def)
  then show ?thesis
    by (simp only:) (simp add: runUpgrade_def upgrade_cmd_def apt_locked_def)
qed

text \<open>
  The quoting of \<open>su -c\<close> is no shell escaping. An argument of printable characters without
  double quotes and backslashes is put between double quotes as it is, so a shell expands
  any \<open>$(...)\<close>, \<open>$x\<close> or backquotes in it.
\<close>

definition plain_byte :: "char \<Rightarrow> bool" where
  "plain_byte c \<longleftrightarrow> 32 \<le> (of_char c :: nat) \<and> (of_char c :: nat) < 127 \<and> c \<noteq> CHR 0x22 \<and> c \<noteq> CHR 0x5C"

lemma plain_quote_byte: "plain_byte c \<Longrightarrow> quote_byte c = [c]"
proof -
  assume p: "plain_byte c"
  have "c \<notin> {CHR 7, CHR 8, CHR 9, CHR 10, CHR 11, CHR 12, CHR 13}"
  proof
    assume "c \<in> {CHR 7, CHR 8, CHR 9, CHR 10, CHR 11, CHR 12, CHR 13}"
    then have "(of_char c :: nat) < 32" by (elim insertE emptyE) simp_all
    then show False using p by (simp add: plain_byte_def)
  qed
  then show ?thesis using p by (simp add: plain_byte_def quote_byte_def)
qed

theorem su_quote_keeps_expansions:
  assumes "list_all plain_byte s"
  shows "privileged_cmd g ''su'' [s] = (''su'', [''-c'', [CHR 0x22] @ s @ [CHR 0x22]])"
proof -
  have "plain_byte c \<Longrightarrow> ascii c" for c unfolding plain_byte_def ascii_def by linarith
  then have "list_all ascii s" using assms by (metis list_all_iff)
  moreover have "concat (map quote_byte s) = s"
    using assms by (induction s) (simp_all add: plain_quote_byte)
  ultimately show ?thesis by (simp only: privileged_cmd_def Quote_def if_True list.map str_join.simps) simp
qed

theorem su_quote_keeps_expansions_witness:
  "\<forall>g :: go_lib. privileged_cmd g ''su'' [''$(reboot)''] =
     (''su'', [''-c'', [CHR 0x22] @ ''$(reboot)'' @ [CHR 0x22]])"
  by (intro allI su_quote_keeps_expansions) (simp add: plain_byte_def)

end
