(* ===== verification/Entity.thy ===== *)
theory Entity
  imports Go_Text
begin

text \<open>
  The domain entities of \<open>internal/domain/entity\<close>: action types and webhook requests
  (\<open>action.go\<close>) and jobs with their lifecycle (\<open>job.go\<close>). The mutex of \<open>JobWithMutex\<close> makes
  each method one atomic step; the model has one function per method.
\<close>

section \<open>Action types and requests (action.go)\<close>

type_synonym action_type = string

definition ActionReinit :: action_type where "ActionReinit = ''reinit''"
definition ActionReboot :: action_type where "ActionReboot = ''reboot''"
definition ActionUpdate :: action_type where "ActionUpdate = ''update''"
definition ActionShutdown :: action_type where "ActionShutdown = ''shutdown''"
definition ActionExecuteScript :: action_type where "ActionExecuteScript = ''execute_script''"
definition ActionUpgrade :: action_type where "ActionUpgrade = ''upgrade''"
definition ActionRestart :: action_type where "ActionRestart = ''restart''"

lemmas action_defs = ActionReinit_def ActionReboot_def ActionUpdate_def ActionShutdown_def
  ActionExecuteScript_def ActionUpgrade_def ActionRestart_def

text \<open>\<open>Timestamp\<close> is an \<open>int64\<close> taken from the request as it is.\<close>

record webhook_request =
  req_Action :: action_type
  req_Module :: string
  req_Config :: "(string, string) gomap"
  req_Timestamp :: "64 word"

section \<open>Jobs (action.go, job.go)\<close>

datatype job_status = JobStatusPending | JobStatusRunning | JobStatusCompleted | JobStatusFailed

primrec status_string :: "job_status \<Rightarrow> string" where
  "status_string JobStatusPending = ''pending''"
| "status_string JobStatusRunning = ''running''"
| "status_string JobStatusCompleted = ''completed''"
| "status_string JobStatusFailed = ''failed''"

record job =
  job_ID :: string
  job_Action :: action_type
  job_Status :: job_status
  job_StartTime :: time
  job_EndTime :: "time option"
  job_Error :: "string go_error"

definition NewJob :: "string \<Rightarrow> action_type \<Rightarrow> time \<Rightarrow> job" where
  "NewJob jid act now =
     \<lparr>job_ID = jid, job_Action = act, job_Status = JobStatusPending, job_StartTime = now,
      job_EndTime = None, job_Error = None\<rparr>"

definition SetRunning :: "job \<Rightarrow> job" where
  "SetRunning j = j\<lparr>job_Status := JobStatusRunning\<rparr>"

definition SetCompleted :: "time \<Rightarrow> job \<Rightarrow> job" where
  "SetCompleted now j = j\<lparr>job_Status := JobStatusCompleted, job_EndTime := Some now\<rparr>"

definition SetFailed :: "string go_error \<Rightarrow> time \<Rightarrow> job \<Rightarrow> job" where
  "SetFailed err now j =
     j\<lparr>job_Status := JobStatusFailed, job_Error := err, job_EndTime := Some now\<rparr>"

definition GetStatus :: "job \<Rightarrow> job_status" where
  "GetStatus j = job_Status j"

definition IsRunning :: "job \<Rightarrow> bool" where
  "IsRunning j \<longleftrightarrow> job_Status j = JobStatusRunning"

lemmas job_op_defs [model_defs] =
  NewJob_def SetRunning_def SetCompleted_def SetFailed_def GetStatus_def IsRunning_def

lemma job_ops_ID [simp]:
  "job_ID (NewJob i a t) = i" "job_ID (SetRunning j) = job_ID j"
  "job_ID (SetCompleted t j) = job_ID j" "job_ID (SetFailed e t j) = job_ID j"
  by (simp_all add: job_op_defs)

lemma job_ops_Status [simp]:
  "job_Status (NewJob i a t) = JobStatusPending"
  "job_Status (SetRunning j) = JobStatusRunning"
  "job_Status (SetCompleted t j) = JobStatusCompleted"
  "job_Status (SetFailed e t j) = JobStatusFailed"
  by (simp_all add: job_op_defs)

text \<open>
  The lifecycle is an order on the states: pending, running, then one of the two final
  states. Being further along the lifecycle is \<open>\<le>\<close> on \<open>job_status\<close>.
\<close>

primrec status_rank :: "job_status \<Rightarrow> nat" where
  "status_rank JobStatusPending = 0"
| "status_rank JobStatusRunning = 1"
| "status_rank JobStatusCompleted = 2"
| "status_rank JobStatusFailed = 3"

lemma status_rank_inj: "status_rank a = status_rank b \<longleftrightarrow> a = b"
  by (cases a; cases b) simp_all

instantiation job_status :: linorder
begin

definition less_eq_job_status :: "job_status \<Rightarrow> job_status \<Rightarrow> bool" where
  "a \<le> b \<longleftrightarrow> status_rank a \<le> status_rank b"

definition less_job_status :: "job_status \<Rightarrow> job_status \<Rightarrow> bool" where
  "a < b \<longleftrightarrow> status_rank a < status_rank b"

instance
  by standard (auto simp: less_eq_job_status_def less_job_status_def status_rank_inj)

end

definition job_final :: "job \<Rightarrow> bool" where
  "job_final j \<longleftrightarrow> JobStatusRunning < job_Status j"

lemma job_final_iff:
  "job_final j \<longleftrightarrow> job_Status j = JobStatusCompleted \<or> job_Status j = JobStatusFailed"
  by (cases "job_Status j") (simp_all add: job_final_def less_job_status_def)

lemma job_final_not_running: "job_final j \<Longrightarrow> \<not> IsRunning j"
  by (auto simp: job_final_iff IsRunning_def)

text \<open>
  What is true of a job the package's own methods made: it carries an end time exactly when
  it is finished, and an error only when it failed.
\<close>

definition job_wf :: "job \<Rightarrow> bool" where
  "job_wf j \<longleftrightarrow> (job_EndTime j \<noteq> None \<longleftrightarrow> job_final j) \<and>
     (job_Error j \<noteq> None \<longrightarrow> job_Status j = JobStatusFailed)"

lemma NewJob_wf: "job_wf (NewJob i a t)"
  by (simp add: job_wf_def job_final_iff NewJob_def)

lemma SetRunning_wf: "job_wf j \<Longrightarrow> \<not> job_final j \<Longrightarrow> job_wf (SetRunning j)"
  by (auto simp: job_wf_def job_final_iff SetRunning_def)

lemma SetCompleted_wf: "job_wf j \<Longrightarrow> \<not> job_final j \<Longrightarrow> job_wf (SetCompleted t j)"
  by (auto simp: job_wf_def job_final_iff SetCompleted_def)

lemma SetFailed_wf: "job_wf (SetFailed e t j)"
  by (auto simp: job_wf_def job_final_iff SetFailed_def)

end
