(* ===== verification/Http.thy ===== *)
theory Http
  imports Go_Text
begin

text \<open>
  What the handlers use of \<open>net/http\<close>, \<open>net\<close>, \<open>io\<close> and \<open>encoding/json\<close>: a request as the
  values its accessors return, a response as its status, the headers set on it and its body,
  and the address parsing of \<open>net.SplitHostPort\<close>.
\<close>

section \<open>Requests\<close>

text \<open>
  \<open>r_Header k\<close> is \<open>r.Header.Get(k)\<close> and \<open>r_Query k\<close> is \<open>r.URL.Query().Get(k)\<close>, empty where
  the key is absent. The body is the bytes that arrive, and whether the stream then ends in
  an error rather than at its end.
\<close>

record http_request =
  r_Method :: string
  r_Header :: "string \<Rightarrow> string"
  r_Query :: "string \<Rightarrow> string"
  r_Body :: string
  r_BodyFails :: bool
  r_RemoteAddr :: string

text \<open>\<open>io.ReadAll(io.LimitReader(body, n))\<close>: at most \<open>n\<close> bytes, the rest is never read.\<close>

definition read_limited :: "nat \<Rightarrow> http_request \<Rightarrow> string option" where
  "read_limited n r =
     (if n \<le> length (r_Body r) then Some (take n (r_Body r))
      else if r_BodyFails r then None else Some (r_Body r))"

lemma read_limited_length: "read_limited n r = Some b \<Longrightarrow> length b \<le> n"
  by (auto simp: read_limited_def split: if_splits)

lemma read_limited_prefix: "read_limited n r = Some b \<Longrightarrow> prefix b (r_Body r)"
  by (auto simp: read_limited_def take_is_prefix split: if_splits)

section \<open>Responses\<close>

text \<open>
  A JSON body is the Go map handed to the encoder; times and durations are kept as such.
\<close>

datatype json_val = JStr string | JTime time | JSeconds duration | JNull

datatype http_body = Text string | Json "(string, json_val) gomap"

record http_response =
  w_Status :: nat
  w_Headers :: "(string \<times> string) list"
  w_Body :: http_body

abbreviation StatusOK :: nat where "StatusOK \<equiv> 200"
abbreviation StatusAccepted :: nat where "StatusAccepted \<equiv> 202"
abbreviation StatusBadRequest :: nat where "StatusBadRequest \<equiv> 400"
abbreviation StatusUnauthorized :: nat where "StatusUnauthorized \<equiv> 401"
abbreviation StatusNotFound :: nat where "StatusNotFound \<equiv> 404"
abbreviation StatusMethodNotAllowed :: nat where "StatusMethodNotAllowed \<equiv> 405"
abbreviation StatusConflict :: nat where "StatusConflict \<equiv> 409"
abbreviation StatusTooManyRequests :: nat where "StatusTooManyRequests \<equiv> 429"
abbreviation StatusInternalServerError :: nat where "StatusInternalServerError \<equiv> 500"
abbreviation StatusServiceUnavailable :: nat where "StatusServiceUnavailable \<equiv> 503"

definition http_Error :: "string \<Rightarrow> nat \<Rightarrow> http_response" where
  "http_Error msg code =
     \<lparr>w_Status = code,
      w_Headers = [(''Content-Type'', ''text/plain; charset=utf-8''),
                   (''X-Content-Type-Options'', ''nosniff'')],
      w_Body = Text (msg @ [CHR 0x0A])\<rparr>"

lemma w_Status_Error [simp]: "w_Status (http_Error msg code) = code"
  by (simp add: http_Error_def)

abbreviation json_type :: "string \<times> string" where
  "json_type \<equiv> (''Content-Type'', ''application/json'')"

definition json_response :: "nat \<Rightarrow> (string \<times> string) list \<Rightarrow> (string, json_val) gomap \<Rightarrow>
    http_response" where
  "json_response code hs kvs = \<lparr>w_Status = code, w_Headers = hs, w_Body = Json kvs\<rparr>"

lemma json_response_sel [simp]:
  "w_Status (json_response code hs kvs) = code"
  "w_Headers (json_response code hs kvs) = hs"
  "w_Body (json_response code hs kvs) = Json kvs"
  by (simp_all add: json_response_def)

section \<open>net.SplitHostPort\<close>

datatype addr_error = MissingPort | TooManyColons | MissingBracket | UnexpectedBracket

definition index_of :: "char \<Rightarrow> string \<Rightarrow> nat option" where
  "index_of c s = (if c \<in> set s then Some (length (takeWhile (\<lambda>d. d \<noteq> c) s)) else None)"

definition last_index_of :: "char \<Rightarrow> string \<Rightarrow> nat option" where
  "last_index_of c s =
     (if c \<in> set s then Some (length s - 1 - length (takeWhile (\<lambda>d. d \<noteq> c) (rev s))) else None)"

definition check_brackets :: "string \<Rightarrow> nat \<Rightarrow> nat \<Rightarrow> string \<Rightarrow> nat \<Rightarrow>
    addr_error + string \<times> string" where
  "check_brackets s j k host i =
     (if CHR ''['' \<in> set (drop j s) then Inl UnexpectedBracket
      else if CHR '']'' \<in> set (drop k s) then Inl UnexpectedBracket
      else Inr (host, drop (i + 1) s))"

definition SplitHostPort :: "string \<Rightarrow> addr_error + string \<times> string" where
  "SplitHostPort s =
     (case last_index_of CHR '':'' s of
        None \<Rightarrow> Inl MissingPort
      | Some i \<Rightarrow>
          if hd s = CHR ''['' then
            (case index_of CHR '']'' s of
               None \<Rightarrow> Inl MissingBracket
             | Some e \<Rightarrow>
                 if e + 1 = length s then Inl MissingPort
                 else if e + 1 = i then check_brackets s 1 (e + 1) (take (e - 1) (drop 1 s)) i
                 else if s ! (e + 1) = CHR '':'' then Inl TooManyColons
                 else Inl MissingPort)
          else if CHR '':'' \<in> set (take i s) then Inl TooManyColons
          else check_brackets s 0 0 (take i s) i)"

lemma SplitHostPort_examples:
  "SplitHostPort ''10.0.0.1:80'' = Inr (''10.0.0.1'', ''80'')"
  "SplitHostPort ''[::1]:80'' = Inr (''::1'', ''80'')"
  "SplitHostPort ''::1'' = Inl TooManyColons"
  "SplitHostPort ''10.0.0.1'' = Inl MissingPort"
  by (simp_all add: SplitHostPort_def last_index_of_def index_of_def check_brackets_def)

lemma last_index_of_unique:
  "c \<notin> set p \<Longrightarrow> last_index_of c (s @ c # p) = Some (length s)"
proof -
  assume "c \<notin> set p"
  then have "takeWhile (\<lambda>d. d \<noteq> c) (rev p @ c # rev s) = rev p"
    by (subst takeWhile_append2) auto
  then show ?thesis by (simp add: last_index_of_def)
qed

text \<open>A host without colons and brackets and a port without them split as expected.\<close>

lemma SplitHostPort_plain:
  assumes "\<forall>c \<in> set host. c \<notin> {CHR '':'', CHR ''['', CHR '']''}"
    and "\<forall>c \<in> set port. c \<notin> {CHR '':'', CHR ''['', CHR '']''}"
  shows "SplitHostPort (host @ CHR '':'' # port) = Inr (host, port)"
proof -
  have hd: "hd (host @ CHR '':'' # port) \<noteq> CHR ''[''"
    using assms(1) by (cases host) auto
  have "last_index_of CHR '':'' (host @ CHR '':'' # port) = Some (length host)"
    using assms(2) by (intro last_index_of_unique) auto
  with hd show ?thesis
    using assms by (auto simp: SplitHostPort_def check_brackets_def)
qed

end
