(* ===== verification/Security.thy ===== *)
theory Security
  imports Http
begin

unbundle bit_operations_syntax

text \<open>
  \<open>internal/infrastructure/security\<close>: the HMAC authenticator (\<open>auth.go\<close>) and the generation
  of job IDs and tokens (\<open>jobid.go\<close>). HMAC-SHA256 itself is an argument, \<open>mac secret body\<close>;
  the constant-time comparison of \<open>crypto/subtle\<close> is modelled as it is written, with bytes as
  8-bit words. The interface \<open>authenticator\<close> is what the webhook handlers rely on.
\<close>

section \<open>Constant-time comparison\<close>

definition bytes_of :: "string \<Rightarrow> byte list" where
  "bytes_of s = map of_char s"

fun xor_acc :: "byte list \<Rightarrow> byte list \<Rightarrow> byte \<Rightarrow> byte" where
  "xor_acc (x # xs) (y # ys) v = xor_acc xs ys (v OR (x XOR y))"
| "xor_acc _ _ v = v"

definition ConstantTimeByteEq :: "byte \<Rightarrow> byte \<Rightarrow> 32 word" where
  "ConstantTimeByteEq x y = drop_bit 31 ((ucast (x XOR y) :: 32 word) - 1)"

definition ConstantTimeCompare :: "byte list \<Rightarrow> byte list \<Rightarrow> 32 word" where
  "ConstantTimeCompare x y =
     (if length x \<noteq> length y then 0 else ConstantTimeByteEq (xor_acc x y 0) 0)"

definition hmac_Equal :: "byte list \<Rightarrow> byte list \<Rightarrow> bool" where
  "hmac_Equal a b \<longleftrightarrow> ConstantTimeCompare a b = 1"

lemma xor_acc_zero:
  "length x = length y \<Longrightarrow> xor_acc x y v = 0 \<longleftrightarrow> v = 0 \<and> x = y"
proof (induction x y v rule: xor_acc.induct)
  case (1 x xs y ys v)
  have "v OR (x XOR y) = 0 \<longleftrightarrow> v = 0 \<and> x = y"
    by (metis bit.xor_self or_eq_0_iff xor_self_eq xor.assoc xor.left_neutral xor.right_neutral)
  with 1 show ?case by auto
qed auto

lemma ConstantTimeByteEq_zero: "ConstantTimeByteEq v 0 = 1 \<longleftrightarrow> v = 0"
proof (cases "v = 0")
  case True
  have "drop_bit 31 (-1 :: 32 word) = 1" by simp
  then show ?thesis by (simp add: ConstantTimeByteEq_def True)
next
  case False
  let ?w = "ucast v :: 32 word"
  have v: "unat v < 256" using unsigned_less [of v, where ?'a = nat] by simp
  then have "unat ?w = unat v" by (simp add: unsigned_ucast_eq take_bit_nat_eq_self)
  moreover note v
  moreover have "0 < unat v" using False by (simp add: unat_gt_0)
  moreover have "?w \<noteq> 0" using \<open>unat ?w = unat v\<close> \<open>0 < unat v\<close> by auto
  ultimately have lt: "unat (?w - 1) < 256" by (simp add: unat_minus_one)
  then have "unat (drop_bit 31 (?w - 1)) = 0"
    by (simp add: unat_div drop_bit_eq_div)
  then show ?thesis using False by (auto simp: ConstantTimeByteEq_def)
qed

lemma hmac_Equal_iff: "hmac_Equal a b \<longleftrightarrow> a = b"
  by (auto simp: hmac_Equal_def ConstantTimeCompare_def ConstantTimeByteEq_zero xor_acc_zero)

lemma of_char_byte_inj: "(of_char c :: byte) = of_char d \<longleftrightarrow> c = d"
proof
  assume "(of_char c :: byte) = of_char d"
  then have "unat (of_nat (of_char c) :: byte) = unat (of_nat (of_char d) :: byte)"
    by (simp add: of_nat_of_char)
  then have "(of_char c :: nat) mod 256 = of_char d mod 256"
    by (simp add: unat_of_nat)
  then show "c = d" by simp
qed simp

lemma bytes_of_inj: "bytes_of s = bytes_of t \<longleftrightarrow> s = t"
  unfolding bytes_of_def by (subst inj_map_eq_map) (simp_all add: inj_def of_char_byte_inj)

section \<open>The authenticator (auth.go)\<close>

datatype auth_error = SecretEmpty | SecretTooShort

text \<open>An authenticator is its secret.\<close>

definition NewHMACAuthenticator :: "string \<Rightarrow> auth_error + string" where
  "NewHMACAuthenticator secret =
     (if secret = [] then Inl SecretEmpty
      else if length secret < 32 then Inl SecretTooShort
      else Inr secret)"

definition signature_header :: string where
  "signature_header = ''X-Cloud-Update-Signature''"

definition expected_signature :: "(string \<Rightarrow> string \<Rightarrow> byte list) \<Rightarrow> string \<Rightarrow> string \<Rightarrow> string" where
  "expected_signature mac secret body = ''sha256='' @ EncodeToString (mac secret body)"

definition ValidateSignature :: "(string \<Rightarrow> string \<Rightarrow> byte list) \<Rightarrow> string \<Rightarrow> http_request \<Rightarrow>
    string \<Rightarrow> bool" where
  "ValidateSignature mac secret r body =
     (let signature = r_Header r signature_header
      in if signature = [] then False
         else hmac_Equal (bytes_of signature) (bytes_of (expected_signature mac secret body)))"

text \<open>
  The interface \<open>Authenticator\<close> as the handlers use it: a request is accepted exactly when it
  carries the one signature its body has.
\<close>

locale authenticator =
  fixes validate :: "http_request \<Rightarrow> string \<Rightarrow> bool"
    and sign :: "string \<Rightarrow> string"
  assumes validate_iff: "validate r b \<longleftrightarrow> r_Header r signature_header = sign b"
begin

lemma same_signature: "validate r b \<Longrightarrow> validate r b' \<Longrightarrow> sign b = sign b'"
  by (simp add: validate_iff)

lemma forged_rejected: "r_Header r signature_header \<noteq> sign b \<Longrightarrow> \<not> validate r b"
  by (simp add: validate_iff)

end

lemma ValidateSignature_iff:
  "ValidateSignature mac secret r body \<longleftrightarrow>
     r_Header r signature_header = expected_signature mac secret body"
  by (auto simp: ValidateSignature_def Let_def hmac_Equal_iff bytes_of_inj expected_signature_def)

interpretation hmac: authenticator "ValidateSignature mac secret" "expected_signature mac secret"
  by unfold_locales (rule ValidateSignature_iff)

lemma expected_signature_inj:
  "expected_signature mac secret b = expected_signature mac secret b' \<longleftrightarrow>
     mac secret b = mac secret b'"
  by (simp add: expected_signature_def EncodeToString_inj)

section \<open>Job IDs and tokens (jobid.go)\<close>

text \<open>
  What \<open>rand.Read\<close> put into the buffer, or \<open>None\<close> when it failed, is an argument. The two
  clock readings are those of the fallback ID.
\<close>

definition unix_nano :: "time \<Rightarrow> int" where
  "unix_nano t = t - 62135596800 * second"

definition GenerateJobID :: "byte list option \<Rightarrow> time \<Rightarrow> time \<Rightarrow> string \<times> string go_error" where
  "GenerateJobID rnd now1 now2 =
     (case rnd of
        None \<Rightarrow>
          (''job_'' @ fmt_d (unix_nano now1) @ ''_'' @ fmt_x (unix_seconds now2), None)
      | Some b \<Rightarrow> (''job_'' @ EncodeToString b, None))"

datatype token_error = NegativeLength | RandError string

text \<open>\<open>rnd n\<close> is the outcome of filling a buffer of \<open>n\<close> bytes.\<close>

definition GenerateSecureToken :: "int \<Rightarrow> (nat \<Rightarrow> string + byte list) \<Rightarrow>
    string \<times> token_error go_error" where
  "GenerateSecureToken len rnd =
     (if len < 0 then ([], Some NegativeLength)
      else if len = 0 then ([], None)
      else (case rnd (nat len) of
              Inl e \<Rightarrow> ([], Some (RandError e))
            | Inr b \<Rightarrow> (EncodeToString b, None)))"

lemma underscore_not_digit: "CHR ''_'' \<notin> set hextable"
  by (simp add: hextable_def)

lemma fmt_int_chars: "2 \<le> b \<Longrightarrow> b \<le> 16 \<Longrightarrow> set (fmt_int b i) \<subseteq> insert CHR ''-'' (set hextable)"
  using nat_in_base_digits [of b] by (auto simp: fmt_int_def)

lemma fmt_int_inj:
  assumes "2 \<le> b" and "b \<le> 16" and eq: "fmt_int b i = fmt_int b j"
  shows "i = j"
proof -
  have minus: "nat_in_base b n \<noteq> CHR ''-'' # s" for n s
  proof
    assume "nat_in_base b n = CHR ''-'' # s"
    then have "CHR ''-'' \<in> set (nat_in_base b n)" by simp
    then show False using nat_in_base_digits [OF assms(1,2), of n] by (auto simp: hextable_def)
  qed
  show ?thesis
    using eq minus minus [symmetric]
    by (auto simp: fmt_int_def nat_in_base_inj [OF assms(1,2)] split: if_splits)
qed

lemma fallback_id_underscore: "CHR ''_'' \<in> set (drop 4 (fst (GenerateJobID None t1 t2)))"
  by (simp add: GenerateJobID_def)

lemma random_id_no_underscore: "CHR ''_'' \<notin> set (drop 4 (fst (GenerateJobID (Some b) t1 t2)))"
  using EncodeToString_digits [of b] underscore_not_digit by (auto simp: GenerateJobID_def)

lemma append_sep_inj:
  "x \<notin> set as \<Longrightarrow> x \<notin> set bs \<Longrightarrow> as @ x # as' = bs @ x # bs' \<Longrightarrow> as = bs \<and> as' = bs'"
  by (induction as arbitrary: bs) (auto simp: Cons_eq_append_conv)

lemma fallback_id_inj:
  assumes "fst (GenerateJobID None t1 t2) = fst (GenerateJobID None u1 u2)"
  shows "t1 = u1"
proof -
  have no: "CHR ''_'' \<notin> set (fmt_d n)" for n
    using fmt_int_chars [of 10 n] by (auto simp: hextable_def)
  have "fmt_d (unix_nano t1) = fmt_d (unix_nano u1)"
    using assms append_sep_inj [OF no no] by (auto simp: GenerateJobID_def)
  then show ?thesis
    using fmt_int_inj [of 10] by (force simp: unix_nano_def)
qed

section \<open>Properties\<close>

text \<open>
  C7: a request is authenticated exactly when its signature header is, byte for byte,
  \<open>sha256=\<close> followed by the hex form of the MAC of the body; the length check and the
  constant-time comparison over bytes decide equality and nothing else. In particular a
  request without the header is refused.
\<close>

theorem signature_exact:
  "ValidateSignature mac secret r body \<longleftrightarrow>
     r_Header r ''X-Cloud-Update-Signature'' = ''sha256='' @ EncodeToString (mac secret body)"
  by (simp add: hmac.validate_iff signature_header_def expected_signature_def)

text \<open>
  A signature cannot be moved to another body. If the same request header is accepted for
  two bodies, the MAC has the same value on both, so a forgery is a collision of the MAC.
\<close>

theorem signature_binds_body:
  assumes "ValidateSignature mac secret r body" and "ValidateSignature mac secret r body'"
  shows "mac secret body = mac secret body'"
  using hmac.same_signature [OF assms] by (simp add: expected_signature_inj)

definition signed_request :: http_request where
  "signed_request = \<lparr>r_Method = ''POST'',
     r_Header = (\<lambda>k. if k = ''X-Cloud-Update-Signature'' then ''sha256=0a2b'' else []),
     r_Query = (\<lambda>_. []), r_Body = ''x'', r_BodyFails = False, r_RemoteAddr = ''10.0.0.1:80''\<rparr>"

theorem signature_binds_body_witness:
  "(\<lambda>s b. [10, 43 :: byte]) ''k'' ''x'' = (\<lambda>s b. [10, 43 :: byte]) ''k'' ''y''"
  by (rule signature_binds_body [where r = signed_request])
    (simp_all add: signature_exact signed_request_def hex_byte_def hex_digit_def hextable_def)

text \<open>
  Generating a job ID never fails, with or without randomness, and IDs are unique where
  their source is: two IDs are equal only if both come from the same random bytes, or both
  are fallback IDs made at the same nanosecond.
\<close>

theorem job_ids_unique:
  "snd (GenerateJobID rnd t1 t2) = None \<and>
   (fst (GenerateJobID rnd t1 t2) = fst (GenerateJobID rnd' u1 u2) \<longrightarrow>
      rnd = rnd' \<and> (rnd = None \<longrightarrow> t1 = u1))"
proof (intro conjI impI)
  show "snd (GenerateJobID rnd t1 t2) = None" by (simp add: GenerateJobID_def split: option.splits)
  assume eq: "fst (GenerateJobID rnd t1 t2) = fst (GenerateJobID rnd' u1 u2)"
  then show "rnd = rnd'"
    using fallback_id_underscore random_id_no_underscore
    by (cases rnd; cases rnd') (metis, metis, metis, auto simp: GenerateJobID_def EncodeToString_inj)
  show "t1 = u1" if "rnd = None"
    using eq that \<open>rnd = rnd'\<close> by (auto intro: fallback_id_inj)
qed

theorem job_ids_unique_witness:
  "fst (GenerateJobID (Some [1, 2]) 0 0) = fst (GenerateJobID (Some [1, 2]) 5 5) \<and>
   fst (GenerateJobID (Some [1, 2]) 0 0) \<noteq> fst (GenerateJobID (Some [1, 3]) 0 0)"
  using job_ids_unique [of "Some [1, 2]" 0 0 "Some [1, 3]" 0 0]
  by (simp add: GenerateJobID_def)

text \<open>
  A secure token of the requested length is twice as many hex digits, an empty token is
  returned for length 0, and a negative length is an error before any randomness is read.
\<close>

theorem secure_token_length:
  assumes "\<And>n bs. rnd n = Inr bs \<Longrightarrow> length bs = n"
  shows "(len < 0 \<longrightarrow> GenerateSecureToken len rnd = ([], Some NegativeLength)) \<and>
    (\<forall>tok. GenerateSecureToken len rnd = (tok, None) \<longrightarrow>
       int (length tok) = 2 * len \<and> set tok \<subseteq> set hextable)"
  using assms EncodeToString_digits
  by (auto simp: GenerateSecureToken_def split: if_splits sum.splits)

theorem secure_token_length_witness:
  "snd (GenerateSecureToken 3 (\<lambda>n. Inr (replicate n 255))) = None \<and>
   int (length (fst (GenerateSecureToken 3 (\<lambda>n. Inr (replicate n 255))))) = 2 * 3"
proof -
  let ?r = "\<lambda>n. Inr (replicate n (255 :: byte)) :: string + byte list"
  have ok: "snd (GenerateSecureToken 3 ?r) = None" by (simp add: GenerateSecureToken_def)
  have "\<forall>tok. GenerateSecureToken 3 ?r = (tok, None) \<longrightarrow> int (length tok) = 2 * 3"
    using secure_token_length [of ?r 3] by auto
  with ok show ?thesis by (metis prod.collapse)
qed

end
