(* ===== verification/Action_Service.thy ===== *)
theory Action_Service
  imports Executor Entity Security
begin

text \<open>
  \<open>internal/domain/service/action_service.go\<close>: the dispatch of an action on the executor.
  \<open>ProcessAction\<close> returns nothing in the source: what it leaves behind are the operations the
  executor performed (the trace) and the goroutines it started (\<open>go_task\<close>).

  Lemmas: what a dispatch may do, proved once for every executor in the locale \<open>executor\<close>, and
  the properties for the two executors that implement it.
\<close>

section \<open>The service\<close>

text \<open>The package variable for the delay starts as \<open>rebootDelay\<close>; it is read and set under a lock.\<close>

definition rebootDelay :: duration where "rebootDelay = 10 * second"

definition getRebootDelay :: "duration \<Rightarrow> duration" where
  "getRebootDelay var = var"

definition setRebootDelay :: "duration \<Rightarrow> duration \<Rightarrow> duration" where
  "setRebootDelay d var = d"

lemma reboot_delay_set: "getRebootDelay (setRebootDelay d var) = d"
  by (simp add: getRebootDelay_def setRebootDelay_def)

text \<open>A goroutine that sleeps for the reboot delay it reads when it starts, then reboots.\<close>

datatype go_task = SleepThenReboot string

definition executeCloudInit :: "executor_iface \<Rightarrow> string \<Rightarrow> go_task list sys" where
  "executeCloudInit x jobID = do { err \<leftarrow> if_RunCloudInit x; return [] }"

definition executeReboot :: "executor_iface \<Rightarrow> string \<Rightarrow> go_task list sys" where
  "executeReboot x jobID = return [SleepThenReboot jobID]"

definition executeUpdate :: "executor_iface \<Rightarrow> string \<Rightarrow> go_task list sys" where
  "executeUpdate x jobID =
     do { distro \<leftarrow> if_DetectDistribution x; err \<leftarrow> if_UpdateSystem x; return [] }"

definition ProcessAction :: "executor_iface \<Rightarrow> webhook_request \<Rightarrow> string \<Rightarrow> go_task list sys" where
  "ProcessAction x req jobID =
     (if req_Action req = ActionReinit then executeCloudInit x jobID
      else if req_Action req = ActionReboot then executeReboot x jobID
      else if req_Action req = ActionUpdate then executeUpdate x jobID
      else return [])"

text \<open>
  Go's interface \<open>ActionService\<close>: \<open>Inl v\<close> is a panic with value \<open>v\<close> (as text). The service of
  this file does not panic.
\<close>

type_synonym action_service = "webhook_request \<Rightarrow> string \<Rightarrow> (string + go_task list) sys"

definition NewActionService :: "executor_iface \<Rightarrow> action_service" where
  "NewActionService x req jobID = do { ts \<leftarrow> ProcessAction x req jobID; return (Inr ts) }"

text \<open>The body of the goroutine, started at \<open>now\<close> with the delay \<open>d\<close>: when it reboots, and how.\<close>

fun run_task :: "executor_iface \<Rightarrow> duration \<Rightarrow> time \<Rightarrow> go_task \<Rightarrow> time \<times> exec_result" where
  "run_task x d now (SleepThenReboot jobID) = (now + max 0 d, if_Reboot x)"

text \<open>The deprecated \<open>GenerateJobID\<close> of this package, with its two clock readings.\<close>

definition service_GenerateJobID :: "time \<Rightarrow> time \<Rightarrow> string" where
  "service_GenerateJobID now1 now2 =
     ''job_'' @ fmt_d (unix_nano now1) @ ''_'' @ fmt_d (unix_seconds now2 smod 1000)"

section \<open>What a dispatch may do\<close>

lemma ProcessAction_tasks:
  "fst (run_state (ProcessAction x req jobID) tr) =
     (if req_Action req = ActionReboot then [SleepThenReboot jobID] else [])"
  by (simp add: ProcessAction_def executeCloudInit_def executeReboot_def executeUpdate_def
      action_defs split_beta)

context executor
begin

lemma process_safe:
  "ok e \<Longrightarrow> only_ops (\<lambda>p. \<not> takes_down p) (ProcessAction (iface e) req jobID)"
  unfolding ProcessAction_def executeCloudInit_def executeReboot_def executeUpdate_def
  using cloud_init_safe update_safe detect_safe by auto

lemma task_takes_down: "ok e \<Longrightarrow> only_ops takes_down (snd (run_task (iface e) d now t))"
  using reboot_ops by (cases t) simp

end

section \<open>Properties\<close>

text \<open>
  An action takes the machine down only if it is a reboot, and only later. Whatever the
  request says, processing it with either executor runs no \<open>reboot\<close> or \<open>shutdown\<close> command;
  a reboot task is started exactly for the action \<open>reboot\<close>, and it runs nothing else.
\<close>

theorem only_reboot_takes_down:
  assumes "priv_ok (privilegeCmd e)" and "priv_ok (sec_privilegeCmd e')"
    and "x \<in> {default_iface g os e, secure_iface g os e'}"
  shows "only_ops (\<lambda>p. \<not> takes_down p) (ProcessAction x req jobID) \<and>
    (fst (run_state (ProcessAction x req jobID) tr) \<noteq> [] \<longleftrightarrow> req_Action req = ''reboot'') \<and>
    only_ops takes_down (snd (run_task x d now t))"
  using assms default_exec.process_safe [of e] default_exec.task_takes_down [of e]
    secure_exec.process_safe [of e'] secure_exec.task_takes_down [of e']
  by (auto simp: ProcessAction_tasks ActionReboot_def)

theorem only_reboot_takes_down_witness:
  "fst (run_state (ProcessAction
      (secure_iface \<lparr>uni_lower = id, uni_trim = id, uni_quote = id, parse_ip = (\<lambda>s. True)\<rparr> debian_env
        \<lparr>sec_privilegeCmd = ''sudo'', sec_timeout = minute\<rparr>)
      \<lparr>req_Action = ''reboot'', req_Module = [], req_Config = [], req_Timestamp = 0\<rparr> ''j'') []) \<noteq> []"
  using only_reboot_takes_down [of "\<lparr>privilegeCmd = ''doas''\<rparr>"
      "\<lparr>sec_privilegeCmd = ''sudo'', sec_timeout = minute\<rparr>"
      "secure_iface \<lparr>uni_lower = id, uni_trim = id, uni_quote = id, parse_ip = (\<lambda>s. True)\<rparr> debian_env
        \<lparr>sec_privilegeCmd = ''sudo'', sec_timeout = minute\<rparr>"
      "\<lparr>uni_lower = id, uni_trim = id, uni_quote = id, parse_ip = (\<lambda>s. True)\<rparr>" debian_env
      "\<lparr>req_Action = ''reboot'', req_Module = [], req_Config = [], req_Timestamp = 0\<rparr>" "''j''" "[]"]
  by (simp add: priv_ok_def)

text \<open>
  The failure of an action is not visible to the caller. What \<open>ProcessAction\<close> leaves to
  its caller is the same for every executor and whatever its commands answered, so a failed
  update cannot be told from a successful one.
\<close>

theorem action_failure_invisible:
  "fst (run_state (ProcessAction x req jobID) tr) = fst (run_state (ProcessAction y req jobID) tr')"
  by (simp add: ProcessAction_tasks)

end
