(* ===== verification/Job_Store.thy ===== *)
theory Job_Store
  imports Entity
begin

text \<open>
  The job store of \<open>internal/infrastructure/store/job_store.go\<close>. The store and the handlers
  share jobs by pointer, so jobs live in a heap (\<open>heap\<close>, addressed by \<open>job_ref\<close>) and the
  store's fields hold references. Each method runs under the store's lock and is one
  function of the state.

  Lemmas: the well-formedness invariant \<open>store_inv\<close> (at most one job of the whole heap is
  running, and it is the current one; the history is bounded and holds finished jobs only)
  and its preservation by every method; the abstract specification \<open>job_log\<close> (one slot and
  a bounded log) that the store refines; the interface \<open>single_slot\<close> the handlers rely on.
\<close>

section \<open>State and methods\<close>

type_synonym job_ref = nat

record job_store =
  heap :: "job_ref \<Rightarrow> job"
  next_ref :: job_ref
  currentJob :: "job_ref option"
  history :: "job_ref list"
  maxHistory :: nat

text \<open>An empty heap: what an unallocated address holds does not matter.\<close>

definition zero_job :: job where
  "zero_job = \<lparr>job_ID = [], job_Action = [], job_Status = JobStatusPending, job_StartTime = 0,
     job_EndTime = None, job_Error = None\<rparr>"

definition NewJobStore :: job_store where
  "NewJobStore = \<lparr>heap = (\<lambda>_. zero_job), next_ref = 0, currentJob = None, history = [],
     maxHistory = 100\<rparr>"

text \<open>\<open>entity.NewJob\<close> returns a pointer to a new heap object.\<close>

definition alloc_job :: "job \<Rightarrow> job_store \<Rightarrow> job_ref \<times> job_store" where
  "alloc_job j s =
     (next_ref s, s\<lparr>heap := (heap s)(next_ref s := j), next_ref := Suc (next_ref s)\<rparr>)"

definition upd_job :: "job_ref \<Rightarrow> (job \<Rightarrow> job) \<Rightarrow> job_store \<Rightarrow> job_store" where
  "upd_job r f s = s\<lparr>heap := (heap s)(r := f (heap s r))\<rparr>"

definition GetCurrentJob :: "job_store \<Rightarrow> job_ref option" where
  "GetCurrentJob s = currentJob s"

text \<open>The scan of \<open>GetJob\<close>, from the oldest entry of the history to the newest.\<close>

fun scan_history :: "(job_ref \<Rightarrow> job) \<Rightarrow> string \<Rightarrow> job_ref list \<Rightarrow> job_ref option" where
  "scan_history h i [] = None"
| "scan_history h i (r # rs) = (if job_ID (h r) = i then Some r else scan_history h i rs)"

definition is_current :: "job_store \<Rightarrow> string \<Rightarrow> bool" where
  "is_current s i = (case currentJob s of None \<Rightarrow> False | Some r \<Rightarrow> job_ID (heap s r) = i)"

definition GetJob :: "string \<Rightarrow> job_store \<Rightarrow> job_ref option" where
  "GetJob i s = (if is_current s i then currentJob s else scan_history (heap s) i (history s))"

text \<open>
  The loop of \<open>GetJobByID\<close>: \<open>scan_down h i rs n\<close> looks at the indices \<open>n - 1\<close> down to 0.
\<close>

fun scan_down :: "(job_ref \<Rightarrow> job) \<Rightarrow> string \<Rightarrow> job_ref list \<Rightarrow> nat \<Rightarrow> job_ref option" where
  "scan_down h i rs 0 = None"
| "scan_down h i rs (Suc n) =
     (if job_ID (h (rs ! n)) = i then Some (rs ! n) else scan_down h i rs n)"

definition GetJobByID :: "string \<Rightarrow> job_store \<Rightarrow> job_ref option" where
  "GetJobByID i s =
     (if is_current s i then currentJob s
      else scan_down (heap s) i (history s) (length (history s)))"

definition current_running :: "job_store \<Rightarrow> bool" where
  "current_running s = (case currentJob s of None \<Rightarrow> False | Some r \<Rightarrow> IsRunning (heap s r))"

definition TryStartJob :: "job_ref \<Rightarrow> job_store \<Rightarrow> bool \<times> job_store" where
  "TryStartJob r s =
     (if current_running s then (False, s)
      else (True, (upd_job r SetRunning s)\<lparr>currentJob := Some r\<rparr>))"

definition addToHistory :: "job_ref \<Rightarrow> job_store \<Rightarrow> job_store" where
  "addToHistory r s =
     (let h = history s @ [r]
      in s\<lparr>history := (if length h > maxHistory s then drop (length h - maxHistory s) h else h)\<rparr>)"

definition CompleteCurrentJob :: "time \<Rightarrow> job_store \<Rightarrow> job_store" where
  "CompleteCurrentJob now s =
     (case currentJob s of
        None \<Rightarrow> s
      | Some r \<Rightarrow> (addToHistory r (upd_job r (SetCompleted now) s))\<lparr>currentJob := None\<rparr>)"

definition FailCurrentJob :: "string go_error \<Rightarrow> time \<Rightarrow> job_store \<Rightarrow> job_store" where
  "FailCurrentJob err now s =
     (case currentJob s of
        None \<Rightarrow> s
      | Some r \<Rightarrow> (addToHistory r (upd_job r (SetFailed err now) s))\<lparr>currentJob := None\<rparr>)"

text \<open>The loop of \<open>CleanupOldJobs\<close>, with \<open>newHistory\<close> as its accumulator.\<close>

fun cleanup_loop :: "(job_ref \<Rightarrow> job) \<Rightarrow> time \<Rightarrow> job_ref list \<Rightarrow> job_ref list \<Rightarrow> job_ref list" where
  "cleanup_loop h cutoff [] acc = acc"
| "cleanup_loop h cutoff (r # rs) acc =
     cleanup_loop h cutoff rs (if cutoff < job_StartTime (h r) then acc @ [r] else acc)"

definition CleanupOldJobs :: "duration \<Rightarrow> time \<Rightarrow> job_store \<Rightarrow> job_store" where
  "CleanupOldJobs maxAge now s =
     s\<lparr>history := cleanup_loop (heap s) (now - maxAge) (history s) []\<rparr>"

lemmas store_op_defs [model_defs] =
  NewJobStore_def alloc_job_def upd_job_def GetCurrentJob_def TryStartJob_def addToHistory_def
  CompleteCurrentJob_def FailCurrentJob_def CleanupOldJobs_def current_running_def

section \<open>The loops\<close>

lemma scan_history_find: "scan_history h i rs = List.find (\<lambda>r. job_ID (h r) = i) rs"
  by (induction rs) auto

lemma scan_down_find:
  "n \<le> length rs \<Longrightarrow>
     scan_down h i rs n = List.find (\<lambda>r. job_ID (h r) = i) (rev (take n rs))"
  by (induction n) (auto simp: take_Suc_conv_app_nth)

lemma GetJobByID_find:
  "GetJobByID i s =
     (if is_current s i then currentJob s
      else List.find (\<lambda>r. job_ID (heap s r) = i) (rev (history s)))"
  by (simp add: GetJobByID_def scan_down_find)

lemma cleanup_loop_filter:
  "cleanup_loop h cutoff rs acc = acc @ filter (\<lambda>r. cutoff < job_StartTime (h r)) rs"
  by (induction rs arbitrary: acc) auto

lemma find_map_distinct:
  "distinct (map f rs) \<Longrightarrow>
     List.find (\<lambda>r. f r = i) rs = Some r \<longleftrightarrow> r \<in> set rs \<and> f r = i"
  by (induction rs) (auto simp: rev_image_eqI)

definition last_n :: "nat \<Rightarrow> 'a list \<Rightarrow> 'a list" where
  "last_n n xs = drop (length xs - n) xs"

lemma last_n_simps [simp]:
  "length (last_n n xs) = min n (length xs)"
  "length xs \<le> n \<Longrightarrow> last_n n xs = xs"
  "map f (last_n n xs) = last_n n (map f xs)"
  "distinct xs \<Longrightarrow> distinct (last_n n xs)"
  by (auto simp: last_n_def drop_map)

lemma set_last_n: "set (last_n n xs) \<subseteq> set xs"
  by (auto simp: last_n_def dest: in_set_dropD)

lemma last_n_Suc: "0 < n \<Longrightarrow> last_n n (xs @ [x]) = last_n (n - 1) xs @ [x]"
  by (auto simp: last_n_def)

lemma history_addToHistory [simp]:
  "history (addToHistory r s) = last_n (maxHistory s) (history s @ [r])"
  by (simp add: addToHistory_def last_n_def Let_def)

lemma addToHistory_frame [simp]:
  "heap (addToHistory r s) = heap s" "next_ref (addToHistory r s) = next_ref s"
  "currentJob (addToHistory r s) = currentJob s" "maxHistory (addToHistory r s) = maxHistory s"
  by (simp_all add: addToHistory_def Let_def)

lemma upd_job_frame [simp]:
  "next_ref (upd_job r f s) = next_ref s" "currentJob (upd_job r f s) = currentJob s"
  "history (upd_job r f s) = history s" "maxHistory (upd_job r f s) = maxHistory s"
  "heap (upd_job r f s) = (heap s)(r := f (heap s r))"
  by (simp_all add: upd_job_def)

section \<open>The invariant\<close>

text \<open>
  Every reference in the store is allocated, every allocated job is well formed, the only
  running job of the heap is the current one, and the history is a bounded list of distinct
  finished jobs. A job handed to \<open>TryStartJob\<close> is one that was just created (\<open>fresh_job\<close>).
\<close>

definition store_inv :: "job_store \<Rightarrow> bool" where
  "store_inv s \<longleftrightarrow>
     (\<forall>r < next_ref s. job_wf (heap s r)) \<and>
     (\<forall>r < next_ref s. IsRunning (heap s r) \<longrightarrow> currentJob s = Some r) \<and>
     (\<forall>r. currentJob s = Some r \<longrightarrow> r < next_ref s \<and> IsRunning (heap s r)) \<and>
     (\<forall>r \<in> set (history s). r < next_ref s \<and> job_final (heap s r)) \<and>
     distinct (history s) \<and> length (history s) \<le> maxHistory s"

definition fresh_job :: "job_store \<Rightarrow> job_ref \<Rightarrow> bool" where
  "fresh_job s r \<longleftrightarrow> r < next_ref s \<and> job_Status (heap s r) = JobStatusPending"

lemma store_invI:
  assumes "\<And>r. r < next_ref s \<Longrightarrow> job_wf (heap s r)"
    and "\<And>r. r < next_ref s \<Longrightarrow> IsRunning (heap s r) \<Longrightarrow> currentJob s = Some r"
    and "\<And>r. currentJob s = Some r \<Longrightarrow> r < next_ref s \<and> IsRunning (heap s r)"
    and "\<And>r. r \<in> set (history s) \<Longrightarrow> r < next_ref s \<and> job_final (heap s r)"
    and "distinct (history s)" and "length (history s) \<le> maxHistory s"
  shows "store_inv s"
  unfolding store_inv_def using assms by blast

lemma store_invD:
  assumes "store_inv s"
  shows "r < next_ref s \<Longrightarrow> job_wf (heap s r)"
    and "r < next_ref s \<Longrightarrow> IsRunning (heap s r) \<Longrightarrow> currentJob s = Some r"
    and "currentJob s = Some r \<Longrightarrow> r < next_ref s"
    and "currentJob s = Some r \<Longrightarrow> IsRunning (heap s r)"
    and "r \<in> set (history s) \<Longrightarrow> r < next_ref s"
    and "r \<in> set (history s) \<Longrightarrow> job_final (heap s r)"
    and "distinct (history s)" and "length (history s) \<le> maxHistory s"
  using assms unfolding store_inv_def by blast+

lemma current_running_iff: "store_inv s \<Longrightarrow> current_running s \<longleftrightarrow> currentJob s \<noteq> None"
  using store_invD(4) [of s] by (cases "currentJob s") (simp_all add: current_running_def)

lemma current_not_in_history: "store_inv s \<Longrightarrow> currentJob s = Some r \<Longrightarrow> r \<notin> set (history s)"
  using job_final_not_running store_invD(4,6) by blast

lemma current_not_final: "store_inv s \<Longrightarrow> currentJob s = Some r \<Longrightarrow> \<not> job_final (heap s r)"
  using job_final_not_running store_invD(4) by blast

lemma store_inv_init: "store_inv NewJobStore"
  by (rule store_invI) (simp_all add: NewJobStore_def)

lemma store_inv_alloc:
  assumes inv: "store_inv s"
  shows "store_inv (snd (alloc_job (NewJob i a t) s))"
proof (rule store_invI, goal_cases)
  case (1 r) then show ?case
    using store_invD(1) [OF inv, of r] by (auto simp: alloc_job_def NewJob_wf less_Suc_eq)
next
  case (2 r) then show ?case
    using store_invD(2) [OF inv, of r]
    by (auto simp: alloc_job_def IsRunning_def less_Suc_eq split: if_splits)
next
  case (3 r) then show ?case
    using store_invD(3,4) [OF inv, of r] by (auto simp: alloc_job_def)
next
  case (4 r) then show ?case
    using store_invD(5,6) [OF inv, of r] by (auto simp: alloc_job_def)
next
  case 5 show ?case using store_invD(7) [OF inv] by (simp add: alloc_job_def)
next
  case 6 show ?case using store_invD(8) [OF inv] by (simp add: alloc_job_def)
qed

lemma fresh_alloc:
  "fresh_job (snd (alloc_job (NewJob i a t) s)) (fst (alloc_job (NewJob i a t) s))"
  by (simp add: fresh_job_def alloc_job_def)

lemma fresh_not_final: "fresh_job s r \<Longrightarrow> \<not> job_final (heap s r)"
  by (simp add: fresh_job_def job_final_iff)

lemma fresh_not_current: "store_inv s \<Longrightarrow> fresh_job s r \<Longrightarrow> currentJob s \<noteq> Some r"
  using store_invD(4) [of s r] by (auto simp: fresh_job_def IsRunning_def)

lemma store_inv_try:
  assumes inv: "store_inv s" and fr: "fresh_job s r"
  shows "store_inv (snd (TryStartJob r s))"
proof (cases "current_running s")
  case False
  then have none: "currentJob s = None" by (simp add: current_running_iff [OF inv])
  note D = store_invD [OF inv]
  have wf: "job_wf (SetRunning (heap s r))"
    using D(1) fr fresh_not_final [OF fr] by (auto simp: fresh_job_def intro: SetRunning_wf)
  have nh: "r \<notin> set (history s)"
    using D(6) fresh_not_final [OF fr] by blast
  from False have eq: "snd (TryStartJob r s) = (upd_job r SetRunning s)\<lparr>currentJob := Some r\<rparr>"
    by (simp add: TryStartJob_def)
  show ?thesis unfolding eq
  proof (rule store_invI, goal_cases)
    case (1 q) then show ?case using D(1) [of q] wf by auto
  next
    case (2 q) then show ?case using D(2) [of q] none by (auto split: if_splits)
  next
    case (3 q) then show ?case using fr by (auto simp: fresh_job_def IsRunning_def)
  next
    case (4 q) then show ?case using D(5,6) [of q] nh by auto
  next
    case 5 show ?case using D(7) by simp
  next
    case 6 show ?case using D(8) by simp
  qed
qed (use inv in \<open>simp add: TryStartJob_def\<close>)

text \<open>Completing and failing are the same step with a different final update of the job.\<close>

definition finish_current :: "(job \<Rightarrow> job) \<Rightarrow> job_store \<Rightarrow> job_store" where
  "finish_current f s =
     (case currentJob s of
        None \<Rightarrow> s
      | Some r \<Rightarrow> (addToHistory r (upd_job r f s))\<lparr>currentJob := None\<rparr>)"

lemma complete_finish: "CompleteCurrentJob now = finish_current (SetCompleted now)"
  by (simp add: fun_eq_iff CompleteCurrentJob_def finish_current_def)

lemma fail_finish: "FailCurrentJob e now = finish_current (SetFailed e now)"
  by (simp add: fun_eq_iff FailCurrentJob_def finish_current_def)

lemma finish_current_frame [simp]:
  "next_ref (finish_current f s) = next_ref s" "maxHistory (finish_current f s) = maxHistory s"
  "currentJob (finish_current f s) = None"
  by (simp_all add: finish_current_def split: option.splits)

lemma finish_current_Some:
  assumes "currentJob s = Some r"
  shows "heap (finish_current f s) = (heap s)(r := f (heap s r))"
    and "history (finish_current f s) = last_n (maxHistory s) (history s @ [r])"
  using assms by (simp_all add: finish_current_def)

lemma finish_current_None: "currentJob s = None \<Longrightarrow> finish_current f s = s"
  by (simp add: finish_current_def)

lemma store_inv_finish:
  assumes inv: "store_inv s"
    and wf: "\<And>j. job_wf j \<Longrightarrow> \<not> job_final j \<Longrightarrow> job_wf (f j)" and fin: "\<And>j. job_final (f j)"
  shows "store_inv (finish_current f s)"
proof (cases "currentJob s")
  case None
  then show ?thesis using inv by (simp add: finish_current_None)
next
  case (Some r)
  note D = store_invD [OF inv] and eqs = finish_current_Some [OF Some, of f]
  note sub = set_last_n [of "maxHistory s" "history s @ [r]"]
  show ?thesis
  proof (rule store_invI, goal_cases)
    case (1 q) then show ?case
      using D(1) [of q] wf current_not_final [OF inv Some] by (auto simp: eqs)
  next
    case (2 q) then show ?case
      using D(2) [of q] Some job_final_not_running [OF fin] by (auto simp: eqs split: if_splits)
  next
    case (4 q) then have "q \<in> set (history s) \<or> q = r" using sub by (auto simp: eqs)
    then show ?case using D(3) [OF Some] D(5,6) [of q] fin by (auto simp: eqs)
  next
    case 5 show ?case
      unfolding eqs(2) using D(7) current_not_in_history [OF inv Some] by (intro last_n_simps(4)) simp
  qed (auto simp: eqs)
qed

lemma store_inv_complete: "store_inv s \<Longrightarrow> store_inv (CompleteCurrentJob now s)"
  unfolding complete_finish by (rule store_inv_finish) (auto intro: SetCompleted_wf simp: job_final_iff)

lemma store_inv_fail: "store_inv s \<Longrightarrow> store_inv (FailCurrentJob e now s)"
  unfolding fail_finish by (rule store_inv_finish) (auto intro: SetFailed_wf simp: job_final_iff)

lemma history_CleanupOldJobs:
  "history (CleanupOldJobs age now s) =
     filter (\<lambda>r. now - age < job_StartTime (heap s r)) (history s)"
  by (simp add: CleanupOldJobs_def cleanup_loop_filter)

lemma CleanupOldJobs_frame [simp]:
  "heap (CleanupOldJobs age now s) = heap s" "next_ref (CleanupOldJobs age now s) = next_ref s"
  "currentJob (CleanupOldJobs age now s) = currentJob s"
  "maxHistory (CleanupOldJobs age now s) = maxHistory s"
  by (simp_all add: CleanupOldJobs_def)

lemma store_inv_cleanup:
  assumes inv: "store_inv s" shows "store_inv (CleanupOldJobs age now s)"
proof (rule store_invI, goal_cases)
  case (1 r) then show ?case using store_invD(1) [OF inv, of r] by simp
next
  case (2 r) then show ?case using store_invD(2) [OF inv, of r] by simp
next
  case (3 r) then show ?case using store_invD(3,4) [OF inv, of r] by simp
next
  case (4 r) then show ?case
    using store_invD(5,6) [OF inv, of r] by (simp add: history_CleanupOldJobs)
next
  case 5 show ?case using store_invD(7) [OF inv] by (simp add: history_CleanupOldJobs)
next
  case 6 show ?case
    using le_trans [OF length_filter_le store_invD(8) [OF inv]] by (simp add: history_CleanupOldJobs)
qed

lemmas store_inv_intros [intro] = store_inv_alloc store_inv_try store_inv_complete
  store_inv_fail store_inv_cleanup

section \<open>The interface: one slot\<close>

text \<open>
  What the handlers rely on: an attempt succeeds exactly when nothing is active, a failed
  attempt changes nothing, and finishing frees the slot.
\<close>

fun attempts :: "('r \<Rightarrow> 's \<Rightarrow> bool \<times> 's) \<Rightarrow> 'r list \<Rightarrow> 's \<Rightarrow> bool list \<times> 's" where
  "attempts try [] s = ([], s)"
| "attempts try (r # rs) s =
     (case try r s of (b, t) \<Rightarrow> case attempts try rs t of (bs, u) \<Rightarrow> (b # bs, u))"

locale single_slot =
  fixes try_start :: "'r \<Rightarrow> 's \<Rightarrow> bool \<times> 's"
    and finish :: "'s \<Rightarrow> 's"
    and active :: "'s \<Rightarrow> 'r option"
    and usable :: "'s \<Rightarrow> 'r \<Rightarrow> bool"
    and inv :: "'s \<Rightarrow> bool"
  assumes try_result: "inv s \<Longrightarrow> fst (try_start r s) \<longleftrightarrow> active s = None"
    and try_busy: "inv s \<Longrightarrow> active s \<noteq> None \<Longrightarrow> snd (try_start r s) = s"
    and try_idle: "inv s \<Longrightarrow> usable s r \<Longrightarrow> active s = None \<Longrightarrow>
      active (snd (try_start r s)) = Some r"
    and finish_active: "inv s \<Longrightarrow> active (finish s) = None"
    and inv_try: "inv s \<Longrightarrow> usable s r \<Longrightarrow> inv (snd (try_start r s))"
    and inv_finish: "inv s \<Longrightarrow> inv (finish s)"
begin

lemma try_excludes:
  "inv s \<Longrightarrow> usable s r \<Longrightarrow> fst (try_start r s) \<Longrightarrow>
     try_start q (snd (try_start r s)) = (False, snd (try_start r s))"
  using try_result [of s r] try_idle [of s r] inv_try [of s r]
    try_result [of "snd (try_start r s)" q] try_busy [of "snd (try_start r s)" q]
  by (simp add: prod_eq_iff)

lemma finish_reopens: "inv s \<Longrightarrow> fst (try_start r (finish s))"
  by (simp add: try_result inv_finish finish_active)

lemma attempts_busy:
  "inv s \<Longrightarrow> active s \<noteq> None \<Longrightarrow> attempts try_start rs s = (replicate (length rs) False, s)"
proof (induction rs)
  case (Cons r rs)
  then have "try_start r s = (False, s)"
    using try_result [of s r] try_busy [of s r] by (simp add: prod_eq_iff)
  with Cons show ?case by simp
qed simp

lemma attempts_idle:
  assumes "inv s" and "usable s r" and "active s = None"
  shows "attempts try_start (r # rs) s =
    (True # replicate (length rs) False, snd (try_start r s))"
proof -
  have "try_start r s = (True, snd (try_start r s))"
    using try_result [OF assms(1), of r] assms(3) by (simp add: prod_eq_iff)
  moreover have "attempts try_start rs (snd (try_start r s)) =
      (replicate (length rs) False, snd (try_start r s))"
    by (rule attempts_busy) (simp_all add: inv_try try_idle assms)
  ultimately show ?thesis by (metis (no_types, lifting) attempts.simps(2) case_prod_conv)
qed

end

lemma TryStartJob_inv:
  "store_inv s \<Longrightarrow> TryStartJob r s =
     (if currentJob s = None then (True, (upd_job r SetRunning s)\<lparr>currentJob := Some r\<rparr>)
      else (False, s))"
  by (simp add: TryStartJob_def current_running_iff)

lemma finish_slot:
  assumes "\<And>s. store_inv s \<Longrightarrow> store_inv (finish_current f s)"
  shows "single_slot TryStartJob (finish_current f) currentJob fresh_job store_inv"
proof
  fix s :: job_store and r
  assume inv: "store_inv s"
  show "fst (TryStartJob r s) \<longleftrightarrow> currentJob s = None"
    by (simp add: TryStartJob_inv [OF inv])
  show "currentJob s \<noteq> None \<Longrightarrow> snd (TryStartJob r s) = s"
    by (auto simp: TryStartJob_inv [OF inv])
  show "currentJob s = None \<Longrightarrow> currentJob (snd (TryStartJob r s)) = Some r"
    by (simp add: TryStartJob_inv [OF inv])
  show "fresh_job s r \<Longrightarrow> store_inv (snd (TryStartJob r s))"
    by (rule store_inv_try [OF inv])
  show "store_inv (finish_current f s)" by (rule assms [OF inv])
  show "currentJob (finish_current f s) = None" by simp
qed

interpretation complete_slot:
  single_slot TryStartJob "CompleteCurrentJob now" currentJob fresh_job store_inv
  unfolding complete_finish
  by (rule finish_slot) (rule store_inv_complete [unfolded complete_finish])

interpretation fail_slot:
  single_slot TryStartJob "FailCurrentJob err now" currentJob fresh_job store_inv
  unfolding fail_finish by (rule finish_slot) (rule store_inv_fail [unfolded fail_finish])

section \<open>The abstract specification\<close>

text \<open>
  What the store promises, without pointers: one active job and a log of finished ones, each
  as the ID and start time it had and how it ended.
\<close>

record job_log =
  log_active :: "(string \<times> time) option"
  log_finished :: "(string \<times> time \<times> job_status) list"

definition log_entry :: "job \<Rightarrow> string \<times> time \<times> job_status" where
  "log_entry j = (job_ID j, job_StartTime j, job_Status j)"

definition abs_store :: "job_store \<Rightarrow> job_log" where
  "abs_store s =
     \<lparr>log_active = map_option (\<lambda>r. (job_ID (heap s r), job_StartTime (heap s r))) (currentJob s),
      log_finished = map (\<lambda>r. log_entry (heap s r)) (history s)\<rparr>"

datatype store_op =
    OpStart string action_type time
  | OpComplete time
  | OpFail "string go_error" time
  | OpCleanup duration time

fun store_exec :: "store_op \<Rightarrow> job_store \<Rightarrow> job_store" where
  "store_exec (OpStart i a t) s = (case alloc_job (NewJob i a t) s of (r, s') \<Rightarrow> snd (TryStartJob r s'))"
| "store_exec (OpComplete t) s = CompleteCurrentJob t s"
| "store_exec (OpFail e t) s = FailCurrentJob e t s"
| "store_exec (OpCleanup d t) s = CleanupOldJobs d t s"

definition log_finish :: "nat \<Rightarrow> job_status \<Rightarrow> job_log \<Rightarrow> job_log" where
  "log_finish n st l =
     (case log_active l of
        None \<Rightarrow> l
      | Some (i, t) \<Rightarrow> \<lparr>log_active = None, log_finished = last_n n (log_finished l @ [(i, t, st)])\<rparr>)"

fun log_exec :: "nat \<Rightarrow> store_op \<Rightarrow> job_log \<Rightarrow> job_log" where
  "log_exec n (OpStart i a t) l =
     (if log_active l = None then l\<lparr>log_active := Some (i, t)\<rparr> else l)"
| "log_exec n (OpComplete t) l = log_finish n JobStatusCompleted l"
| "log_exec n (OpFail e t) l = log_finish n JobStatusFailed l"
| "log_exec n (OpCleanup d t) l =
     l\<lparr>log_finished := filter (\<lambda>(i, st, res). t - d < st) (log_finished l)\<rparr>"

lemma maxHistory_store_exec [simp]: "maxHistory (store_exec opn s) = maxHistory s"
  by (cases opn) (auto simp: alloc_job_def TryStartJob_def complete_finish fail_finish)

lemma store_inv_exec: "store_inv s \<Longrightarrow> store_inv (store_exec opn s)"
proof (cases opn)
  case (OpStart i a t)
  assume inv: "store_inv s"
  have "store_inv (snd (TryStartJob (fst (alloc_job (NewJob i a t) s)) (snd (alloc_job (NewJob i a t) s))))"
    by (rule store_inv_try) (simp_all add: store_inv_alloc inv fresh_alloc)
  then show ?thesis by (simp add: OpStart split_beta)
qed (auto intro: store_inv_intros)

lemma store_inv_run: "store_inv s \<Longrightarrow> store_inv (fold store_exec ops s)"
  by (induction ops arbitrary: s) (simp_all add: store_inv_exec)

text \<open>Each method of the store is the corresponding step of the specification.\<close>

lemma abs_finish:
  assumes inv: "store_inv s" and f: "\<And>j. log_entry (f j) = (job_ID j, job_StartTime j, st)"
  shows "abs_store (finish_current f s) = log_finish (maxHistory s) st (abs_store s)"
proof (cases "currentJob s")
  case None
  then show ?thesis by (simp add: finish_current_None log_finish_def abs_store_def)
next
  case (Some r)
  have "q \<in> set (history s) \<Longrightarrow> (q = r) = False" for q
    using current_not_in_history [OF inv Some] by auto
  then show ?thesis
    by (simp add: finish_current_Some [OF Some] log_finish_def abs_store_def Some f cong: map_cong)
qed

lemma abs_start:
  assumes inv: "store_inv s"
  shows "abs_store (store_exec (OpStart i a t) s) = log_exec n (OpStart i a t) (abs_store s)"
proof -
  let ?s = "snd (alloc_job (NewJob i a t) s)" and ?r = "fst (alloc_job (NewJob i a t) s)"
  have heap: "heap ?s q = heap s q" if "q < next_ref s" for q
    using that by (simp add: alloc_job_def)
  have hist: "map (\<lambda>q. log_entry (heap (snd (TryStartJob ?r ?s)) q)) (history s) =
      map (\<lambda>q. log_entry (heap s q)) (history s)"
    using store_invD(5) [OF inv] by (auto simp: TryStartJob_def alloc_job_def)
  show ?thesis
    using hist heap store_invD(3) [OF inv] TryStartJob_inv [OF store_inv_alloc [OF inv], of ?r i a t]
    by (auto simp: abs_store_def split_beta alloc_job_def NewJob_def SetRunning_def)
qed

lemma abs_exec:
  "store_inv s \<Longrightarrow> abs_store (store_exec opn s) = log_exec (maxHistory s) opn (abs_store s)"
proof (cases opn)
  case (OpCleanup d t)
  then show ?thesis
    by (simp add: abs_store_def history_CleanupOldJobs filter_map comp_def log_entry_def)
qed (simp_all add: abs_start complete_finish fail_finish abs_finish log_entry_def
       SetCompleted_def SetFailed_def del: store_exec.simps(1) log_exec.simps(1))

lemma maxHistory_run [simp]: "maxHistory (fold store_exec ops s) = maxHistory s"
  by (induction ops arbitrary: s) simp_all

lemma abs_run:
  "store_inv s \<Longrightarrow>
     abs_store (fold store_exec ops s) = fold (log_exec (maxHistory s)) ops (abs_store s)"
  by (induction ops arbitrary: s) (simp_all add: abs_exec store_inv_exec)

section \<open>Properties\<close>

text \<open>
  Whatever sequence of jobs is started, completed, failed and cleaned up, at every
  moment at most one job of the store is running, and the history never holds more than the
  100 entries the store was made for.
\<close>

theorem store_single_job:
  "finite {r. r < next_ref (fold store_exec ops NewJobStore) \<and>
       IsRunning (heap (fold store_exec ops NewJobStore) r)} \<and>
   card {r. r < next_ref (fold store_exec ops NewJobStore) \<and>
       IsRunning (heap (fold store_exec ops NewJobStore) r)} \<le> 1 \<and>
   length (history (fold store_exec ops NewJobStore)) \<le> 100"
proof -
  let ?s = "fold store_exec ops NewJobStore"
  have inv: "store_inv ?s" by (intro store_inv_run store_inv_init)
  have sub: "{r. r < next_ref ?s \<and> IsRunning (heap ?s r)} \<subseteq> set_option (currentJob ?s)"
    using store_invD(2) [OF inv] by auto
  have "card {r. r < next_ref ?s \<and> IsRunning (heap ?s r)} \<le> card (set_option (currentJob ?s))"
    by (rule card_mono) (simp_all add: sub)
  also have "\<dots> \<le> 1" by (cases "currentJob ?s") simp_all
  moreover have "length (history ?s) \<le> 100"
    using store_invD(8) [OF inv] by (simp add: NewJobStore_def)
  ultimately show ?thesis by simp
qed

text \<open>
  C6: the store refines its abstract specification. Run any sequence of operations on a new
  store and forget the pointers: the result is the same sequence of operations on one slot
  and a log that keeps the last 100 finished jobs with their final status.
\<close>

theorem store_refines_log:
  "abs_store (fold store_exec ops NewJobStore) =
     fold (log_exec 100) ops \<lparr>log_active = None, log_finished = []\<rparr>"
  using abs_run [OF store_inv_init, of ops] by (simp add: abs_store_def NewJobStore_def)

text \<open>
  When several newly created jobs compete for an idle store, the first attempt wins, all
  the others are refused, and the store is left as the winner's start made it.
\<close>

theorem first_start_wins:
  assumes "store_inv s" and "fresh_job s r" and "currentJob s = None"
  shows "attempts TryStartJob (r # rs) s =
    (True # replicate (length rs) False, (upd_job r SetRunning s)\<lparr>currentJob := Some r\<rparr>)"
  using complete_slot.attempts_idle [OF assms, of rs] assms by (simp add: TryStartJob_inv)

definition two_jobs :: job_store where
  "two_jobs = snd (alloc_job (NewJob ''b'' ActionUpdate 2)
     (snd (alloc_job (NewJob ''a'' ActionUpdate 1) NewJobStore)))"

theorem first_start_wins_witness:
  "attempts TryStartJob [0, 1] two_jobs =
     ([True, False], (upd_job 0 SetRunning two_jobs)\<lparr>currentJob := Some 0\<rparr>)"
proof -
  have "store_inv two_jobs"
    unfolding two_jobs_def by (intro store_inv_alloc store_inv_init)
  moreover have "fresh_job two_jobs 0" "currentJob two_jobs = None"
    by (simp_all add: two_jobs_def fresh_job_def alloc_job_def NewJobStore_def)
  ultimately show ?thesis
    using first_start_wins [of two_jobs 0 "[1]"] by simp
qed

text \<open>
  A finished job can be looked up. After the current job is completed, its ID leads
  \<open>GetJobByID\<close> to that job, now completed and with its end time, even if an older job of the
  history has the same ID.
\<close>

theorem completed_job_found:
  assumes "currentJob s = Some r" and "0 < maxHistory s"
  shows "GetJobByID (job_ID (heap s r)) (CompleteCurrentJob now s) = Some r \<and>
    heap (CompleteCurrentJob now s) r = SetCompleted now (heap s r)"
  using assms
  by (simp add: complete_finish GetJobByID_find is_current_def finish_current_Some last_n_Suc)

theorem completed_job_found_witness:
  "GetJobByID ''a'' (CompleteCurrentJob 7 (snd (TryStartJob 0 two_jobs))) = Some 0"
  using completed_job_found [of "snd (TryStartJob 0 two_jobs)" 0 7]
  by (simp add: two_jobs_def TryStartJob_def current_running_def alloc_job_def NewJobStore_def)

text \<open>
  Where job IDs are unique, the two lookups of the store agree, although \<open>GetJob\<close> scans
  the history from the oldest entry and \<open>GetJobByID\<close> from the newest.
\<close>

theorem lookups_agree:
  assumes "distinct (map (\<lambda>r. job_ID (heap s r)) (history s))"
  shows "GetJob i s = GetJobByID i s"
proof -
  let ?id = "\<lambda>r. job_ID (heap s r)"
  have "List.find (\<lambda>r. ?id r = i) (history s) = List.find (\<lambda>r. ?id r = i) (rev (history s))"
    using find_map_distinct [of ?id "history s" i] find_map_distinct [of ?id "rev (history s)" i] assms
    by (simp add: rev_map [symmetric]) (metis not_Some_eq)
  then show ?thesis
    by (simp add: GetJob_def GetJobByID_find scan_history_find)
qed

theorem lookups_agree_witness:
  "GetJob ''a'' (store_exec (OpComplete 7) (snd (TryStartJob 0 two_jobs))) =
   GetJobByID ''a'' (store_exec (OpComplete 7) (snd (TryStartJob 0 two_jobs)))"
  by (rule lookups_agree)
    (simp add: two_jobs_def TryStartJob_def current_running_def alloc_job_def NewJobStore_def
      complete_finish finish_current_def last_n_def)

end
