(* ===== verification/Worker_Pool.thy ===== *)
theory Worker_Pool
  imports Prelude
begin

text \<open>
  The worker pool of \<open>internal/infrastructure/worker/pool.go\<close>. A pool is its channel (a
  bounded buffer that can be closed), its context (cancelled or not) and its shutdown flag.
  The methods are functions; because \<open>Submit\<close> releases the lock between its check and its
  send, and workers, submitters and \<open>Shutdown\<close> run concurrently, the pool in operation is a
  transition system (\<open>pool_step\<close>) with one rule per atomic section.

  Lemmas: the invariant \<open>pool_inv\<close> (bounded backlog, tasks are started in the order they were
  accepted, each once; workers only stop on a closed and empty channel or a cancelled
  context), a graceful shutdown loses nothing, progress, and the send on a closed channel.
\<close>

section \<open>The pool and its methods\<close>

datatype pool_error = PoolIsShutdown | ErrPoolFull | ErrTimeout | ErrShutdownTimeout

datatype go_panic = SendOnClosedChannel

record 't pool =
  p_workers :: nat
  p_tasks :: "'t list"
  p_closed :: bool
  p_cancelled :: bool
  p_maxBacklog :: nat
  p_shutdown :: bool

definition NewPool :: "int \<Rightarrow> int \<Rightarrow> 't pool" where
  "NewPool workers backlog =
     (let workers = (if workers \<le> 0 then 10 else workers);
          backlog = (if backlog \<le> 0 then 100 else backlog)
      in \<lparr>p_workers = nat workers, p_tasks = [], p_closed = False, p_cancelled = False,
          p_maxBacklog = nat backlog, p_shutdown = False\<rparr>)"

text \<open>A send and a receive on the channel; \<open>Blocked\<close> is a \<open>select\<close> case that is not ready.\<close>

datatype 't send_result = Sent "'t pool" | SendBlocked | SendPanic

definition try_send :: "'t \<Rightarrow> 't pool \<Rightarrow> 't send_result" where
  "try_send t p =
     (if p_closed p then SendPanic
      else if length (p_tasks p) < p_maxBacklog p then Sent (p\<lparr>p_tasks := p_tasks p @ [t]\<rparr>)
      else SendBlocked)"

datatype 't recv_result = Received 't "'t pool" | RecvClosed | RecvBlocked

definition try_recv :: "'t pool \<Rightarrow> 't recv_result" where
  "try_recv p =
     (case p_tasks p of
        t # ts \<Rightarrow> Received t (p\<lparr>p_tasks := ts\<rparr>)
      | [] \<Rightarrow> if p_closed p then RecvClosed else RecvBlocked)"

text \<open>The first part of \<open>Submit\<close> and \<open>SubmitWait\<close>, under the read lock.\<close>

definition submit_check :: "'t pool \<Rightarrow> pool_error go_error" where
  "submit_check p = (if p_shutdown p then Some PoolIsShutdown else None)"

definition Submit :: "'t \<Rightarrow> 't pool \<Rightarrow> go_panic + pool_error go_error \<times> 't pool" where
  "Submit t p =
     (case submit_check p of
        Some e \<Rightarrow> Inr (Some e, p)
      | None \<Rightarrow>
          (case try_send t p of
             Sent p' \<Rightarrow> Inr (None, p')
           | SendBlocked \<Rightarrow> Inr (Some ErrPoolFull, p)
           | SendPanic \<Rightarrow> Inl SendOnClosedChannel))"

text \<open>
  \<open>SubmitWait\<close> when nothing else moves: it waits until the channel can take the task or its
  context is done. \<open>done\<close> says that the context was done when the \<open>select\<close> ran and that its
  case was the one chosen; with a full channel the timeout is the only way out.
\<close>

definition SubmitWait :: "'t \<Rightarrow> bool \<Rightarrow> 't pool \<Rightarrow> go_panic + pool_error go_error \<times> 't pool" where
  "SubmitWait t done p =
     (case submit_check p of
        Some e \<Rightarrow> Inr (Some e, p)
      | None \<Rightarrow>
          if done then Inr (Some ErrTimeout, p)
          else (case try_send t p of
             Sent p' \<Rightarrow> Inr (None, p')
           | SendBlocked \<Rightarrow> Inr (Some ErrTimeout, p)
           | SendPanic \<Rightarrow> Inl SendOnClosedChannel))"

text \<open>
  \<open>Shutdown\<close> in its three parts: mark (\<open>None\<close> when the pool was already marked, where the
  method returns \<open>nil\<close> at once), close, and cancel when the timeout passes first.
\<close>

definition shutdown_mark :: "'t pool \<Rightarrow> 't pool option" where
  "shutdown_mark p = (if p_shutdown p then None else Some (p\<lparr>p_shutdown := True\<rparr>))"

definition shutdown_close :: "'t pool \<Rightarrow> 't pool" where
  "shutdown_close p = p\<lparr>p_closed := True\<rparr>"

definition shutdown_cancel :: "'t pool \<Rightarrow> 't pool" where
  "shutdown_cancel p = p\<lparr>p_cancelled := True\<rparr>"

definition Size :: "'t pool \<Rightarrow> nat" where
  "Size p = length (p_tasks p)"

definition Capacity :: "'t pool \<Rightarrow> nat" where
  "Capacity p = p_maxBacklog p"

lemmas pool_op_defs [model_defs] = NewPool_def try_send_def try_recv_def submit_check_def
  shutdown_mark_def shutdown_close_def shutdown_cancel_def Size_def Capacity_def

section \<open>The pool in operation\<close>

text \<open>
  A worker waits in its \<open>select\<close>, runs a task or has returned; a panic of the task is
  recovered, so running always leads back to waiting. A client has passed the check of
  \<open>Submit\<close> (or of \<open>SubmitWait\<close>) and is about to send.
\<close>

datatype 't worker = Waiting | Running 't | Exited

datatype 't client = InSubmit 't | InSubmitWait 't

fun client_task :: "'t client \<Rightarrow> 't" where
  "client_task (InSubmit t) = t"
| "client_task (InSubmitWait t) = t"

datatype shutdown_phase = NotCalled | Marked | Draining | Returned "pool_error go_error"

text \<open>
  The last four fields are history: tasks accepted by a send, received by a worker and
  finished, in that order of events, and the number of submitters that panicked.
\<close>

record 't pool_sys =
  ps_pool :: "'t pool"
  ps_workers :: "'t worker list"
  ps_clients :: "'t client multiset"
  ps_phase :: shutdown_phase
  ps_accepted :: "'t list"
  ps_started :: "'t list"
  ps_finished :: "'t list"
  ps_panics :: nat

definition pool_start :: "int \<Rightarrow> int \<Rightarrow> 't pool_sys" where
  "pool_start workers backlog =
     \<lparr>ps_pool = NewPool workers backlog,
      ps_workers = replicate (p_workers (NewPool workers backlog :: 't pool)) Waiting,
      ps_clients = {#}, ps_phase = NotCalled, ps_accepted = [], ps_started = [],
      ps_finished = [], ps_panics = 0\<rparr>"

definition pool_init :: "'t pool_sys \<Rightarrow> bool" where
  "pool_init s \<longleftrightarrow> (\<exists>workers backlog. s = pool_start workers backlog)"

inductive pool_step :: "'t pool_sys \<Rightarrow> 't pool_sys \<Rightarrow> bool" where
  client_enters:
  "submit_check (ps_pool s) = None \<Longrightarrow>
   pool_step s (s\<lparr>ps_clients := add_mset c (ps_clients s)\<rparr>)"
| client_sends:
  "c \<in># ps_clients s \<Longrightarrow> try_send (client_task c) (ps_pool s) = Sent p \<Longrightarrow>
   pool_step s (s\<lparr>ps_clients := ps_clients s - {#c#}, ps_pool := p,
     ps_accepted := ps_accepted s @ [client_task c]\<rparr>)"
| client_refused:
  "InSubmit t \<in># ps_clients s \<Longrightarrow> try_send t (ps_pool s) = SendBlocked \<Longrightarrow>
   pool_step s (s\<lparr>ps_clients := ps_clients s - {#InSubmit t#}\<rparr>)"
| client_times_out:
  "InSubmitWait t \<in># ps_clients s \<Longrightarrow>
   pool_step s (s\<lparr>ps_clients := ps_clients s - {#InSubmitWait t#}\<rparr>)"
| client_panics:
  "c \<in># ps_clients s \<Longrightarrow> try_send (client_task c) (ps_pool s) = SendPanic \<Longrightarrow>
   pool_step s (s\<lparr>ps_clients := ps_clients s - {#c#}, ps_panics := Suc (ps_panics s)\<rparr>)"
| worker_takes:
  "i < length (ps_workers s) \<Longrightarrow> ps_workers s ! i = Waiting \<Longrightarrow>
   try_recv (ps_pool s) = Received t p \<Longrightarrow>
   pool_step s (s\<lparr>ps_workers := (ps_workers s)[i := Running t], ps_pool := p,
     ps_started := ps_started s @ [t]\<rparr>)"
| worker_finishes:
  "i < length (ps_workers s) \<Longrightarrow> ps_workers s ! i = Running t \<Longrightarrow>
   pool_step s (s\<lparr>ps_workers := (ps_workers s)[i := Waiting],
     ps_finished := ps_finished s @ [t]\<rparr>)"
| worker_sees_closed:
  "i < length (ps_workers s) \<Longrightarrow> ps_workers s ! i = Waiting \<Longrightarrow>
   try_recv (ps_pool s) = RecvClosed \<Longrightarrow>
   pool_step s (s\<lparr>ps_workers := (ps_workers s)[i := Exited]\<rparr>)"
| worker_sees_cancel:
  "i < length (ps_workers s) \<Longrightarrow> ps_workers s ! i = Waiting \<Longrightarrow> p_cancelled (ps_pool s) \<Longrightarrow>
   pool_step s (s\<lparr>ps_workers := (ps_workers s)[i := Exited]\<rparr>)"
| shutdown_marks:
  "shutdown_mark (ps_pool s) = Some p \<Longrightarrow>
   pool_step s (s\<lparr>ps_pool := p, ps_phase := Marked\<rparr>)"
| shutdown_closes:
  "ps_phase s = Marked \<Longrightarrow>
   pool_step s (s\<lparr>ps_pool := shutdown_close (ps_pool s), ps_phase := Draining\<rparr>)"
| shutdown_returns:
  "ps_phase s = Draining \<Longrightarrow> set (ps_workers s) \<subseteq> {Exited} \<Longrightarrow>
   pool_step s (s\<lparr>ps_phase := Returned None\<rparr>)"
| shutdown_times_out:
  "ps_phase s = Draining \<Longrightarrow>
   pool_step s (s\<lparr>ps_pool := shutdown_cancel (ps_pool s),
     ps_phase := Returned (Some ErrShutdownTimeout)\<rparr>)"

inductive_cases pool_stepE: "pool_step s t"

section \<open>The invariant\<close>

fun running_tasks :: "'t worker list \<Rightarrow> 't multiset" where
  "running_tasks [] = {#}"
| "running_tasks (Running t # ws) = add_mset t (running_tasks ws)"
| "running_tasks (Waiting # ws) = running_tasks ws"
| "running_tasks (Exited # ws) = running_tasks ws"

definition worker_load :: "'t worker \<Rightarrow> 't multiset" where
  "worker_load w = (case w of Running t \<Rightarrow> {#t#} | _ \<Rightarrow> {#})"

lemma running_tasks_Cons: "running_tasks (w # ws) = worker_load w + running_tasks ws"
  by (cases w) (simp_all add: worker_load_def)

lemma running_tasks_update:
  "i < length ws \<Longrightarrow>
     running_tasks (ws[i := w]) + worker_load (ws ! i) = running_tasks ws + worker_load w"
proof (induction ws arbitrary: i)
  case (Cons v ws)
  then show ?case
    by (cases i) (simp_all add: running_tasks_Cons add.assoc add.left_commute)
qed simp

lemma running_tasks_replicate [simp]: "running_tasks (replicate n Waiting) = {#}"
  by (induction n) simp_all

lemma running_tasks_exited: "set ws \<subseteq> {Exited} \<Longrightarrow> running_tasks ws = {#}"
  by (induction ws) auto

definition phase_ok :: "shutdown_phase \<Rightarrow> 't pool \<Rightarrow> bool" where
  "phase_ok ph p \<longleftrightarrow>
     (p_shutdown p \<longleftrightarrow> ph \<noteq> NotCalled) \<and>
     (p_closed p \<longleftrightarrow> ph \<notin> {NotCalled, Marked}) \<and>
     (p_cancelled p \<longleftrightarrow> ph = Returned (Some ErrShutdownTimeout))"

definition pool_inv :: "'t pool_sys \<Rightarrow> bool" where
  "pool_inv s \<longleftrightarrow>
     phase_ok (ps_phase s) (ps_pool s) \<and>
     ps_accepted s = ps_started s @ p_tasks (ps_pool s) \<and>
     length (p_tasks (ps_pool s)) \<le> p_maxBacklog (ps_pool s) \<and>
     mset (ps_started s) = mset (ps_finished s) + running_tasks (ps_workers s) \<and>
     length (ps_workers s) = p_workers (ps_pool s) \<and> 0 < p_workers (ps_pool s) \<and>
     (Exited \<in> set (ps_workers s) \<longrightarrow>
        p_cancelled (ps_pool s) \<or> p_closed (ps_pool s) \<and> p_tasks (ps_pool s) = []) \<and>
     (ps_phase s = Returned None \<longrightarrow> set (ps_workers s) \<subseteq> {Exited}) \<and>
     (0 < ps_panics s \<longrightarrow> p_closed (ps_pool s))"

lemma try_send_Sent:
  "try_send t p = Sent p' \<longleftrightarrow>
     \<not> p_closed p \<and> length (p_tasks p) < p_maxBacklog p \<and> p' = p\<lparr>p_tasks := p_tasks p @ [t]\<rparr>"
  by (auto simp: try_send_def)

lemma try_send_Panic: "try_send t p = SendPanic \<longleftrightarrow> p_closed p"
  by (simp add: try_send_def)

lemma try_send_Blocked:
  "try_send t p = SendBlocked \<longleftrightarrow> \<not> p_closed p \<and> p_maxBacklog p \<le> length (p_tasks p)"
  by (auto simp: try_send_def)

lemma try_recv_Received:
  "try_recv p = Received t p' \<longleftrightarrow>
     (\<exists>ts. p_tasks p = t # ts \<and> p' = p\<lparr>p_tasks := ts\<rparr>)"
  by (auto simp: try_recv_def split: list.splits if_splits)

lemma try_recv_Closed: "try_recv p = RecvClosed \<longleftrightarrow> p_closed p \<and> p_tasks p = []"
  by (auto simp: try_recv_def split: list.splits if_splits)

lemmas chan_simps [step_simps] =
  try_send_Sent try_send_Panic try_send_Blocked try_recv_Received try_recv_Closed

lemma set_update_exited: "Exited \<in> set (ws[i := w]) \<Longrightarrow> w \<noteq> Exited \<Longrightarrow> Exited \<in> set ws"
  using set_update_subset_insert [of ws i w] by blast

text \<open>
  A worker that changes from one state to another: what the counts and the stopped workers
  become.
\<close>

lemma running_tasks_change:
  assumes "i < length ws" and "ws ! i = v"
  shows "running_tasks (ws[i := w]) + worker_load v = running_tasks ws + worker_load w"
  using running_tasks_update [OF assms(1), of w] assms(2) by simp

lemma NewPool_positive:
  "0 < p_workers (NewPool w b :: 't pool)" "0 < p_maxBacklog (NewPool w b :: 't pool)"
  by (simp_all add: NewPool_def Let_def)

lemma pool_inv_init: "pool_init s \<Longrightarrow> pool_inv s"
  using NewPool_positive
  by (auto simp: pool_init_def pool_start_def pool_inv_def phase_ok_def)
    (auto simp: NewPool_def Let_def)

lemma live_worker:
  "pool_inv s \<Longrightarrow> i < length (ps_workers s) \<Longrightarrow> ps_workers s ! i = w \<Longrightarrow> w \<noteq> Exited \<Longrightarrow>
     ps_phase s \<noteq> Returned None"
  using nth_mem [of i "ps_workers s"] by (auto simp: pool_inv_def)

lemma pool_inv_step:
  assumes inv: "pool_inv s" and st: "pool_step s t"
  shows "pool_inv t"
  using st
proof cases
  case (client_enters c)
  then show ?thesis using inv by (simp add: pool_inv_def)
next
  case (client_sends c p)
  then show ?thesis using inv
    by (auto simp: pool_inv_def phase_ok_def step_simps)
next
  case (client_refused t)
  then show ?thesis using inv by (simp add: pool_inv_def)
next
  case (client_times_out t)
  then show ?thesis using inv by (simp add: pool_inv_def)
next
  case (client_panics c)
  then show ?thesis using inv by (simp add: pool_inv_def step_simps)
next
  case (worker_takes i x p)
  have run: "running_tasks ((ps_workers s)[i := Running x]) = add_mset x (running_tasks (ps_workers s))"
    using running_tasks_change [OF worker_takes(2,3), of "Running x"] by (simp add: worker_load_def)
  obtain ts where "p_tasks (ps_pool s) = x # ts" "p = (ps_pool s)\<lparr>p_tasks := ts\<rparr>"
    using worker_takes(4) by (auto simp: step_simps)
  with run inv worker_takes(1) live_worker [OF inv worker_takes(2,3)] show ?thesis
    by (simp add: pool_inv_def phase_ok_def) (blast dest: set_update_exited)
next
  case (worker_finishes i x)
  have "add_mset x (running_tasks ((ps_workers s)[i := Waiting])) = running_tasks (ps_workers s)"
    using running_tasks_change [OF worker_finishes(2,3), of Waiting] by (simp add: worker_load_def)
  with inv worker_finishes(1) live_worker [OF inv worker_finishes(2,3)] show ?thesis
    by (simp add: pool_inv_def phase_ok_def) (blast dest: set_update_exited)
next
  case (worker_sees_closed i)
  have "running_tasks ((ps_workers s)[i := Exited]) = running_tasks (ps_workers s)"
    using running_tasks_change [OF worker_sees_closed(2,3), of Exited] by (simp add: worker_load_def)
  with inv worker_sees_closed(1,4) live_worker [OF inv worker_sees_closed(2,3)] show ?thesis
    by (simp add: pool_inv_def phase_ok_def step_simps)
next
  case (worker_sees_cancel i)
  have "running_tasks ((ps_workers s)[i := Exited]) = running_tasks (ps_workers s)"
    using running_tasks_change [OF worker_sees_cancel(2,3), of Exited] by (simp add: worker_load_def)
  with inv worker_sees_cancel(1,4) live_worker [OF inv worker_sees_cancel(2,3)] show ?thesis
    by (simp add: pool_inv_def phase_ok_def)
next
  case (shutdown_marks p)
  then show ?thesis using inv
    by (auto simp: pool_inv_def phase_ok_def shutdown_mark_def split: if_splits)
next
  case shutdown_closes
  then show ?thesis using inv by (auto simp: pool_inv_def phase_ok_def shutdown_close_def)
next
  case shutdown_returns
  then show ?thesis using inv by (auto simp: pool_inv_def phase_ok_def)
next
  case shutdown_times_out
  then show ?thesis using inv by (auto simp: pool_inv_def phase_ok_def shutdown_cancel_def)
qed

interpretation pool_system: inv_system pool_init pool_step pool_inv
  by unfold_locales (auto intro: pool_inv_init pool_inv_step)

lemma returned_nil_complete:
  assumes inv: "pool_inv s" and ph: "ps_phase s = Returned None"
  shows "p_tasks (ps_pool s) = [] \<and> mset (ps_finished s) = mset (ps_accepted s)"
proof -
  from inv ph have ex: "set (ps_workers s) \<subseteq> {Exited}" and "ps_workers s \<noteq> []"
    by (auto simp: pool_inv_def)
  then have "Exited \<in> set (ps_workers s)" by (cases "ps_workers s") auto
  moreover have "\<not> p_cancelled (ps_pool s)"
    using inv ph by (simp add: pool_inv_def phase_ok_def)
  ultimately show ?thesis
    using inv running_tasks_exited [OF ex] by (simp add: pool_inv_def)
qed

section \<open>Runs\<close>

lemma reach_pool_start: "reach pool_init pool_step (pool_start w b)"
  by (rule reach_init) (auto simp: pool_init_def)

text \<open>A \<open>Submit\<close> that is not interrupted: its check and its send, one after the other.\<close>

lemma reach_submit:
  assumes "reach pool_init pool_step s" and "submit_check (ps_pool s) = None"
    and "try_send t (ps_pool s) = Sent p"
  shows "reach pool_init pool_step (s\<lparr>ps_pool := p, ps_accepted := ps_accepted s @ [t]\<rparr>)"
proof -
  let ?u = "s\<lparr>ps_clients := add_mset (InSubmit t) (ps_clients s)\<rparr>"
  have "reach pool_init pool_step ?u"
    by (rule reach_step [OF assms(1)]) (rule client_enters [OF assms(2)])
  moreover have "pool_step ?u (s\<lparr>ps_pool := p, ps_accepted := ps_accepted s @ [t]\<rparr>)"
    using pool_step.client_sends [of "InSubmit t" ?u p] assms(3) by simp
  ultimately show ?thesis by (rule reach_step)
qed

text \<open>
  One worker, one task: the task is submitted, run, and the pool shut down; and a submitter
  that has passed its check when the channel is closed.
\<close>

definition drained_pool :: "nat pool_sys" where
  "drained_pool =
     \<lparr>ps_pool = \<lparr>p_workers = 1, p_tasks = [], p_closed = True, p_cancelled = False,
        p_maxBacklog = 1, p_shutdown = True\<rparr>,
      ps_workers = [Exited], ps_clients = {#}, ps_phase = Returned None, ps_accepted = [7],
      ps_started = [7], ps_finished = [7], ps_panics = 0\<rparr>"

definition busy_pool :: "nat pool_sys" where
  "busy_pool = (pool_start 1 1)\<lparr>ps_accepted := [7], ps_pool := (NewPool 1 1)\<lparr>p_tasks := [7]\<rparr>\<rparr>"

lemma reach_busy_pool: "reach pool_init pool_step busy_pool"
  unfolding busy_pool_def
  using reach_submit [OF reach_pool_start, of 1 1 "7 :: nat" "(NewPool 1 1)\<lparr>p_tasks := [7]\<rparr>"]
  by (simp add: pool_start_def pool_op_defs)

lemma reach_drained_pool: "reach pool_init pool_step drained_pool"
proof -
  let ?R = "reach pool_init pool_step"
  let ?p = "\<lparr>p_workers = 1, p_tasks = [], p_closed = False, p_cancelled = False,
        p_maxBacklog = 1, p_shutdown = False\<rparr> :: nat pool"
  let ?s = "\<lparr>ps_pool = ?p, ps_workers = [Running 7], ps_clients = {#}, ps_phase = NotCalled,
      ps_accepted = [7], ps_started = [7], ps_finished = [], ps_panics = 0\<rparr>"
  let ?t = "?s\<lparr>ps_workers := [Waiting], ps_finished := [7]\<rparr>"
  let ?u = "?t\<lparr>ps_pool := ?p\<lparr>p_shutdown := True\<rparr>, ps_phase := Marked\<rparr>"
  let ?v = "?u\<lparr>ps_pool := ?p\<lparr>p_shutdown := True, p_closed := True\<rparr>, ps_phase := Draining\<rparr>"
  let ?w = "?v\<lparr>ps_workers := [Exited]\<rparr>"
  have "?R ?s"
    using reach_step [OF reach_busy_pool, OF worker_takes [of 0 busy_pool 7 ?p]]
    by (simp add: busy_pool_def pool_start_def pool_op_defs)
  from reach_step [OF this, OF worker_finishes [of 0 ?s 7]]
  have "?R ?t" by simp
  from reach_step [OF this, OF shutdown_marks [of ?t "?p\<lparr>p_shutdown := True\<rparr>"]]
  have "?R ?u"
    by (simp add: shutdown_mark_def)
  from reach_step [OF this, OF shutdown_closes [of ?u]]
  have "?R ?v" by (simp add: shutdown_close_def)
  from reach_step [OF this, OF worker_sees_closed [of 0 ?v]]
  have "?R ?w" by (simp add: try_recv_def)
  from reach_step [OF this, OF shutdown_returns [of ?w]]
  show ?thesis by (simp add: drained_pool_def)
qed

fun submit_all :: "'t list \<Rightarrow> 't pool \<Rightarrow> pool_error go_error list \<times> 't pool" where
  "submit_all [] p = ([], p)"
| "submit_all (t # ts) p =
     (case Submit t p of
        Inl _ \<Rightarrow> ([], p)
      | Inr (e, p') \<Rightarrow> (case submit_all ts p' of (es, q) \<Rightarrow> (e # es, q)))"

lemma submit_all_open:
  assumes "\<not> p_shutdown p" and "\<not> p_closed p"
  shows "submit_all ts p =
    (map (\<lambda>i. if i < p_maxBacklog p - length (p_tasks p) then None else Some ErrPoolFull)
         [0 ..< length ts],
     p\<lparr>p_tasks := p_tasks p @ take (p_maxBacklog p - length (p_tasks p)) ts\<rparr>)"
  using assms
proof (induction ts arbitrary: p)
  case (Cons t ts)
  show ?case
  proof (cases "length (p_tasks p) < p_maxBacklog p")
    case True
    then obtain n where "p_maxBacklog p - length (p_tasks p) = Suc n"
      by (metis Suc_diff_Suc)
    moreover from this have "p_maxBacklog p - Suc (length (p_tasks p)) = n" by simp
    ultimately show ?thesis using Cons.prems True
      by (simp add: Submit_def submit_check_def try_send_def Cons.IH map_upt_Suc del: upt_Suc)
  next
    case False
    then show ?thesis using Cons.prems
      by (simp add: Submit_def submit_check_def try_send_def Cons.IH map_upt_Suc del: upt_Suc)
  qed
qed simp

section \<open>Properties\<close>

text \<open>
  C21: in every reachable state of a pool, tasks are started in the order in which they were
  accepted, each exactly once, the accepted tasks that are not started yet are exactly the
  channel's content, and there are never more of them than the backlog allows.
\<close>

theorem pool_fifo:
  assumes "reach pool_init pool_step s"
  shows "ps_accepted s = ps_started s @ p_tasks (ps_pool s) \<and>
    Size (ps_pool s) \<le> Capacity (ps_pool s) \<and>
    mset (ps_started s) = mset (ps_finished s) + running_tasks (ps_workers s)"
  using pool_system.inv_reach [OF assms] by (simp add: pool_inv_def Size_def Capacity_def)

theorem pool_fifo_witness:
  "ps_accepted busy_pool = ps_started busy_pool @ p_tasks (ps_pool busy_pool) \<and>
   ps_accepted busy_pool = [7]"
  using pool_fifo [OF reach_busy_pool] by (simp add: busy_pool_def)

text \<open>
  A shutdown that returns \<open>nil\<close> has lost nothing: the channel is empty and every task
  that was ever accepted has been run to its end, once.
\<close>

theorem graceful_shutdown_complete:
  assumes "reach pool_init pool_step s" and "ps_phase s = Returned None"
  shows "p_tasks (ps_pool s) = [] \<and> mset (ps_finished s) = mset (ps_accepted s)"
  by (rule returned_nil_complete [OF pool_system.inv_reach [OF assms(1)] assms(2)])

theorem graceful_shutdown_complete_witness:
  "p_tasks (ps_pool drained_pool) = [] \<and> mset (ps_finished drained_pool) = mset (ps_accepted drained_pool)"
  by (rule graceful_shutdown_complete [OF reach_drained_pool]) (simp add: drained_pool_def)

text \<open>
  No accepted task is stuck. As long as the context is not cancelled and the channel is
  not empty, some worker can move on: it starts the next task or finishes the one it runs.
\<close>

theorem pool_progress:
  assumes "reach pool_init pool_step s" and "p_tasks (ps_pool s) \<noteq> []"
    and "\<not> p_cancelled (ps_pool s)"
  shows "\<exists>t. pool_step s t \<and>
    length (ps_started s) + length (ps_finished s) < length (ps_started t) + length (ps_finished t)"
proof -
  have inv: "pool_inv s" by (rule pool_system.inv_reach [OF assms(1)])
  obtain x ts where ts: "p_tasks (ps_pool s) = x # ts"
    using assms(2) by (auto simp: neq_Nil_conv)
  have len: "0 < length (ps_workers s)" using inv by (simp add: pool_inv_def)
  have "Exited \<notin> set (ps_workers s)" using inv assms(2,3) by (auto simp: pool_inv_def)
  then have "ps_workers s ! 0 \<noteq> Exited" using nth_mem [OF len] by auto
  then consider "ps_workers s ! 0 = Waiting" | y where "ps_workers s ! 0 = Running y"
    by (cases "ps_workers s ! 0") auto
  then show ?thesis
  proof cases
    case 1
    from worker_takes [OF len 1, of x] ts show ?thesis
      by (fastforce simp: try_recv_Received)
  next
    case 2
    from worker_finishes [OF len 2] show ?thesis by fastforce
  qed
qed

theorem pool_progress_witness:
  "\<exists>t. pool_step busy_pool t \<and>
    length (ps_started busy_pool) + length (ps_finished busy_pool)
      < length (ps_started t) + length (ps_finished t)"
  by (rule pool_progress [OF reach_busy_pool]) (simp_all add: busy_pool_def NewPool_def)

text \<open>
  The check of \<open>Submit\<close> does not protect its send. There is a run in which a submitter
  passes the check, \<open>Shutdown\<close> closes the channel, and the send panics.
\<close>

theorem submit_can_panic:
  "\<exists>s :: nat pool_sys. reach pool_init pool_step s \<and> 0 < ps_panics s"
proof -
  let ?R = "reach pool_init pool_step" and ?s = "pool_start 1 1 :: nat pool_sys"
  let ?t = "?s\<lparr>ps_clients := {#InSubmit 7#}\<rparr>"
  let ?u = "?t\<lparr>ps_pool := (NewPool 1 1)\<lparr>p_shutdown := True\<rparr>, ps_phase := Marked\<rparr>"
  let ?v = "?u\<lparr>ps_pool := (NewPool 1 1)\<lparr>p_shutdown := True, p_closed := True\<rparr>, ps_phase := Draining\<rparr>"
  have chk: "submit_check (ps_pool ?s) = None" by (simp add: pool_start_def pool_op_defs)
  from reach_step [OF reach_pool_start, OF client_enters [OF chk, of "InSubmit 7"]]
  have "?R ?t" by (simp add: pool_start_def)
  from reach_step [OF this, OF shutdown_marks [of ?t "(NewPool 1 1)\<lparr>p_shutdown := True\<rparr>"]]
  have "?R ?u"
    by (simp add: shutdown_mark_def pool_start_def NewPool_def)
  from reach_step [OF this, OF shutdown_closes [of ?u]]
  have "?R ?v" by (simp add: shutdown_close_def)
  from reach_step [OF this, OF client_panics [of "InSubmit 7" ?v]]
  have "?R (?v\<lparr>ps_clients := {#}, ps_panics := Suc (ps_panics ?v)\<rparr>)" by (simp add: try_send_def)
  then show ?thesis by (intro exI conjI, assumption) simp
qed

text \<open>
  A pool without running workers takes exactly as many tasks as its backlog, in order,
  and refuses all further ones with \<open>ErrPoolFull\<close> without touching those it holds.
\<close>

theorem backlog_bound:
  "submit_all ts (NewPool w b) =
    (map (\<lambda>i. if i < Capacity (NewPool w b :: 't pool) then None else Some ErrPoolFull)
       [0 ..< length ts],
     (NewPool w b)\<lparr>p_tasks := take (Capacity (NewPool w b :: 't pool)) (ts :: 't list)\<rparr>)"
  using submit_all_open [of "NewPool w b :: 't pool" ts]
  by (simp add: NewPool_def Let_def Capacity_def)

end
