(* ===== verification/Go_Json.thy ===== *)
theory Go_Json
  imports Go_Text
begin

text \<open>
  \<open>encoding/json\<close> as the service uses it: the scanner of \<open>json.Unmarshal\<close> with its stack of open
  objects and arrays and its limit on nesting, the reading of string literals (escapes,
  surrogates, bytes that are no UTF-8), integers, and the writer that \<open>json.Marshal\<close> and the
  encoder share.

  The scanner is a machine that takes one byte at a time, so it needs no fuel; like Go's it reads
  a space at the end, which ends a number. Lemmas: what the writer renders, the scanner reads
  back, for every value whose nesting is within the limit.
\<close>

section \<open>UTF-8\<close>

definition byte_in :: "nat \<Rightarrow> nat \<Rightarrow> char \<Rightarrow> bool" where
  "byte_in lo hi c \<longleftrightarrow> lo \<le> (of_char c :: nat) \<and> (of_char c :: nat) \<le> hi"

abbreviation "cont_byte \<equiv> byte_in 0x80 0xBF"

text \<open>The length of the valid sequence at the head of a text, 0 if there is none.\<close>

definition seq2 :: "char \<Rightarrow> char \<Rightarrow> bool" where
  "seq2 a b \<longleftrightarrow> byte_in 0xC2 0xDF a \<and> cont_byte b"

definition seq3 :: "char \<Rightarrow> char \<Rightarrow> char \<Rightarrow> bool" where
  "seq3 a b c \<longleftrightarrow> cont_byte c \<and>
     (byte_in 0xE0 0xE0 a \<and> byte_in 0xA0 0xBF b \<or>
      (byte_in 0xE1 0xEC a \<or> byte_in 0xEE 0xEF a) \<and> cont_byte b \<or>
      byte_in 0xED 0xED a \<and> byte_in 0x80 0x9F b)"

definition seq4 :: "char \<Rightarrow> char \<Rightarrow> char \<Rightarrow> char \<Rightarrow> bool" where
  "seq4 a b c d \<longleftrightarrow> cont_byte c \<and> cont_byte d \<and>
     (byte_in 0xF0 0xF0 a \<and> byte_in 0x90 0xBF b \<or> byte_in 0xF1 0xF3 a \<and> cont_byte b \<or>
      byte_in 0xF4 0xF4 a \<and> byte_in 0x80 0x8F b)"

fun utf8_size :: "string \<Rightarrow> nat" where
  "utf8_size (a # s) =
     (if byte_in 0 0x7F a then 1
      else (case s of
        b # s \<Rightarrow> (if seq2 a b then 2
           else (case s of
             c # s \<Rightarrow> (if seq3 a b c then 3
                else (case s of d # s \<Rightarrow> if seq4 a b c d then 4 else 0 | [] \<Rightarrow> 0))
           | [] \<Rightarrow> 0))
      | [] \<Rightarrow> 0))"
| "utf8_size [] = 0"

declare utf8_size.simps [simp del]

definition utf8_encode :: "nat \<Rightarrow> string" where
  "utf8_encode r =
     (if r < 0x80 then [char_of r]
      else if r < 0x800 then [char_of (0xC0 + r div 64), char_of (0x80 + r mod 64)]
      else if r < 0x10000
      then [char_of (0xE0 + r div 4096), char_of (0x80 + r div 64 mod 64), char_of (0x80 + r mod 64)]
      else [char_of (0xF0 + r div 262144), char_of (0x80 + r div 4096 mod 64),
            char_of (0x80 + r div 64 mod 64), char_of (0x80 + r mod 64)])"

abbreviation replacement :: string where
  "replacement \<equiv> [CHR 0xEF, CHR 0xBF, CHR 0xBD]"

section \<open>Values and the scanner\<close>

datatype json =
  JsonNull | JsonBool bool | JsonNumber string | JsonString string |
  JsonArray "json list" | JsonObject "(string \<times> json) list"

text \<open>
  The text between the quotes of a string literal that the scanner has accepted, without its
  escapes. A surrogate that is not half of a pair, and each byte that is no UTF-8, becomes U+FFFD.
\<close>

definition is_hex :: "char \<Rightarrow> bool" where
  "is_hex c \<longleftrightarrow> byte_in 48 57 c \<or> byte_in 97 102 c \<or> byte_in 65 70 c"

definition hex4 :: "string \<Rightarrow> nat" where
  "hex4 s = base_val 16 (map lower_byte (take 4 s))"

definition high_surrogate :: "nat \<Rightarrow> bool" where
  "high_surrogate r \<longleftrightarrow> 0xD800 \<le> r \<and> r < 0xDC00"

definition low_surrogate :: "nat \<Rightarrow> bool" where
  "low_surrogate r \<longleftrightarrow> 0xDC00 \<le> r \<and> r < 0xE000"

text \<open>The rune of a next escape \<open>\u\<close>, as \<open>getu4\<close> reads it.\<close>

definition next_u4 :: "string \<Rightarrow> nat option" where
  "next_u4 s =
     (if has_prefix [CHR 0x5C, CHR ''u''] s \<and> 6 \<le> length s \<and> list_all is_hex (take 4 (drop 2 s))
      then Some (hex4 (drop 2 s)) else None)"

definition escape_char :: "char \<Rightarrow> char" where
  "escape_char e =
     (if e = CHR ''b'' then CHR 8 else if e = CHR ''f'' then CHR 12 else if e = CHR ''n'' then CHR 10
      else if e = CHR ''r'' then CHR 13 else if e = CHR ''t'' then CHR 9 else e)"

fun unquote :: "string \<Rightarrow> string" where
  "unquote [] = []"
| "unquote (c # cs) =
     (if c = CHR 0x5C then
        (case cs of
           [] \<Rightarrow> []
         | e # es \<Rightarrow>
             if e = CHR ''u'' then
               (let r = hex4 es; es = drop 4 es in
                if high_surrogate r \<or> low_surrogate r then
                  (case next_u4 es of
                     None \<Rightarrow> replacement @ unquote es
                   | Some r' \<Rightarrow>
                       if high_surrogate r \<and> low_surrogate r'
                       then utf8_encode (0x10000 + (r - 0xD800) * 1024 + (r' - 0xDC00)) @ unquote (drop 6 es)
                       else replacement @ unquote es)
                else utf8_encode r @ unquote es)
             else escape_char e # unquote es)
      else if utf8_size (c # cs) = 0 then replacement @ unquote cs
      else take (utf8_size (c # cs)) (c # cs) @ unquote (drop (utf8_size (c # cs) - 1) cs))"

declare unquote.simps [simp del]

text \<open>An object or array that is open, with what it holds so far; \<open>Some k\<close> is a key without value.\<close>

datatype json_frame = InArray "json list" | InObject "(string \<times> json) list" "string option"

datatype num_phase = NumNeg | NumZero | NumInt | NumDot | NumFrac | NumE | NumESign | NumExp

datatype scan_mode =
  BeginValue | BeginElem | BeginKeyOrEnd | BeginKey | WantColon | EndValue | EndTop json |
  InStr string | InEsc string | InU nat string | InNum num_phase string | InLit string json

type_synonym scanner = "scan_mode \<times> json_frame list"

definition json_space :: "char \<Rightarrow> bool" where
  "json_space c \<longleftrightarrow> c = CHR '' '' \<or> c = CHR 9 \<or> c = CHR 13 \<or> c = CHR 10"

definition is_digit :: "char \<Rightarrow> bool" where
  "is_digit c \<longleftrightarrow> byte_in 48 57 c"

text \<open>A value is complete; in an object that waits for a key it is the key.\<close>

fun finish_value :: "json \<Rightarrow> json_frame list \<Rightarrow> scanner" where
  "finish_value v [] = (EndTop v, [])"
| "finish_value v (InArray vs # st) = (EndValue, InArray (vs @ [v]) # st)"
| "finish_value v (InObject ms (Some k) # st) = (EndValue, InObject (ms @ [(k, v)]) None # st)"
| "finish_value v (InObject ms None # st) =
     (WantColon, InObject ms (Some (case v of JsonString k \<Rightarrow> k | _ \<Rightarrow> [])) # st)"

definition max_nesting :: nat where "max_nesting = 10000"

definition push_frame :: "json_frame \<Rightarrow> scan_mode \<Rightarrow> json_frame list \<Rightarrow> scanner option" where
  "push_frame f m st = (if length st < max_nesting then Some (m, f # st) else None)"

definition num_begin :: "char \<Rightarrow> num_phase option" where
  "num_begin c =
     (if c = CHR ''-'' then Some NumNeg else if c = CHR ''0'' then Some NumZero
      else if is_digit c then Some NumInt else None)"

definition begin_value :: "json_frame list \<Rightarrow> char \<Rightarrow> scanner option" where
  "begin_value st c =
     (if c = CHR ''{'' then push_frame (InObject [] None) BeginKeyOrEnd st
      else if c = CHR ''['' then push_frame (InArray []) BeginElem st
      else if c = CHR 0x22 then Some (InStr [], st)
      else if num_begin c \<noteq> None then Some (InNum (the (num_begin c)) [c], st)
      else if c = CHR ''t'' then Some (InLit ''rue'' (JsonBool True), st)
      else if c = CHR ''f'' then Some (InLit ''alse'' (JsonBool False), st)
      else if c = CHR ''n'' then Some (InLit ''ull'' JsonNull, st)
      else None)"

fun end_value :: "json_frame list \<Rightarrow> char \<Rightarrow> scanner option" where
  "end_value [] c = None"
| "end_value (InArray vs # st) c =
     (if c = CHR '','' then Some (BeginValue, InArray vs # st)
      else if c = CHR '']'' then Some (finish_value (JsonArray vs) st) else None)"
| "end_value (InObject ms k # st) c =
     (if c = CHR '','' then Some (BeginKey, InObject ms k # st)
      else if c = CHR ''}'' then Some (finish_value (JsonObject ms) st) else None)"

text \<open>The state of the scanner after a complete value reads a byte.\<close>

definition after_value :: "scanner \<Rightarrow> char \<Rightarrow> scanner option" where
  "after_value s c =
     (if json_space c then Some s
      else case s of (EndValue, st) \<Rightarrow> end_value st c
           | (WantColon, st) \<Rightarrow> if c = CHR '':'' then Some (BeginValue, st) else None
           | _ \<Rightarrow> None)"

definition num_step :: "num_phase \<Rightarrow> char \<Rightarrow> num_phase option" where
  "num_step p c =
     (case p of
        NumNeg \<Rightarrow> if c = CHR ''0'' then Some NumZero else if is_digit c then Some NumInt else None
      | NumZero \<Rightarrow> if c = CHR ''.'' then Some NumDot else if c \<in> {CHR ''e'', CHR ''E''} then Some NumE else None
      | NumInt \<Rightarrow> if is_digit c then Some NumInt else if c = CHR ''.'' then Some NumDot
          else if c \<in> {CHR ''e'', CHR ''E''} then Some NumE else None
      | NumDot \<Rightarrow> if is_digit c then Some NumFrac else None
      | NumFrac \<Rightarrow> if is_digit c then Some NumFrac else if c \<in> {CHR ''e'', CHR ''E''} then Some NumE else None
      | NumE \<Rightarrow> if c \<in> {CHR ''+'', CHR ''-''} then Some NumESign else if is_digit c then Some NumExp else None
      | NumESign \<Rightarrow> if is_digit c then Some NumExp else None
      | NumExp \<Rightarrow> if is_digit c then Some NumExp else None)"

definition num_complete :: "num_phase \<Rightarrow> bool" where
  "num_complete p \<longleftrightarrow> p \<in> {NumZero, NumInt, NumFrac, NumExp}"

fun scan_step :: "scanner \<Rightarrow> char \<Rightarrow> scanner option" where
  "scan_step (BeginValue, st) c = (if json_space c then Some (BeginValue, st) else begin_value st c)"
| "scan_step (BeginElem, st) c =
     (if json_space c then Some (BeginElem, st) else if c = CHR '']'' then end_value st c
      else begin_value st c)"
| "scan_step (BeginKeyOrEnd, st) c =
     (if json_space c then Some (BeginKeyOrEnd, st) else if c = CHR ''}'' then end_value st c
      else if c = CHR 0x22 then Some (InStr [], st) else None)"
| "scan_step (BeginKey, st) c =
     (if json_space c then Some (BeginKey, st)
      else if c = CHR 0x22 then Some (InStr [], st) else None)"
| "scan_step (InStr raw, st) c =
     (if c = CHR 0x22 then Some (finish_value (JsonString (unquote raw)) st)
      else if c = CHR 0x5C then Some (InEsc (raw @ [c]), st)
      else if byte_in 0 31 c then None else Some (InStr (raw @ [c]), st))"
| "scan_step (InEsc raw, st) c =
     (if c = CHR ''u'' then Some (InU 4 (raw @ [c]), st)
      else if c \<in> set ''bfnrt/'' \<union> {CHR 0x22, CHR 0x5C} then Some (InStr (raw @ [c]), st) else None)"
| "scan_step (InU n raw, st) c =
     (if is_hex c then Some (if n \<le> 1 then InStr (raw @ [c]) else InU (n - 1) (raw @ [c]), st) else None)"
| "scan_step (InNum p raw, st) c =
     (case num_step p c of
        Some p' \<Rightarrow> Some (InNum p' (raw @ [c]), st)
      | None \<Rightarrow> if num_complete p then after_value (finish_value (JsonNumber raw) st) c else None)"
| "scan_step (InLit rest v, st) c =
     (case rest of
        [] \<Rightarrow> None
      | d # ds \<Rightarrow> if c \<noteq> d then None else if ds = [] then Some (finish_value v st) else Some (InLit ds v, st))"
| "scan_step s c = after_value s c"

fun scan_all :: "scanner option \<Rightarrow> string \<Rightarrow> scanner option" where
  "scan_all None s = None"
| "scan_all m [] = m"
| "scan_all (Some m) (c # s) = scan_all (scan_step m c) s"

definition parse_json :: "string \<Rightarrow> json option" where
  "parse_json s =
     (case scan_all (Some (BeginValue, [])) (s @ '' '') of
        Some (EndTop v, st) \<Rightarrow> Some v
      | _ \<Rightarrow> None)"

lemma parse_json_samples:
  "parse_json '' { } '' = Some (JsonObject [])"
  "parse_json ''[1, -0.5e+3,true]'' = Some (JsonArray [JsonNumber ''1'', JsonNumber ''-0.5e+3'', JsonBool True])"
  "parse_json ''01'' = None" "parse_json ''[1,]'' = None" "parse_json '''' = None"
  "parse_json ''null null'' = None"
  by (simp_all add: parse_json_def num_begin_def begin_value_def push_frame_def max_nesting_def json_space_def
      after_value_def is_digit_def byte_in_def num_step_def num_complete_def)

section \<open>The writer\<close>

definition escape_byte :: "char \<Rightarrow> string" where
  "escape_byte c =
     (if c = CHR 0x22 \<or> c = CHR 0x5C then [CHR 0x5C, c]
      else if c = CHR 8 then [CHR 0x5C, CHR ''b''] else if c = CHR 12 then [CHR 0x5C, CHR ''f'']
      else if c = CHR 10 then [CHR 0x5C, CHR ''n''] else if c = CHR 13 then [CHR 0x5C, CHR ''r'']
      else if c = CHR 9 then [CHR 0x5C, CHR ''t'']
      else if byte_in 0 31 c \<or> c \<in> {CHR ''<'', CHR ''>'', CHR ''&''}
      then [CHR 0x5C, CHR ''u'', CHR ''0'', CHR ''0''] @ hex_byte (of_char c)
      else [c])"

definition line_separator :: "string \<Rightarrow> bool" where
  "line_separator s \<longleftrightarrow> take 2 s = [CHR 0xE2, CHR 0x80] \<and> s ! 2 \<in> {CHR 0xA8, CHR 0xA9}"

fun quote_body :: "string \<Rightarrow> string" where
  "quote_body [] = []"
| "quote_body (c # cs) =
     (let n = utf8_size (c # cs) in
      if n = 0 then [CHR 0x5C] @ ''ufffd'' @ quote_body cs
      else if n = 1 then escape_byte c @ quote_body cs
      else if n = 3 \<and> line_separator (c # cs)
      then [CHR 0x5C] @ ''u202'' @ [if cs ! 1 = CHR 0xA8 then CHR ''8'' else CHR ''9''] @ quote_body (drop 2 cs)
      else take n (c # cs) @ quote_body (drop (n - 1) cs))"

definition json_quote :: "string \<Rightarrow> string" where
  "json_quote s = [CHR 0x22] @ quote_body s @ [CHR 0x22]"

text \<open>A value without white space, as \<open>json.Marshal\<close> renders it.\<close>

fun render_json :: "json \<Rightarrow> string" where
  "render_json JsonNull = ''null''"
| "render_json (JsonBool b) = (if b then ''true'' else ''false'')"
| "render_json (JsonNumber raw) = raw"
| "render_json (JsonString s) = json_quote s"
| "render_json (JsonArray vs) = ''['' @ str_join '','' (map render_json vs) @ '']''"
| "render_json (JsonObject ms) =
     ''{'' @ str_join '','' (map (\<lambda>(k, v). json_quote k @ '':'' @ render_json v) ms) @ ''}''"

section \<open>Reading back what was written\<close>

fun valid_utf8 :: "string \<Rightarrow> bool" where
  "valid_utf8 [] = True"
| "valid_utf8 (c # cs) = (utf8_size (c # cs) \<noteq> 0 \<and> valid_utf8 (drop (utf8_size (c # cs) - 1) cs))"

text \<open>A text with each byte that is no UTF-8 replaced, which is what writing and reading leaves of it.\<close>

fun clean_text :: "string \<Rightarrow> string" where
  "clean_text [] = []"
| "clean_text (c # cs) =
     (let n = utf8_size (c # cs) in
      if n = 0 then replacement @ clean_text cs
      else take n (c # cs) @ clean_text (drop (n - 1) cs))"

lemma utf8_size_le: "utf8_size s \<le> length s \<and> utf8_size s \<le> 4"
  by (cases s rule: utf8_size.cases) (auto simp: utf8_size.simps split: list.split)

lemma utf8_size_1: "utf8_size (c # cs) = 1 \<longleftrightarrow> byte_in 0 127 c"
  by (auto simp: utf8_size.simps split: list.splits if_splits)

lemma utf8_size_take: "utf8_size s = n \<Longrightarrow> 0 < n \<Longrightarrow> utf8_size (take n s @ r) = n"
  by (cases s rule: utf8_size.cases) (auto simp: utf8_size.simps split: list.splits if_splits)

lemma seq_high:
  "seq2 a b \<Longrightarrow> byte_in 128 255 a \<and> byte_in 128 255 b"
  "seq3 a b c \<Longrightarrow> byte_in 128 255 a \<and> byte_in 128 255 b \<and> byte_in 128 255 c"
  "seq4 a b c d \<Longrightarrow> byte_in 128 255 a \<and> byte_in 128 255 b \<and> byte_in 128 255 c \<and> byte_in 128 255 d"
  by (auto simp: seq2_def seq3_def seq4_def byte_in_def)

lemma utf8_size_high: "1 < utf8_size s \<Longrightarrow> \<forall>c \<in> set (take (utf8_size s) s). byte_in 128 255 c"
  by (cases s rule: utf8_size.cases)
    (auto simp: utf8_size.simps dest: seq_high split: list.splits if_splits)

subsection \<open>Strings\<close>

lemma unat_of_char: "unat (of_char c :: byte) = of_char c"
proof -
  have "unat (of_nat (of_char c) :: byte) = of_char c"
    by (simp only: unat_of_nat) simp
  then show ?thesis by (simp only: of_nat_of_char)
qed

lemma hex_digit_lower: "n < 16 \<Longrightarrow> lower_byte (hex_digit n) = hex_digit n"
proof -
  assume "n < 16"
  then have "n \<in> set [0..<16]" by simp
  moreover have "\<forall>n \<in> set [0..<16]. lower_byte (hex_digit n) = hex_digit n"
    by (simp add: upt_rec hex_digit_def hextable_def lower_byte_def)
  ultimately show ?thesis by blast
qed

lemma nibbles_sum: "unat (drop_bit 4 v) * 16 + unat (v AND 15 :: byte) = unat v"
proof -
  have "v AND 15 = take_bit 4 v" by (simp add: take_bit_eq_mask mask_eq_exp_minus_1)
  then have "unat (v AND 15) = unat v mod 16" by (simp add: take_bit_eq_mod unat_mod)
  moreover have "unat (drop_bit 4 v) = unat v div 16" by (simp add: drop_bit_eq_div unat_div)
  ultimately show ?thesis by simp
qed

lemma hex4_byte: "hex4 (CHR ''0'' # CHR ''0'' # hex_byte (of_char c) @ t) = of_char c"
proof -
  have d0: "lower_byte CHR ''0'' = CHR ''0''" "digit_val CHR ''0'' = 0"
    by (simp_all add: lower_byte_def digit_val_def hextable_def)
  show ?thesis
    using nibbles_sum [of "of_char c"] nibble_bounds [of "of_char c"]
    by (simp add: hex4_def hex_byte_def base_val_def hex_digit_lower digit_val_hex_digit unat_of_char d0)
qed

lemma byte_in_range: "byte_in lo hi c \<Longrightarrow> c = char_of (of_char c :: nat) \<and> (of_char c :: nat) \<le> hi"
  by (simp add: byte_in_def)

lemma unquote_escape: "byte_in 0 127 c \<Longrightarrow> unquote (escape_byte c @ t) = c # unquote t"
proof -
  assume c: "byte_in 0 127 c"
  have size: "utf8_size (c # t) = 1" using c utf8_size_1 by simp
  have u: "unquote ([CHR 0x5C, CHR ''u'', CHR ''0'', CHR ''0''] @ hex_byte (of_char c) @ t) = c # unquote t"
    using c by (simp add: unquote.simps(2) hex4_byte high_surrogate_def low_surrogate_def byte_in_def
        utf8_encode_def hex_byte_def) (simp add: hex4_byte [unfolded hex_byte_def, simplified] utf8_encode_def)
  show ?thesis
    using u size by (auto simp: escape_byte_def unquote.simps(2) escape_char_def)
qed

lemma unquote_chunk:
  assumes "utf8_size s = n" and "1 < n"
  shows "unquote (take n s @ t) = take n s @ unquote t"
proof -
  obtain c cs where s: "s = c # cs" using assms by (cases s) (auto simp: utf8_size.simps)
  have n: "utf8_size (take n s @ t) = n" using assms utf8_size_take [of s n t] by simp
  have len: "n \<le> length s" using utf8_size_le [of s] assms(1) by simp
  have "byte_in 128 255 c" using utf8_size_high [of s] assms s by (cases n) auto
  then have "c \<noteq> CHR 0x5C" by (auto simp: byte_in_def)
  moreover obtain m where m: "n = Suc m" using assms(2) by (cases n) auto
  ultimately show ?thesis
    using n len by (simp add: s unquote.simps(2))
qed

lemma hex4_separators: "hex4 (''2028'' @ t) = 0x2028" "hex4 (''2029'' @ t) = 0x2029"
  by (simp_all add: hex4_def base_val_def lower_byte_def digit_val_def hextable_def)

lemma separator_bytes:
  "char_of (226 :: nat) = CHR 0xE2" "char_of (128 :: nat) = CHR 0x80"
  "char_of (168 :: nat) = CHR 0xA8" "char_of (169 :: nat) = CHR 0xA9"
  and replacement_bytes:
  "char_of (239 :: nat) = CHR 0xEF" "char_of (191 :: nat) = CHR 0xBF" "char_of (189 :: nat) = CHR 0xBD"
  by (simp_all add: char_of_def bit_0)

lemma unquote_separator:
  "d \<in> {CHR 0xA8, CHR 0xA9} \<Longrightarrow>
     unquote ([CHR 0x5C] @ ''u202'' @ [if d = CHR 0xA8 then CHR ''8'' else CHR ''9''] @ t) =
       [CHR 0xE2, CHR 0x80, d] @ unquote t"
  using hex4_separators [of t]
  by (auto simp: unquote.simps(2) high_surrogate_def low_surrogate_def utf8_encode_def
      separator_bytes)

lemma unquote_replacement: "unquote (CHR 0x5C # ''ufffd'' @ t) = replacement @ unquote t"
proof -
  have "hex4 (''fffd'' @ t) = 0xFFFD"
    by (simp add: hex4_def base_val_def lower_byte_def digit_val_def hextable_def)
  then show ?thesis
    by (simp add: unquote.simps(2) high_surrogate_def low_surrogate_def utf8_encode_def replacement_bytes)
qed

theorem unquote_quote: "unquote (quote_body s) = clean_text s"
proof (induction s rule: quote_body.induct)
  case (2 c cs)
  note IH = 2
  let ?n = "utf8_size (c # cs)"
  have clean: "clean_text (c # cs) = take ?n (c # cs) @ clean_text (drop (?n - 1) cs)" if "?n \<noteq> 0"
    using that by (simp add: Let_def)
  consider "?n = 0" | "?n = 1" | "?n = 3" "line_separator (c # cs)"
    | "1 < ?n" "\<not> (?n = 3 \<and> line_separator (c # cs))" by linarith
  then show ?case
  proof cases
    case 1
    then show ?thesis using IH(1) unquote_replacement by simp
  next
    case 2
    then show ?thesis using IH(2) unquote_escape [of c] utf8_size_1 [of c cs] by simp
  next
    case 3
    then obtain d t where cs: "c = CHR 0xE2" "cs = CHR 0x80 # d # t" "d \<in> {CHR 0xA8, CHR 0xA9}"
      using utf8_size_le [of "c # cs"]
      by (cases cs; cases "tl cs") (auto simp: line_separator_def)
    then show ?thesis using IH(3) 3
      by (auto simp: unquote_separator [simplified])
  next
    case 4
    then have "quote_body (c # cs) = take ?n (c # cs) @ quote_body (drop (?n - 1) cs)"
      by (auto simp: Let_def)
    then show ?thesis
      using IH(4) 4 clean unquote_chunk [of "c # cs" ?n "quote_body (drop (?n - 1) cs)"]
      by (auto simp del: quote_body.simps clean_text.simps)
  qed
qed (simp add: unquote.simps)

lemma clean_valid: "valid_utf8 s \<Longrightarrow> clean_text s = s"
proof (induction s rule: valid_utf8.induct)
  case (2 c cs)
  then have "clean_text (c # cs) = take (utf8_size (c # cs)) (c # cs) @ drop (utf8_size (c # cs) - 1) cs"
    by (simp add: Let_def)
  then show ?case using 2 by (cases "utf8_size (c # cs)") simp_all
qed simp

subsection \<open>The scanner on strings and numbers\<close>

definition passes :: "string \<Rightarrow> bool" where
  "passes p \<longleftrightarrow> (\<forall>raw st t. scan_all (Some (InStr raw, st)) (p @ t) = scan_all (Some (InStr (raw @ p), st)) t)"

lemma passes_Nil: "passes []"
  by (simp add: passes_def)

lemma passes_append: "passes p \<Longrightarrow> passes q \<Longrightarrow> passes (p @ q)"
  by (simp add: passes_def)

lemma passes_plain: "\<forall>c \<in> set p. byte_in 32 255 c \<and> c \<noteq> CHR 0x22 \<and> c \<noteq> CHR 0x5C \<Longrightarrow> passes p"
proof (induction p)
  case (Cons c p)
  then have "passes [c]" by (auto simp: passes_def byte_in_def)
  moreover have "passes p" using Cons by simp
  ultimately show ?case using passes_append [of "[c]" p] by simp
qed (rule passes_Nil)

lemma passes_escape: "e \<in> set ''bfnrt/'' \<union> {CHR 0x22, CHR 0x5C} \<Longrightarrow> passes [CHR 0x5C, e]"
  by (auto simp: passes_def)

lemma passes_unicode: "list_all is_hex [a, b, c, d] \<Longrightarrow> passes [CHR 0x5C, CHR ''u'', a, b, c, d]"
  by (auto simp: passes_def)

lemma hextable_is_hex: "c \<in> set hextable \<Longrightarrow> is_hex c"
  by (auto simp: hextable_def is_hex_def byte_in_def)

lemma hex_byte_is_hex: "list_all is_hex (hex_byte v)"
  using nibble_bounds [of v] by (simp add: hex_byte_def hextable_is_hex hex_digit_in)

lemma passes_escape_byte: "passes (escape_byte c)"
proof -
  have z: "is_hex CHR ''0''" by (simp add: is_hex_def byte_in_def)
  have "passes ([CHR 0x5C, CHR ''u'', CHR ''0'', CHR ''0''] @ hex_byte (of_char c))"
    using passes_unicode [of "CHR ''0''" "CHR ''0''"] hex_byte_is_hex [of "of_char c"] z
    by (simp add: hex_byte_def)
  then show ?thesis
    using passes_plain [of "[c]"] nat_of_char_less_256 [of c] by (auto simp: escape_byte_def passes_escape byte_in_def)
qed

lemma passes_quote_body: "passes (quote_body s)"
proof (induction s rule: quote_body.induct)
  case (2 c cs)
  note IH = 2
  let ?n = "utf8_size (c # cs)"
  consider "?n = 0" | "?n = 1" | "?n = 3" "line_separator (c # cs)"
    | "1 < ?n" "\<not> (?n = 3 \<and> line_separator (c # cs))" by linarith
  then show ?case
  proof cases
    case 1
    have "passes (CHR 0x5C # ''ufffd'')"
      using passes_unicode [of "CHR ''f''" "CHR ''f''" "CHR ''f''" "CHR ''d''"]
      by (simp add: is_hex_def byte_in_def)
    from passes_append [OF this IH(1)] 1 show ?thesis by simp
  next
    case 2
    then show ?thesis using passes_append [OF passes_escape_byte IH(2)] by simp
  next
    case 3
    have "passes ([CHR 0x5C] @ ''u202'' @ [if cs ! 1 = CHR 0xA8 then CHR ''8'' else CHR ''9''])"
      using passes_unicode [of "CHR ''2''" "CHR ''0''" "CHR ''2''" "CHR ''8''"]
        passes_unicode [of "CHR ''2''" "CHR ''0''" "CHR ''2''" "CHR ''9''"]
      by (simp add: is_hex_def byte_in_def)
    from passes_append [OF this IH(3)] 3 show ?thesis by simp
  next
    case 4
    have "passes (take ?n (c # cs))"
      using utf8_size_high [of "c # cs"] 4(1) by (intro passes_plain) (auto simp: byte_in_def)
    from passes_append [OF this IH(4)] 4 show ?thesis by (auto simp: Let_def)
  qed
qed (simp add: passes_Nil)

text \<open>What can follow a value: the scanner sees there that a number has ended.\<close>

definition delimiter :: "char \<Rightarrow> bool" where
  "delimiter c \<longleftrightarrow> c \<in> set '',]} '' \<or> c = CHR 0x0A"

lemma delimiters: "delimiter CHR '',''" "delimiter CHR '']''" "delimiter CHR ''}''" "delimiter CHR '' ''"
  "delimiter CHR 0x0A"
  by (simp_all add: delimiter_def)

lemma finish_step: "scan_step (finish_value v st) c = after_value (finish_value v st) c"
  by (cases "(v, st)" rule: finish_value.cases) auto

fun num_phases :: "num_phase \<Rightarrow> string \<Rightarrow> num_phase option" where
  "num_phases p [] = Some p"
| "num_phases p (c # cs) = (case num_step p c of None \<Rightarrow> None | Some q \<Rightarrow> num_phases q cs)"

fun is_number :: "string \<Rightarrow> bool" where
  "is_number [] = False"
| "is_number (c # cs) =
     (case num_begin c of
        None \<Rightarrow> False
      | Some p \<Rightarrow> (case num_phases p cs of None \<Rightarrow> False | Some q \<Rightarrow> num_complete q))"

lemma num_step_delimiter: "delimiter c \<Longrightarrow> num_step p c = None"
  by (cases p) (auto simp: delimiter_def num_step_def is_digit_def byte_in_def)

lemma scan_phases:
  assumes "num_complete q" and "delimiter c"
  shows "num_phases p cs = Some q \<Longrightarrow> scan_all (Some (InNum p raw, st)) (cs @ c # t) =
    scan_all (Some (finish_value (JsonNumber (raw @ cs)) st)) (c # t)"
proof (induction cs arbitrary: p raw)
  case Nil
  then show ?case using assms by (simp add: num_step_delimiter finish_step)
qed (auto split: option.splits)

subsection \<open>Whole values\<close>

fun json_ok :: "json \<Rightarrow> bool" where
  "json_ok (JsonNumber raw) = is_number raw"
| "json_ok (JsonArray vs) = list_all json_ok vs"
| "json_ok (JsonObject ms) = list_all (\<lambda>(k, v). json_ok v) ms"
| "json_ok v = True"

fun json_depth :: "json \<Rightarrow> nat" where
  "json_depth (JsonArray vs) = Suc (foldr max (map json_depth vs) 0)"
| "json_depth (JsonObject ms) = Suc (foldr max (map (\<lambda>(k, v). json_depth v) ms) 0)"
| "json_depth v = 0"

lemma foldr_max_le: "foldr max ns (0 :: nat) \<le> m \<longleftrightarrow> (\<forall>n \<in> set ns. n \<le> m)"
  by (induction ns) auto

fun clean_json :: "json \<Rightarrow> json" where
  "clean_json (JsonString s) = JsonString (clean_text s)"
| "clean_json (JsonArray vs) = JsonArray (map clean_json vs)"
| "clean_json (JsonObject ms) = JsonObject (map (\<lambda>(k, v). (clean_text k, clean_json v)) ms)"
| "clean_json v = v"

text \<open>The scanner, with at most \<open>d\<close> frames open, reads \<open>v\<close> where a value begins.\<close>

definition reads :: "nat \<Rightarrow> json \<Rightarrow> bool" where
  "reads d v \<longleftrightarrow> (\<forall>st c t. length st \<le> d \<longrightarrow> delimiter c \<longrightarrow>
     scan_all (Some (BeginValue, st)) (render_json v @ c # t) = scan_all (Some (finish_value (clean_json v) st)) (c # t))"

lemma readsD: "reads d v \<Longrightarrow> length st \<le> d \<Longrightarrow> delimiter c \<Longrightarrow>
    scan_all (Some (BeginValue, st)) (render_json v @ c # t) = scan_all (Some (finish_value (clean_json v) st)) (c # t)"
  by (simp add: reads_def)

lemma scan_string:
  "scan_all (Some (InStr [], st)) (quote_body s @ CHR 0x22 # t) =
     scan_all (Some (finish_value (JsonString (clean_text s)) st)) t"
  using passes_quote_body [of s] by (simp add: passes_def unquote_quote)

lemma scan_elems:
  assumes "\<forall>v \<in> set vs. reads (Suc (length st)) v" and "vs \<noteq> []"
  shows "scan_all (Some (BeginValue, InArray acc # st)) (str_join '','' (map render_json vs) @ CHR '']'' # t) =
    scan_all (Some (finish_value (JsonArray (acc @ map clean_json vs)) st)) t"
  using assms
proof (induction vs arbitrary: acc)
  case (Cons v vs)
  then have v: "\<And>acc c t. delimiter c \<Longrightarrow> scan_all (Some (BeginValue, InArray acc # st)) (render_json v @ c # t) =
      scan_all (Some (EndValue, InArray (acc @ [clean_json v]) # st)) (c # t)"
    using readsD [of "Suc (length st)" v "InArray _ # st"] by simp
  show ?case
  proof (cases vs)
    case Nil
    then show ?thesis using v [OF delimiters(2)] by (simp add: after_value_def json_space_def)
  next
    case (Cons w ws)
    then show ?thesis using v [OF delimiters(1)] Cons.IH [of "acc @ [clean_json v]"] Cons.prems
      by (simp add: after_value_def json_space_def)
  qed
qed simp

lemma scan_members:
  assumes "\<forall>(k, v) \<in> set ms. reads (Suc (length st)) v" and "ms \<noteq> []"
  shows "m \<in> {BeginKey, BeginKeyOrEnd} \<Longrightarrow> scan_all (Some (m, InObject acc None # st))
      (str_join '','' (map (\<lambda>(k, v). json_quote k @ '':'' @ render_json v) ms) @ CHR ''}'' # t) =
    scan_all (Some (finish_value (JsonObject (acc @ map (\<lambda>(k, v). (clean_text k, clean_json v)) ms)) st)) t"
  using assms
proof (induction ms arbitrary: acc m)
  case (Cons kv ms)
  obtain k v where kv: "kv = (k, v)" by (cases kv)
  have v: "\<And>acc k c t. delimiter c \<Longrightarrow> scan_all (Some (BeginValue, InObject acc (Some k) # st)) (render_json v @ c # t) =
      scan_all (Some (EndValue, InObject (acc @ [(k, clean_json v)]) None # st)) (c # t)"
    using Cons.prems kv readsD [of "Suc (length st)" v "InObject _ (Some _) # st"] by simp
  have key: "scan_all (Some (m, InObject acc None # st)) (json_quote k @ CHR '':'' # u) =
      scan_all (Some (BeginValue, InObject acc (Some (clean_text k)) # st)) u" for u
    using scan_string [of "InObject acc None # st" k "CHR '':'' # u"] Cons.prems(1)
    by (auto simp: json_quote_def json_space_def after_value_def)
  show ?case
  proof (cases ms)
    case Nil
    then show ?thesis using key v [OF delimiters(3)] by (simp add: kv after_value_def json_space_def)
  next
    case (Cons w ws)
    then show ?thesis using key v [OF delimiters(1)] Cons.IH [of BeginKey "acc @ [(clean_text k, clean_json v)]"] Cons.prems
      by (simp add: kv after_value_def json_space_def)
  qed
qed simp

lemma num_begin_head:
  "num_begin c = Some p \<Longrightarrow> c \<notin> {CHR '']'', CHR ''{'', CHR ''['', CHR 0x22} \<and> \<not> json_space c"
  by (auto simp: num_begin_def json_space_def is_digit_def byte_in_def split: if_splits)

lemma render_head:
  "json_ok v \<Longrightarrow> \<exists>c cs. render_json v = c # cs \<and> c \<noteq> CHR '']'' \<and> \<not> json_space c"
proof (cases v)
  case (JsonNumber raw)
  assume "json_ok v"
  with JsonNumber show ?thesis
    by (cases raw) (auto dest: num_begin_head split: option.splits)
qed (auto simp: json_quote_def json_space_def)

lemma begin_elem:
  "c \<noteq> CHR '']'' \<Longrightarrow> \<not> json_space c \<Longrightarrow>
     scan_all (Some (BeginElem, st)) (c # cs) = scan_all (Some (BeginValue, st)) (c # cs)"
  by simp

lemma reads_number: "is_number raw \<Longrightarrow> reads d (JsonNumber raw)"
proof (cases raw)
  case (Cons r rs)
  assume "is_number raw"
  then obtain p q where p: "num_begin r = Some p" "num_phases p rs = Some q" "num_complete q"
    using Cons by (auto split: option.splits)
  then show ?thesis
    using scan_phases [OF p(3) _ p(2)] num_begin_head [OF p(1)]
    by (simp add: Cons reads_def begin_value_def)
qed simp

lemma reads_mono: "reads d v \<Longrightarrow> n \<le> d \<Longrightarrow> reads n v"
  by (simp add: reads_def)

lemma reads_array:
  assumes "\<forall>v \<in> set vs. json_ok v \<and> reads (Suc d) v" and "d < max_nesting"
  shows "reads d (JsonArray vs)"
  unfolding reads_def
proof (intro allI impI)
  fix st :: "json_frame list" and c t
  assume st: "length st \<le> d" and c: "delimiter c"
  have push: "push_frame (InArray []) BeginElem st = Some (BeginElem, InArray [] # st)"
    using st assms(2) by (simp add: push_frame_def)
  have elems: "\<forall>v \<in> set vs. reads (Suc (length st)) v"
    using assms(1) st reads_mono by fastforce
  show "scan_all (Some (BeginValue, st)) (render_json (JsonArray vs) @ c # t) =
      scan_all (Some (finish_value (clean_json (JsonArray vs)) st)) (c # t)"
  proof (cases vs)
    case Nil
    then show ?thesis using push by (simp add: begin_value_def json_space_def)
  next
    case (Cons v ws)
    then obtain a as where a: "render_json v = a # as" "a \<noteq> CHR '']''" "\<not> json_space a"
      using assms(1) render_head [of v] by auto
    then obtain bs where bs: "str_join '','' (map render_json vs) = a # bs"
      using Cons by (cases ws) auto
    from scan_elems [OF elems, of "[]" "c # t"] Cons bs a push show ?thesis
      by (simp add: begin_value_def json_space_def)
  qed
qed

lemma reads_object:
  assumes "\<forall>(k, v) \<in> set ms. reads (Suc d) v" and "d < max_nesting"
  shows "reads d (JsonObject ms)"
  unfolding reads_def
proof (intro allI impI)
  fix st :: "json_frame list" and c t
  assume st: "length st \<le> d" and c: "delimiter c"
  have push: "push_frame (InObject [] None) BeginKeyOrEnd st = Some (BeginKeyOrEnd, InObject [] None # st)"
    using st assms(2) by (simp add: push_frame_def)
  have elems: "\<forall>(k, v) \<in> set ms. reads (Suc (length st)) v"
    using assms(1) st reads_mono by fastforce
  show "scan_all (Some (BeginValue, st)) (render_json (JsonObject ms) @ c # t) =
      scan_all (Some (finish_value (clean_json (JsonObject ms)) st)) (c # t)"
  proof (cases "ms = []")
    case True
    then show ?thesis using push by (simp add: begin_value_def json_space_def)
  next
    case False
    from scan_members [OF elems this, of BeginKeyOrEnd "[]" "c # t"] push show ?thesis
      by (simp add: begin_value_def json_space_def)
  qed
qed

lemma reads_value: "json_ok v \<Longrightarrow> json_depth v + d \<le> max_nesting \<Longrightarrow> reads d v"
proof (induction v arbitrary: d)
  case (JsonNumber raw)
  then show ?case by (simp add: reads_number)
next
  case (JsonString s)
  then show ?case
    by (simp add: reads_def json_quote_def begin_value_def json_space_def scan_string)
next
  case (JsonArray vs)
  have "json_ok v \<and> reads (Suc d) v" if v: "v \<in> set vs" for v
  proof -
    have "json_depth v \<le> foldr max (map json_depth vs) 0"
      using foldr_max_le [of "map json_depth vs"] v by force
    then show ?thesis using JsonArray v by (simp add: list_all_iff)
  qed
  then show ?case using JsonArray.prems by (intro reads_array) auto
next
  case (JsonObject ms)
  have "reads (Suc d) v" if v: "(k, v) \<in> set ms" for k v
  proof -
    have "json_depth v \<le> foldr max (map (\<lambda>(k, v). json_depth v) ms) 0"
      using foldr_max_le [of "map (\<lambda>(k, v). json_depth v) ms"] v by force
    moreover have "json_ok v" using JsonObject.prems v by (auto simp: list_all_iff)
    ultimately show ?thesis using JsonObject.IH [OF v] JsonObject.prems by (simp add: snds.simps)
  qed
  then show ?case using JsonObject.prems by (intro reads_object) auto
qed (simp_all add: reads_def begin_value_def num_begin_def json_space_def is_digit_def byte_in_def)

text \<open>What the writer renders the scanner reads back.\<close>

theorem parse_render:
  assumes "json_ok v" and "json_depth v \<le> max_nesting"
  shows "parse_json (render_json v) = Some (clean_json v)"
proof -
  have "reads 0 v" by (rule reads_value) (use assms in simp_all)
  from readsD [OF this, of "[]" "CHR '' ''" "[]"] show ?thesis
    by (simp add: parse_json_def delimiters after_value_def json_space_def)
qed

text \<open>The same with the newline that \<open>Encoder.Encode\<close> adds.\<close>

lemma parse_render_line:
  assumes "json_ok v" and "json_depth v \<le> max_nesting"
  shows "parse_json (render_json v @ [CHR 0x0A]) = Some (clean_json v)"
proof -
  have "reads 0 v" by (rule reads_value) (use assms in simp_all)
  from readsD [OF this, of "[]" "CHR 0x0A" "'' ''"] show ?thesis
    by (simp add: parse_json_def delimiters after_value_def json_space_def)
qed

declare quote_body.simps [simp del]
declare clean_text.simps [simp del]
declare valid_utf8.simps [simp del]
declare is_number.simps [simp del]

end
