(* ===== verification/Request_Json.thy ===== *)
theory Request_Json
  imports Entity Go_Json "HOL-Library.Char_ord" "HOL-Library.List_Lexorder"
begin

text \<open>
  \<open>entity.WebhookRequest\<close> (\<open>internal/domain/entity/action.go\<close>) as JSON: what \<open>json.Unmarshal\<close>
  makes of a body according to the fields and tags of the structure, and what \<open>json.Marshal\<close>
  renders. Keys match without regard to case, unknown keys are skipped, a later key overrides an
  earlier one, \<open>null\<close> leaves a field as it is, and a value of another type is an error.

  Lemmas: the round trip; what the decoder does with a missing timestamp.
\<close>

section \<open>Decoding\<close>

text \<open>
  A field name, in small ASCII letters, and a key that is the same when case is folded. Besides
  the capitals, Unicode folds the long s and the Kelvin sign to ASCII letters.
\<close>

fun fold_eq :: "string \<Rightarrow> string \<Rightarrow> bool" where
  "fold_eq [] k = (k = [])"
| "fold_eq (c # cs) k =
     (case k of
        [] \<Rightarrow> False
      | d # ds \<Rightarrow>
          lower_byte d = c \<and> fold_eq cs ds \<or>
          c = CHR ''s'' \<and> has_prefix [CHR 0xC5, CHR 0xBF] k \<and> fold_eq cs (drop 1 ds) \<or>
          c = CHR ''k'' \<and> has_prefix [CHR 0xE2, CHR 0x84, CHR 0xAA] k \<and> fold_eq cs (drop 2 ds))"

definition decode_string :: "string \<Rightarrow> json \<Rightarrow> string option" where
  "decode_string old v =
     (case v of JsonString s \<Rightarrow> Some s | JsonNull \<Rightarrow> Some old | _ \<Rightarrow> None)"

text \<open>\<open>strconv.ParseInt(s, 10, 64)\<close> on a JSON number.\<close>

definition parse_digits :: "string \<Rightarrow> nat option" where
  "parse_digits s = (if s \<noteq> [] \<and> list_all is_digit s then Some (base_val 10 s) else None)"

definition ParseInt64 :: "string \<Rightarrow> 64 word option" where
  "ParseInt64 s =
     (case s of
        [] \<Rightarrow> None
      | c # ds \<Rightarrow>
          if c = CHR ''-'' then
            (case parse_digits ds of
               None \<Rightarrow> None
             | Some n \<Rightarrow> if n \<le> 2 ^ 63 then Some (word_of_int (- int n)) else None)
          else
            (case parse_digits s of
               None \<Rightarrow> None
             | Some n \<Rightarrow> if n < 2 ^ 63 then Some (word_of_int (int n)) else None))"

definition decode_int64 :: "64 word \<Rightarrow> json \<Rightarrow> 64 word option" where
  "decode_int64 old v =
     (case v of JsonNumber raw \<Rightarrow> ParseInt64 raw | JsonNull \<Rightarrow> Some old | _ \<Rightarrow> None)"

text \<open>In a map each element starts empty; \<open>null\<close> for the map itself drops what it held.\<close>

fun decode_entries :: "(string \<times> json) list \<Rightarrow> (string, string) gomap \<Rightarrow> (string, string) gomap option" where
  "decode_entries [] m = Some m"
| "decode_entries ((k, v) # kvs) m =
     (case decode_string [] v of
        None \<Rightarrow> None
      | Some s \<Rightarrow> decode_entries kvs (AList.update k s m))"

definition decode_map :: "(string, string) gomap \<Rightarrow> json \<Rightarrow> (string, string) gomap option" where
  "decode_map old v =
     (case v of JsonObject kvs \<Rightarrow> decode_entries kvs old | JsonNull \<Rightarrow> Some [] | _ \<Rightarrow> None)"

definition decode_member :: "string \<Rightarrow> json \<Rightarrow> webhook_request \<Rightarrow> webhook_request option" where
  "decode_member k v r =
     (if fold_eq ''action'' k
      then map_option (\<lambda>s. r\<lparr>req_Action := s\<rparr>) (decode_string (req_Action r) v)
      else if fold_eq ''module'' k
      then map_option (\<lambda>s. r\<lparr>req_Module := s\<rparr>) (decode_string (req_Module r) v)
      else if fold_eq ''config'' k
      then map_option (\<lambda>m. r\<lparr>req_Config := m\<rparr>) (decode_map (req_Config r) v)
      else if fold_eq ''timestamp'' k
      then map_option (\<lambda>n. r\<lparr>req_Timestamp := n\<rparr>) (decode_int64 (req_Timestamp r) v)
      else Some r)"

fun decode_members :: "(string \<times> json) list \<Rightarrow> webhook_request \<Rightarrow> webhook_request option" where
  "decode_members [] r = Some r"
| "decode_members ((k, v) # kvs) r =
     (case decode_member k v r of None \<Rightarrow> None | Some r \<Rightarrow> decode_members kvs r)"

definition zero_request :: webhook_request where
  "zero_request = \<lparr>req_Action = [], req_Module = [], req_Config = [], req_Timestamp = 0\<rparr>"

text \<open>Go goes on after an error of type and reports it at the end; the request is lost either way.\<close>

definition Unmarshal :: "string \<Rightarrow> webhook_request option" where
  "Unmarshal body =
     (case parse_json body of
        Some (JsonObject ms) \<Rightarrow> decode_members ms zero_request
      | Some JsonNull \<Rightarrow> Some zero_request
      | _ \<Rightarrow> None)"

section \<open>Encoding\<close>

text \<open>The fields in their order, without the empty ones that are tagged so; map keys are sorted.\<close>

definition request_members :: "webhook_request \<Rightarrow> (string \<times> json) list" where
  "request_members r =
     [(''action'', JsonString (req_Action r))] @
     (if req_Module r = [] then [] else [(''module'', JsonString (req_Module r))]) @
     (if req_Config r = [] then []
      else [(''config'', JsonObject (map (\<lambda>(k, v). (k, JsonString v)) (sort_key fst (req_Config r))))]) @
     [(''timestamp'', JsonNumber (fmt_d (sint (req_Timestamp r))))]"

definition Marshal :: "webhook_request \<Rightarrow> string" where
  "Marshal r = render_json (JsonObject (request_members r))"

section \<open>Integers\<close>

lemma digits_decimal: "list_all is_digit (nat_in_base 10 n)"
proof (induction "10 :: nat" n rule: nat_in_base.induct)
  case (1 n)
  have d: "is_digit (hex_digit m)" if "m < 10" for m
  proof -
    from that have "m \<in> set [0..<10]" by simp
    moreover have "\<forall>m \<in> set [0..<10]. is_digit (hex_digit m)"
      by (simp add: upt_rec hex_digit_def hextable_def is_digit_def byte_in_def)
    ultimately show ?thesis by blast
  qed
  show ?case
  proof (cases "n < 10")
    case True
    then show ?thesis by (simp add: nat_in_base.simps [of 10 n] d)
  next
    case False
    then show ?thesis using 1 d [of "n mod 10"]
      by (simp add: nat_in_base.simps [of 10 n])
  qed
qed

lemma leading_digit: "0 < n \<Longrightarrow> hd (nat_in_base 10 n) \<noteq> CHR ''0''"
proof (induction "10 :: nat" n rule: nat_in_base.induct)
  case (1 n)
  show ?case
  proof (cases "n < 10")
    case True
    then have "n \<in> set [1..<10]" using 1 by simp
    moreover have "\<forall>m \<in> set [1..<10]. hex_digit m \<noteq> CHR ''0''"
      by (simp add: upt_rec hex_digit_def hextable_def)
    ultimately show ?thesis using True by (simp add: nat_in_base.simps [of 10 n])
  next
    case False
    then have "0 < n div 10" by (simp add: div_greater_zero_iff)
    then show ?thesis using 1 False by (simp add: nat_in_base.simps [of 10 n])
  qed
qed

lemma num_phases_digits: "list_all is_digit ds \<Longrightarrow> num_phases NumInt ds = Some NumInt"
  by (induction ds) (auto simp: num_step_def)

lemma nat_text: "nat_in_base 10 0 = ''0''"
  by (simp add: nat_in_base.simps hex_digit_def hextable_def)

lemma nat_text_cases:
  obtains "n = 0" | d ds where "0 < n" "nat_in_base 10 n = d # ds" "is_digit d" "d \<noteq> CHR ''0''"
    "list_all is_digit ds"
proof (cases "n = 0")
  case False
  obtain d ds where "nat_in_base 10 n = d # ds" by (cases "nat_in_base 10 n") auto
  then show thesis using that(2) [of d ds] False leading_digit [of n] digits_decimal [of n] by simp
qed (rule that)

lemma is_number_int: "is_number (fmt_d i)"
proof (cases "i < 0")
  case True
  then show ?thesis
    by (cases rule: nat_text_cases [of "nat (- i)"])
      (auto simp: fmt_int_def num_begin_def num_step_def num_phases_digits num_complete_def is_number.simps)
next
  case False
  then show ?thesis
    by (cases rule: nat_text_cases [of "nat i"])
      (auto simp: fmt_int_def nat_text num_begin_def is_digit_def byte_in_def num_phases_digits num_complete_def is_number.simps)
qed

lemma ParseInt64_fmt: "ParseInt64 (fmt_d (sint w)) = Some w"
proof -
  have range: "- (2 ^ 63) \<le> sint w" "sint w < 2 ^ 63"
    using sint_ge [of w] sint_lt [of w] by simp_all
  have digits: "parse_digits (nat_in_base 10 n) = Some n" for n
    using digits_decimal [of n] by (simp add: parse_digits_def base_val_nat_in_base)
  have neq: "hd (nat_in_base 10 n) \<noteq> CHR ''-''" for n
    using digits_decimal [of n] by (cases "nat_in_base 10 n") (auto simp: is_digit_def byte_in_def)
  have plus: "ParseInt64 (nat_in_base 10 n) =
      (if n < 2 ^ 63 then Some (word_of_int (int n)) else None)" for n
    using digits [of n] neq [of n] by (cases "nat_in_base 10 n") (auto simp: ParseInt64_def)
  show ?thesis
  proof (cases "sint w < 0")
    case True
    then show ?thesis using range digits [of "nat (- sint w)"]
      by (simp add: fmt_int_def ParseInt64_def nat_le_iff)
  next
    case False
    then show ?thesis using range plus [of "nat (sint w)"]
      by (simp add: fmt_int_def nat_less_iff)
  qed
qed

section \<open>The round trip\<close>

definition request_ok :: "webhook_request \<Rightarrow> bool" where
  "request_ok r \<longleftrightarrow> valid_utf8 (req_Action r) \<and> valid_utf8 (req_Module r) \<and> gm_ok (req_Config r) \<and>
     (\<forall>(k, v) \<in> set (req_Config r). valid_utf8 k \<and> valid_utf8 v)"

lemma valid_ascii: "list_all (byte_in 0 127) s \<Longrightarrow> valid_utf8 s"
proof (induction s)
  case (Cons c s)
  then have "utf8_size (c # s) = 1" using utf8_size_1 [of c s] by simp
  then show ?case using Cons by (simp add: valid_utf8.simps)
qed (simp add: valid_utf8.simps)

lemma names_valid:
  "valid_utf8 ''action''" "valid_utf8 ''module''" "valid_utf8 ''config''" "valid_utf8 ''timestamp''"
  by (rule valid_ascii, simp add: byte_in_def)+

lemma json_ok_request: "json_ok (JsonObject (request_members r))"
proof -
  have "list_all (\<lambda>(k, v). json_ok v) (map (\<lambda>(k, v). (k, JsonString v)) kvs)"
    for kvs :: "(string \<times> string) list"
    by (induction kvs) auto
  then show ?thesis unfolding request_members_def
    by (simp add: is_number_int del: list.pred_map)
qed

lemma clean_strings:
  "\<forall>(k, v) \<in> set kvs. valid_utf8 k \<and> valid_utf8 v \<Longrightarrow>
     map (\<lambda>(k, v). (clean_text k, clean_json v)) (map (\<lambda>(k, v). (k, JsonString v)) kvs) =
       map (\<lambda>(k, v). (k, JsonString v)) kvs"
  by (induction kvs) (auto simp: clean_valid)

lemma clean_request:
  assumes "request_ok r"
  shows "clean_json (JsonObject (request_members r)) = JsonObject (request_members r)"
proof -
  have "\<forall>(k, v) \<in> set (sort_key fst (req_Config r)). valid_utf8 k \<and> valid_utf8 v"
    using assms by (simp add: request_ok_def)
  then show ?thesis
    using assms clean_strings by (simp add: request_members_def request_ok_def clean_valid names_valid
        del: list.map_comp map_map)
qed

lemma depth_strings: "foldr max (map (\<lambda>(k, v). json_depth v) (map (\<lambda>(k, v). (k, JsonString v)) kvs)) 0 = 0"
  by (induction kvs) auto

lemma depth_request: "json_depth (JsonObject (request_members r)) \<le> 2"
  using depth_strings by (auto simp: request_members_def)

lemma update_fresh: "k \<notin> fst ` set m \<Longrightarrow> AList.update k v m = m @ [(k, v)]"
  by (induction m) auto

lemma decode_entries_strings:
  "distinct (map fst (m @ kvs)) \<Longrightarrow>
     decode_entries (map (\<lambda>(k, v). (k, JsonString v)) kvs) m = Some (m @ kvs)"
proof (induction kvs arbitrary: m)
  case (Cons kv kvs)
  then show ?case
    by (cases kv) (auto simp: decode_string_def update_fresh image_iff)
qed simp

lemma field_names:
  "fold_eq ''action'' ''action''" "\<not> fold_eq ''action'' ''module''" "fold_eq ''module'' ''module''"
  "\<not> fold_eq ''action'' ''config''" "\<not> fold_eq ''module'' ''config''" "fold_eq ''config'' ''config''"
  "\<not> fold_eq ''action'' ''timestamp''" "\<not> fold_eq ''module'' ''timestamp''"
  "\<not> fold_eq ''config'' ''timestamp''" "fold_eq ''timestamp'' ''timestamp''"
  by (simp_all add: lower_byte_def)

declare fold_eq.simps [simp del]

lemma decode_fields:
  "decode_member ''action'' (JsonString s) r = Some (r\<lparr>req_Action := s\<rparr>)"
  "decode_member ''module'' (JsonString s) r = Some (r\<lparr>req_Module := s\<rparr>)"
  "decode_member ''config'' (JsonObject kvs) r =
     map_option (\<lambda>m. r\<lparr>req_Config := m\<rparr>) (decode_entries kvs (req_Config r))"
  "decode_member ''timestamp'' (JsonNumber raw) r =
     map_option (\<lambda>n. r\<lparr>req_Timestamp := n\<rparr>) (ParseInt64 raw)"
  by (simp_all add: decode_member_def field_names decode_string_def decode_map_def decode_int64_def)

lemma decode_request_members:
  assumes "gm_ok (req_Config r)"
  shows "decode_members (request_members r) zero_request =
    Some (r\<lparr>req_Config := sort_key fst (req_Config r)\<rparr>)"
proof -
  have "distinct (map fst (sort_key fst (req_Config r)))"
    using assms by (simp add: gm_ok_def distinct_map)
  then have cfg: "decode_entries (map (\<lambda>(k, v). (k, JsonString v)) (sort_key fst (req_Config r))) [] =
      Some (sort_key fst (req_Config r))"
    using decode_entries_strings [of "[]"] by simp
  show ?thesis
    by (cases "req_Module r = []"; cases "req_Config r = []")
      (simp_all add: request_members_def decode_fields zero_request_def cfg ParseInt64_fmt)
qed

text \<open>What a client renders with \<open>json.Marshal\<close>, the service reads as the same request.\<close>

theorem Unmarshal_Marshal:
  assumes "request_ok r"
  shows "Unmarshal (Marshal r) = Some (r\<lparr>req_Config := sort_key fst (req_Config r)\<rparr>)"
proof -
  have "parse_json (render_json (JsonObject (request_members r))) = Some (JsonObject (request_members r))"
    using parse_render [OF json_ok_request, of r] depth_request [of r] clean_request [OF assms]
    by (simp add: max_nesting_def)
  moreover have "gm_ok (req_Config r)" using assms by (simp add: request_ok_def)
  ultimately show ?thesis
    by (simp add: Unmarshal_def Marshal_def decode_request_members del: render_json.simps)
qed

text \<open>A body without a timestamp (or with \<open>null\<close> for it) has the timestamp 0.\<close>

lemma decode_no_timestamp:
  "\<forall>(k, v) \<in> set ms. \<not> fold_eq ''timestamp'' k \<or> v = JsonNull \<Longrightarrow>
     decode_members ms r = Some r' \<Longrightarrow> req_Timestamp r' = req_Timestamp r"
proof (induction ms arbitrary: r)
  case (Cons kv ms)
  obtain k v where kv: "kv = (k, v)" by (cases kv)
  then obtain q where q: "decode_member k v r = Some q" "decode_members ms q = Some r'"
    using Cons.prems by (auto split: option.splits)
  have "req_Timestamp q = req_Timestamp r"
    using q(1) Cons.prems(1) kv by (auto simp: decode_member_def decode_int64_def split: if_splits)
  then show ?case using Cons.IH [OF _ q(2)] Cons.prems(1) by simp
qed simp

lemma Unmarshal_samples:
  "Unmarshal ''null'' = Some zero_request"
  "Unmarshal ''[]'' = None"
  by (simp_all add: Unmarshal_def parse_json_def begin_value_def push_frame_def max_nesting_def
      json_space_def after_value_def num_begin_def is_digit_def byte_in_def)

text \<open>A request for an update, and its text.\<close>

definition demo_update :: webhook_request where
  "demo_update = \<lparr>req_Action = ''update'', req_Module = [], req_Config = [], req_Timestamp = 1000\<rparr>"

lemma escape_letter: "byte_in 97 122 c \<Longrightarrow> escape_byte c = [c]"
proof -
  assume c: "byte_in 97 122 c"
  then have "\<not> byte_in 0 31 c" by (simp add: byte_in_def)
  moreover have "c \<noteq> d" if "\<not> byte_in 97 122 d" for d using c that by auto
  then have "c \<notin> {CHR 0x22, CHR 0x5C, CHR 8, CHR 12, CHR 10, CHR 13, CHR 9, CHR ''<'', CHR ''>'', CHR ''&''}"
    by (simp add: byte_in_def)
  ultimately show ?thesis by (simp add: escape_byte_def)
qed

lemma quote_letters: "list_all (byte_in 97 122) s \<Longrightarrow> quote_body s = s"
proof (induction s)
  case (Cons c s)
  then have "utf8_size (c # s) = 1" using utf8_size_1 [of c s] by (simp add: byte_in_def)
  then have "quote_body (c # s) = escape_byte c @ quote_body s" by (simp add: quote_body.simps(2))
  then show ?case using Cons escape_letter [of c] by simp
qed (simp add: quote_body.simps)

lemma demo_quotes:
  "quote_body ''action'' = ''action''" "quote_body ''update'' = ''update''"
  "quote_body ''timestamp'' = ''timestamp''"
  by (rule quote_letters, simp add: byte_in_def)+

lemma demo_update_ok: "request_ok demo_update"
  by (simp add: request_ok_def demo_update_def valid_ascii byte_in_def)

lemma demo_body: "Unmarshal (Marshal demo_update) = Some demo_update"
  using Unmarshal_Marshal [OF demo_update_ok] by (simp add: demo_update_def)

lemma demo_number: "fmt_d 1000 = ''1000''"
  by (simp add: fmt_int_def nat_in_base.simps [of 10 1000] nat_in_base.simps [of 10 100]
      nat_in_base.simps [of 10 10] nat_in_base.simps [of 10 "Suc 0"] hex_digit_def hextable_def)

lemma demo_body_length: "length (Marshal demo_update) = 36"
  by (simp add: Marshal_def request_members_def demo_update_def json_quote_def demo_quotes demo_number)

end
