(* ===== verification/Webhook_Handler.thy ===== *)
theory Webhook_Handler
  imports Action_Service Job_Store Worker_Pool Http Request_Json
begin

text \<open>
  \<open>internal/application/handler\<close>: the handler with worker pool that the service runs
  (\<open>webhook_handler_pool.go\<close>), its variant with a goroutine per job
  (\<open>webhook_handler_with_status.go\<close>) and the health check (\<open>health_handler.go\<close>).
  \<open>HandleWebhook\<close> is split where the source releases control: the checks of the request, the
  look at the current job, the start of the new one, the hand-over to the pool.

  Lemmas: the checks as one condition (\<open>valid_request\<close>), what each outcome does to the store
  and the pool, and the properties of the handlers taken one request at a time. Requests that
  overlap are the subject of \<open>Job_System\<close>.
\<close>

section \<open>What a request brings along\<close>

text \<open>
  The authenticator is the interface \<open>Authenticator\<close>; the remaining fields are the clock readings
  and random bytes of this request.
\<close>

record webhook_env =
  we_validate :: "http_request \<Rightarrow> string \<Rightarrow> bool"
  we_now :: time
  we_rand :: "byte list option"
  we_idnow1 :: time
  we_idnow2 :: time
  we_start :: time
  we_fail :: time

text \<open>The task given to the pool: the closure over the request and the job.\<close>

type_synonym pool_task = "webhook_request \<times> job_ref"

record webhook_handler =
  h_jobStore :: job_store
  h_workerPool :: "pool_task pool"

definition NewWebhookHandlerWithPool :: "pool_task pool \<Rightarrow> webhook_handler" where
  "NewWebhookHandlerWithPool p = \<lparr>h_jobStore = NewJobStore, h_workerPool = p\<rparr>"

text \<open>The variant with a goroutine per job keeps its job store only.\<close>

definition NewWebhookHandlerWithStatus :: job_store where
  "NewWebhookHandlerWithStatus = NewJobStore"

section \<open>The checks of a request\<close>

definition pool_validActions :: "action_type list" where
  "pool_validActions = [ActionUpdate]"

definition status_validActions :: "action_type list" where
  "status_validActions = [ActionReinit, ActionReboot, ActionUpdate]"

definition check_request :: "action_type list \<Rightarrow> webhook_env \<Rightarrow> http_request \<Rightarrow>
    http_response + webhook_request" where
  "check_request validActions env r =
     (if r_Method r \<noteq> ''POST'' then Inl (http_Error ''Method not allowed'' StatusMethodNotAllowed)
      else (case read_limited (1024 * 1024) r of
              None \<Rightarrow> Inl (http_Error ''Failed to read request'' StatusBadRequest)
            | Some body \<Rightarrow>
          (case Unmarshal body of
              None \<Rightarrow> Inl (http_Error ''Invalid request format'' StatusBadRequest)
            | Some req \<Rightarrow>
                if time_sub (we_now env) (time_Unix (req_Timestamp req)) > 5 * minute
                then Inl (http_Error ''Request expired'' StatusBadRequest)
                else if \<not> we_validate env r body
                then Inl (http_Error ''Unauthorized'' StatusUnauthorized)
                else if req_Action req \<notin> set validActions
                then Inl (http_Error ''Invalid action'' StatusBadRequest)
                else Inr req)))"

section \<open>Starting a job\<close>

definition running_job :: "job_store \<Rightarrow> job_ref option" where
  "running_job s =
     (case GetCurrentJob s of
        None \<Rightarrow> None
      | Some r \<Rightarrow> if IsRunning (heap s r) then Some r else None)"

definition busy_response :: "job \<Rightarrow> http_response" where
  "busy_response j =
     json_response StatusConflict [json_type, (''X-Job-ID'', job_ID j)]
       [(''status'', JStr ''job_in_progress''), (''job_id'', JStr (job_ID j)),
        (''action'', JStr (job_Action j)), (''started'', JTime (job_StartTime j)),
        (''message'', JStr ''Another job is already running. Please wait for it to complete.'')]"

definition lost_race_response :: http_response where
  "lost_race_response =
     json_response StatusConflict []
       [(''status'', JStr ''job_already_running''),
        (''message'', JStr ''Failed to start job, another job is running'')]"

definition accepted_response :: "string \<Rightarrow> job \<Rightarrow> http_response" where
  "accepted_response message j =
     json_response StatusAccepted [json_type, (''X-Job-ID'', job_ID j)]
       [(''status'', JStr ''accepted''), (''job_id'', JStr (job_ID j)),
        (''action'', JStr (job_Action j)), (''message'', JStr message)]"

definition create_job :: "webhook_env \<Rightarrow> webhook_request \<Rightarrow> job_store \<Rightarrow>
    string go_error + job_ref \<times> job_store" where
  "create_job env req s =
     (case GenerateJobID (we_rand env) (we_idnow1 env) (we_idnow2 env) of
        (jobID, Some e) \<Rightarrow> Inl (Some e)
      | (jobID, None) \<Rightarrow> Inr (alloc_job (NewJob jobID (req_Action req) (we_start env)) s))"

text \<open>From the check of the current job to \<open>TryStartJob\<close>, as both handlers have it.\<close>

definition start_job :: "webhook_env \<Rightarrow> webhook_request \<Rightarrow> job_store \<Rightarrow>
    (http_response + job_ref) \<times> job_store" where
  "start_job env req s =
     (case running_job s of
        Some r \<Rightarrow> (Inl (busy_response (heap s r)), s)
      | None \<Rightarrow>
          (case create_job env req s of
             Inl e \<Rightarrow> (Inl (http_Error ''Internal server error'' StatusInternalServerError), s)
           | Inr (r, s1) \<Rightarrow>
               (case TryStartJob r s1 of
                  (False, s2) \<Rightarrow> (Inl lost_race_response, s2)
                | (True, s2) \<Rightarrow> (Inr r, s2))))"

section \<open>HandleWebhook\<close>

fun pool_error_text :: "pool_error \<Rightarrow> string" where
  "pool_error_text PoolIsShutdown = ''pool is shutdown''"
| "pool_error_text ErrPoolFull = ''worker pool is full''"
| "pool_error_text ErrTimeout = ''timeout waiting for worker''"
| "pool_error_text ErrShutdownTimeout = ''shutdown timeout exceeded''"

text \<open>A panic of \<open>Submit\<close> leaves the handler as it is then: the job stays started.\<close>

definition submit_job :: "webhook_env \<Rightarrow> webhook_request \<Rightarrow> job_ref \<Rightarrow> webhook_handler \<Rightarrow>
    go_panic \<times> webhook_handler + http_response \<times> webhook_handler" where
  "submit_job env req r h =
     (case Submit (req, r) (h_workerPool h) of
        Inl p \<Rightarrow> Inl (p, h)
      | Inr (Some e, p) \<Rightarrow>
          Inr (http_Error ''Server at capacity'' StatusServiceUnavailable,
               \<lparr>h_jobStore = FailCurrentJob (Some (pool_error_text e)) (we_fail env) (h_jobStore h),
                h_workerPool = p\<rparr>)
      | Inr (None, p) \<Rightarrow>
          Inr (accepted_response ''Job accepted and processing started in worker pool''
                 (heap (h_jobStore h) r), h\<lparr>h_workerPool := p\<rparr>))"

definition HandleWebhook :: "webhook_env \<Rightarrow> http_request \<Rightarrow> webhook_handler \<Rightarrow>
    go_panic \<times> webhook_handler + http_response \<times> webhook_handler" where
  "HandleWebhook env r h =
     (case check_request pool_validActions env r of
        Inl w \<Rightarrow> Inr (w, h)
      | Inr req \<Rightarrow>
          (case start_job env req (h_jobStore h) of
             (Inl w, s) \<Rightarrow> Inr (w, h\<lparr>h_jobStore := s\<rparr>)
           | (Inr j, s) \<Rightarrow> submit_job env req j (h\<lparr>h_jobStore := s\<rparr>)))"

text \<open>
  The variant with a goroutine per job: the second component is the goroutine it starts.
\<close>

definition status_HandleWebhook :: "webhook_env \<Rightarrow> http_request \<Rightarrow> job_store \<Rightarrow>
    http_response \<times> pool_task option \<times> job_store" where
  "status_HandleWebhook env r s =
     (case check_request status_validActions env r of
        Inl w \<Rightarrow> (w, None, s)
      | Inr req \<Rightarrow>
          (case start_job env req s of
             (Inl w, s') \<Rightarrow> (w, None, s')
           | (Inr j, s') \<Rightarrow>
               (accepted_response ''Job accepted and processing started'' (heap s' j),
                Some (req, j), s')))"

section \<open>Processing a job\<close>

definition panic_text :: "string \<Rightarrow> string" where
  "panic_text v = ''panic during job execution: '' @ v"

definition processActionWithStatus :: "action_service \<Rightarrow> time \<Rightarrow> pool_task \<Rightarrow> job_store \<Rightarrow>
    (go_task list \<times> job_store) sys" where
  "processActionWithStatus svc now task s =
     (case task of (req, r) \<Rightarrow> do {
        res \<leftarrow> svc req (job_ID (heap s r));
        return (case res of
                  Inl v \<Rightarrow> ([], FailCurrentJob (Some (panic_text v)) now s)
                | Inr ts \<Rightarrow> (ts, CompleteCurrentJob now s))
      })"

text \<open>\<open>ctx_err\<close> is what \<open>ctx.Err()\<close> said when the task looked at its context, if it was done.\<close>

definition processActionWithContext :: "action_service \<Rightarrow> string go_error \<Rightarrow> time \<Rightarrow> pool_task \<Rightarrow>
    job_store \<Rightarrow> (go_task list \<times> job_store) sys" where
  "processActionWithContext svc ctx_err now task s =
     (case ctx_err of
        Some e \<Rightarrow> return ([], FailCurrentJob (Some (''job canceled: '' @ e)) now s)
      | None \<Rightarrow> processActionWithStatus svc now task s)"

text \<open>The ticks of the two cleanup goroutines.\<close>

definition pool_Cleanup_tick :: "time \<Rightarrow> job_store \<Rightarrow> job_store" where
  "pool_Cleanup_tick now s = CleanupOldJobs (30 * minute) now s"

definition status_Cleanup_tick :: "time \<Rightarrow> job_store \<Rightarrow> job_store" where
  "status_Cleanup_tick now s = CleanupOldJobs (24 * hour) now s"

section \<open>Job status and health\<close>

definition json_error :: "string \<Rightarrow> string \<Rightarrow> http_response" where
  "json_error status message =
     json_response StatusNotFound [json_type]
       [(''status'', JStr status), (''message'', JStr message)]"

definition job_report :: "job \<Rightarrow> (string, json_val) gomap" where
  "job_report j =
     [(''job_id'', JStr (job_ID j)), (''action'', JStr (job_Action j)),
      (''status'', JStr (status_string (job_Status j))), (''started'', JTime (job_StartTime j)),
      (''completed'', case job_EndTime j of None \<Rightarrow> JNull | Some t \<Rightarrow> JTime t)] @
     (case job_Error j of
        Some e \<Rightarrow> if job_Status j = JobStatusFailed then [(''error'', JStr e)] else []
      | None \<Rightarrow> [])"

definition report_job :: "string \<Rightarrow> job_store \<Rightarrow> http_response" where
  "report_job jobID s =
     (case GetJob jobID s of
        None \<Rightarrow> json_error ''not_found'' ''Job not found''
      | Some r \<Rightarrow> json_response StatusOK [json_type] (job_report (heap s r)))"

definition HandleJobStatus :: "http_request \<Rightarrow> job_store \<Rightarrow> http_response" where
  "HandleJobStatus r s =
     (if r_Method r \<noteq> ''GET'' then http_Error ''Method not allowed'' StatusMethodNotAllowed
      else if r_Query r ''job_id'' = [] then
        (case GetCurrentJob s of
           None \<Rightarrow> json_error ''no_job'' ''No job is currently running''
         | Some q \<Rightarrow> report_job (job_ID (heap s q)) s)
      else report_job (r_Query r ''job_id'') s)"

definition status_code :: "job_status \<Rightarrow> nat" where
  "status_code st =
     (case st of
        JobStatusRunning \<Rightarrow> StatusAccepted
      | JobStatusCompleted \<Rightarrow> StatusOK
      | JobStatusFailed \<Rightarrow> StatusInternalServerError
      | _ \<Rightarrow> StatusAccepted)"

definition status_message :: "job_status \<Rightarrow> string" where
  "status_message st =
     (case st of
        JobStatusRunning \<Rightarrow> ''Job is still running''
      | JobStatusCompleted \<Rightarrow> ''Job completed successfully''
      | JobStatusFailed \<Rightarrow> ''Job failed''
      | _ \<Rightarrow> ''Job is pending'')"

definition status_report :: "job \<Rightarrow> (string, json_val) gomap" where
  "status_report j =
     [(''job_id'', JStr (job_ID j)), (''action'', JStr (job_Action j)),
      (''status'', JStr (status_string (GetStatus j))), (''started'', JTime (job_StartTime j))] @
     (case job_EndTime j of
        None \<Rightarrow> []
      | Some t \<Rightarrow> [(''ended'', JTime t), (''duration'', JSeconds (time_sub t (job_StartTime j)))]) @
     [(''message'', JStr (status_message (GetStatus j)))] @
     (case job_Error j of
        Some e \<Rightarrow> if GetStatus j = JobStatusFailed then [(''error'', JStr e)] else []
      | None \<Rightarrow> [])"

definition status_HandleJobStatus :: "http_request \<Rightarrow> job_store \<Rightarrow> http_response" where
  "status_HandleJobStatus r s =
     (let jobID = (if r_Query r ''job_id'' = [] then r_Header r ''X-Job-ID'' else r_Query r ''job_id'')
      in if r_Method r \<noteq> ''GET'' then http_Error ''Method not allowed'' StatusMethodNotAllowed
         else if jobID = [] then http_Error ''Job ID required'' StatusBadRequest
         else (case GetJobByID jobID s of
                 None \<Rightarrow> http_Error ''Job not found'' StatusNotFound
               | Some q \<Rightarrow>
                   json_response (status_code (GetStatus (heap s q))) [json_type]
                     (status_report (heap s q))))"

definition HandleHealth :: "time \<Rightarrow> http_request \<Rightarrow> http_response" where
  "HandleHealth now r =
     (if r_Method r \<noteq> ''GET'' then http_Error ''Method not allowed'' StatusMethodNotAllowed
      else json_response StatusOK [json_type]
        [(''status'', JStr ''healthy''), (''service'', JStr ''cloud-update''),
         (''timestamp'', JStr (fmt_d (unix_seconds now)))])"

lemmas handler_defs [model_defs] = HandleWebhook_def submit_job_def start_job_def create_job_def
  running_job_def check_request_def

section \<open>The checks as one condition\<close>

definition valid_request :: "action_type list \<Rightarrow> webhook_env \<Rightarrow> http_request \<Rightarrow> webhook_request \<Rightarrow> bool" where
  "valid_request validActions env r req \<longleftrightarrow>
     r_Method r = ''POST'' \<and>
     (\<exists>body. read_limited (1024 * 1024) r = Some body \<and> Unmarshal body = Some req \<and>
        we_validate env r body) \<and>
     time_sub (we_now env) (time_Unix (req_Timestamp req)) \<le> 5 * minute \<and>
     req_Action req \<in> set validActions"

lemma check_request_iff:
  "check_request validActions env r = Inr req \<longleftrightarrow> valid_request validActions env r req"
  by (auto simp: check_request_def valid_request_def split: option.splits)

lemma check_request_status:
  "check_request validActions env r = Inl w \<Longrightarrow> w_Status w \<in> {400, 401, 405}"
  by (auto simp: check_request_def split: option.splits if_splits)

section \<open>Starting a job, taken alone\<close>

definition new_job :: "webhook_env \<Rightarrow> webhook_request \<Rightarrow> job" where
  "new_job env req =
     NewJob (fst (GenerateJobID (we_rand env) (we_idnow1 env) (we_idnow2 env))) (req_Action req)
       (we_start env)"

definition started_store :: "webhook_env \<Rightarrow> webhook_request \<Rightarrow> job_store \<Rightarrow> job_store" where
  "started_store env req s =
     snd (TryStartJob (next_ref s) (snd (alloc_job (new_job env req) s)))"

lemma running_job_inv: "store_inv s \<Longrightarrow> running_job s = currentJob s"
  using store_invD(4) [of s] by (auto simp: running_job_def GetCurrentJob_def split: option.splits)

lemma create_job_total: "create_job env req s = Inr (alloc_job (new_job env req) s)"
  by (simp add: create_job_def new_job_def GenerateJobID_def split: option.splits)

lemma start_job_busy:
  "store_inv s \<Longrightarrow> currentJob s = Some r \<Longrightarrow>
     start_job env req s = (Inl (busy_response (heap s r)), s)"
  by (simp add: start_job_def running_job_inv)

lemma start_job_idle:
  "store_inv s \<Longrightarrow> currentJob s = None \<Longrightarrow>
     start_job env req s = (Inr (next_ref s), started_store env req s)"
  by (simp add: start_job_def running_job_inv create_job_total started_store_def alloc_job_def
      TryStartJob_def current_running_def)

lemma started_store_sel:
  assumes "currentJob s = None"
  shows "currentJob (started_store env req s) = Some (next_ref s)"
    and "history (started_store env req s) = history s"
    and "next_ref (started_store env req s) = Suc (next_ref s)"
    and "maxHistory (started_store env req s) = maxHistory s"
    and "heap (started_store env req s) = (heap s)(next_ref s := SetRunning (new_job env req))"
  using assms by (simp_all add: started_store_def alloc_job_def TryStartJob_def current_running_def)

lemma started_store_inv: "store_inv s \<Longrightarrow> store_inv (started_store env req s)"
  using store_inv_try [OF store_inv_alloc fresh_alloc]
  by (simp add: started_store_def new_job_def alloc_job_def)

lemma start_job_inv: "store_inv s \<Longrightarrow> store_inv (snd (start_job env req s))"
  by (cases "currentJob s") (simp_all add: start_job_busy start_job_idle started_store_inv)

section \<open>HandleWebhook, taken alone\<close>

lemma HandleWebhook_invalid:
  "check_request pool_validActions env r = Inl w \<Longrightarrow> HandleWebhook env r h = Inr (w, h)"
  by (simp add: HandleWebhook_def)

lemma HandleWebhook_busy:
  "valid_request pool_validActions env r req \<Longrightarrow> store_inv (h_jobStore h) \<Longrightarrow>
     currentJob (h_jobStore h) = Some q \<Longrightarrow>
     HandleWebhook env r h = Inr (busy_response (heap (h_jobStore h) q), h)"
  by (simp add: HandleWebhook_def check_request_iff [symmetric] start_job_busy)

lemma HandleWebhook_idle:
  "valid_request pool_validActions env r req \<Longrightarrow> store_inv (h_jobStore h) \<Longrightarrow>
     currentJob (h_jobStore h) = None \<Longrightarrow>
     HandleWebhook env r h =
       submit_job env req (next_ref (h_jobStore h))
         (h\<lparr>h_jobStore := started_store env req (h_jobStore h)\<rparr>)"
  by (simp add: HandleWebhook_def check_request_iff [symmetric] start_job_idle)

lemma HandleWebhook_cases:
  assumes "store_inv (h_jobStore h)"
  obtains (invalid) w where "check_request pool_validActions env r = Inl w"
      "HandleWebhook env r h = Inr (w, h)"
  | (busy) req q where "valid_request pool_validActions env r req" "currentJob (h_jobStore h) = Some q"
      "HandleWebhook env r h = Inr (busy_response (heap (h_jobStore h) q), h)"
  | (idle) req where "valid_request pool_validActions env r req" "currentJob (h_jobStore h) = None"
      "HandleWebhook env r h =
         submit_job env req (next_ref (h_jobStore h))
           (h\<lparr>h_jobStore := started_store env req (h_jobStore h)\<rparr>)"
proof (cases "check_request pool_validActions env r")
  case (Inl w)
  then show thesis by (rule invalid) (simp add: HandleWebhook_invalid Inl)
next
  case (Inr req)
  then have v: "valid_request pool_validActions env r req" by (simp add: check_request_iff)
  show thesis
  proof (cases "currentJob (h_jobStore h)")
    case None
    show thesis by (rule idle [OF v None HandleWebhook_idle [OF v assms None]])
  next
    case (Some q)
    show thesis by (rule busy [OF v Some HandleWebhook_busy [OF v assms Some]])
  qed
qed

definition accepts :: "pool_task pool \<Rightarrow> bool" where
  "accepts p \<longleftrightarrow> \<not> p_shutdown p \<and> \<not> p_closed p \<and> length (p_tasks p) < p_maxBacklog p"

lemma submit_job_accepts:
  "accepts (h_workerPool h) \<Longrightarrow>
     submit_job env req r h =
       Inr (accepted_response ''Job accepted and processing started in worker pool''
              (heap (h_jobStore h) r),
            h\<lparr>h_workerPool := (h_workerPool h)\<lparr>p_tasks := p_tasks (h_workerPool h) @ [(req, r)]\<rparr>\<rparr>)"
  by (simp add: submit_job_def Submit_def submit_check_def try_send_def accepts_def)

lemma submit_job_refuses:
  "\<not> accepts (h_workerPool h) \<Longrightarrow> submit_job env req r h = Inr (w, h') \<Longrightarrow>
     w = http_Error ''Server at capacity'' StatusServiceUnavailable \<and>
     h_workerPool h' = h_workerPool h \<and>
     (\<exists>e. h_jobStore h' = FailCurrentJob (Some e) (we_fail env) (h_jobStore h))"
  by (auto simp: submit_job_def Submit_def submit_check_def try_send_def accepts_def
      split: if_splits)

lemma submit_job_inv:
  assumes "store_inv (h_jobStore h)" and "submit_job env req r h = Inr (w, h')"
  shows "store_inv (h_jobStore h')"
proof (cases "accepts (h_workerPool h)")
  case True
  then show ?thesis using assms by (auto simp: submit_job_accepts)
next
  case False
  then show ?thesis using submit_job_refuses [OF False assms(2)] store_inv_fail [OF assms(1)] by auto
qed

lemma handler_inv:
  assumes inv: "store_inv (h_jobStore h)" and run: "HandleWebhook env r h = Inr (w, h')"
  shows "store_inv (h_jobStore h')"
  using inv
proof (cases rule: HandleWebhook_cases [where env = env and r = r])
  case (idle req)
  have "store_inv (h_jobStore (h\<lparr>h_jobStore := started_store env req (h_jobStore h)\<rparr>))"
    by (simp add: started_store_inv inv)
  then show ?thesis using idle(3) run submit_job_inv by metis
qed (use run inv in auto)

lemma handler_panic_inv:
  assumes inv: "store_inv (h_jobStore h)" and run: "HandleWebhook env r h = Inl (p, h')"
  shows "store_inv (h_jobStore h')"
  using inv
proof (cases rule: HandleWebhook_cases [where env = env and r = r])
  case (idle req)
  then have "h_jobStore h' = started_store env req (h_jobStore h)"
    using run by (auto simp: submit_job_def split: sum.splits prod.splits option.splits)
  then show ?thesis by (simp add: started_store_inv inv)
qed (use run in simp_all)

section \<open>Properties\<close>

text \<open>
  C4: when a webhook is accepted. With the HMAC authenticator and a pool whose channel is
  open, the answer is 202 exactly for a POST whose body (its first MiB) carries its own
  signature, decodes to a request for an update, is not older than five minutes, arrives
  while no job is active and finds room in the pool.
\<close>

theorem webhook_accepted_iff:
  assumes inv: "store_inv (h_jobStore h)" and auth: "we_validate env = ValidateSignature mac secret"
    and opn: "\<not> p_closed (h_workerPool h)" and run: "HandleWebhook env r h = Inr (w, h')"
  shows "w_Status w = 202 \<longleftrightarrow>
    (\<exists>body req. r_Method r = ''POST'' \<and> read_limited 1048576 r = Some body \<and>
       r_Header r ''X-Cloud-Update-Signature'' = ''sha256='' @ EncodeToString (mac secret body) \<and>
       Unmarshal body = Some req \<and> req_Action req = ''update'' \<and>
       time_sub (we_now env) (time_Unix (req_Timestamp req)) \<le> 300 * second) \<and>
    currentJob (h_jobStore h) = None \<and> \<not> p_shutdown (h_workerPool h) \<and>
    length (p_tasks (h_workerPool h)) < p_maxBacklog (h_workerPool h)"
    (is "_ \<longleftrightarrow> ?req \<and> _ \<and> _ \<and> _")
proof -
  have v: "?req \<longleftrightarrow> (\<exists>req. valid_request pool_validActions env r req)"
    by (auto simp: valid_request_def pool_validActions_def ActionUpdate_def auth
        ValidateSignature_iff signature_header_def expected_signature_def)
  show ?thesis
    using inv
  proof (cases rule: HandleWebhook_cases [where env = env and r = r])
    case (invalid u)
    then have "\<not> ?req" unfolding v by (simp flip: check_request_iff)
    moreover have "w_Status w \<noteq> 202"
      using invalid run check_request_status [OF invalid(1)] by auto
    ultimately show ?thesis by simp
  next
    case (busy req q)
    then show ?thesis using run by (auto simp: busy_response_def)
  next
    case (idle req)
    let ?h = "h\<lparr>h_jobStore := started_store env req (h_jobStore h)\<rparr>"
    have run': "submit_job env req (next_ref (h_jobStore h)) ?h = Inr (w, h')"
      using run idle(3) by simp
    have "w_Status w = 202 \<longleftrightarrow> accepts (h_workerPool h)"
    proof (cases "accepts (h_workerPool h)")
      case True
      then show ?thesis using run' by (auto simp: submit_job_accepts accepted_response_def)
    next
      case False
      then show ?thesis using submit_job_refuses [OF _ run'] by auto
    qed
    moreover have "?req" using idle(1) v by blast
    ultimately show ?thesis using idle(2) opn by (simp add: accepts_def)
  qed
qed

text \<open>A signed request for an update, and the environment it meets.\<close>

definition demo_mac :: "string \<Rightarrow> string \<Rightarrow> byte list" where
  "demo_mac secret body = [of_nat (length secret), of_nat (length body)]"

definition demo_env :: webhook_env where
  "demo_env = \<lparr>we_validate = ValidateSignature demo_mac ''key'',
     we_now = (62135596800 + 1100) * second, we_rand = Some [1, 2], we_idnow1 = 0, we_idnow2 = 0,
     we_start = (62135596800 + 1100) * second, we_fail = 0\<rparr>"

definition demo_request :: http_request where
  "demo_request = \<lparr>r_Method = ''POST'',
     r_Header = (\<lambda>k. if k = ''X-Cloud-Update-Signature''
                     then expected_signature demo_mac ''key'' (Marshal demo_update) else []),
     r_Query = (\<lambda>_. []), r_Body = Marshal demo_update, r_BodyFails = False, r_RemoteAddr = ''10.0.0.1:80''\<rparr>"

definition demo_handler :: webhook_handler where
  "demo_handler = NewWebhookHandlerWithPool (NewPool 10 100)"

lemma demo_valid:
  "valid_request pool_validActions demo_env demo_request demo_update"
  by (simp add: valid_request_def demo_body demo_body_length demo_env_def demo_request_def read_limited_def time_sub_def
      time_Unix_def unix_to_internal_def pool_validActions_def ActionUpdate_def ValidateSignature_iff
      signature_header_def min_duration_def max_duration_def) (simp add: demo_update_def)

lemma demo_handler_sel:
  "h_jobStore demo_handler = NewJobStore" "h_workerPool demo_handler = NewPool 10 100"
  "store_inv (h_jobStore demo_handler)" "currentJob (h_jobStore demo_handler) = None"
  "accepts (h_workerPool demo_handler)"
  by (simp_all add: demo_handler_def NewWebhookHandlerWithPool_def store_inv_init)
    (simp_all add: NewJobStore_def NewPool_def accepts_def)

lemma demo_accepted:
  "\<exists>w h'. HandleWebhook demo_env demo_request demo_handler = Inr (w, h')"
  using HandleWebhook_idle [OF demo_valid demo_handler_sel(3,4)] demo_handler_sel(5)
  by (simp add: submit_job_accepts)

theorem webhook_accepted_iff_witness:
  "\<exists>w h'. HandleWebhook demo_env demo_request demo_handler = Inr (w, h') \<and> w_Status w = 202"
proof -
  obtain w h' where run: "HandleWebhook demo_env demo_request demo_handler = Inr (w, h')"
    using demo_accepted by blast
  have auth: "we_validate demo_env = ValidateSignature demo_mac ''key''" by (simp add: demo_env_def)
  have "\<not> p_closed (h_workerPool demo_handler)" using demo_handler_sel(5) by (simp add: accepts_def)
  from webhook_accepted_iff [OF demo_handler_sel(3) auth this run] have "w_Status w = 202"
    using demo_valid demo_handler_sel(4,5)
    by (auto simp: valid_request_def accepts_def auth ValidateSignature_iff signature_header_def
        expected_signature_def pool_validActions_def ActionUpdate_def)
  with run show ?thesis by blast
qed

text \<open>
  C5: from a client's request to the queue. What a client renders with \<open>json.Marshal\<close> for an
  update, signs with the shared secret and posts in time is answered 202 by an idle service with
  room in its pool; the new job is the running one, and the task that the pool gets is that very
  request (its map in the order of the keys).
\<close>

theorem client_update_accepted:
  assumes req: "request_ok req" "req_Action req = ''update''"
    and post: "r_Method r = ''POST''" "r_Body r = Marshal req" "\<not> r_BodyFails r"
      "length (Marshal req) \<le> 1048576"
    and sig: "r_Header r ''X-Cloud-Update-Signature'' = ''sha256='' @ EncodeToString (mac secret (Marshal req))"
    and fresh: "time_sub (we_now env) (time_Unix (req_Timestamp req)) \<le> 300 * second"
    and auth: "we_validate env = ValidateSignature mac secret"
    and h: "store_inv (h_jobStore h)" "currentJob (h_jobStore h) = None" "accepts (h_workerPool h)"
  shows "\<exists>w h'. HandleWebhook env r h = Inr (w, h') \<and> w_Status w = 202 \<and>
    currentJob (h_jobStore h') = Some (next_ref (h_jobStore h)) \<and>
    IsRunning (heap (h_jobStore h') (next_ref (h_jobStore h))) \<and>
    p_tasks (h_workerPool h') = p_tasks (h_workerPool h) @
      [(req\<lparr>req_Config := sort_key fst (req_Config req)\<rparr>, next_ref (h_jobStore h))]"
proof -
  let ?req = "req\<lparr>req_Config := sort_key fst (req_Config req)\<rparr>"
  have body: "read_limited (1024 * 1024) r = Some (Marshal req)"
    using post by (auto simp: read_limited_def)
  have "we_validate env r (Marshal req)"
    using sig by (simp add: auth ValidateSignature_iff signature_header_def expected_signature_def)
  then have "valid_request pool_validActions env r ?req"
    using body Unmarshal_Marshal [OF req(1)] req(2) post(1) fresh
    by (simp add: valid_request_def pool_validActions_def ActionUpdate_def)
  from HandleWebhook_idle [OF this h(1,2)] show ?thesis
    using h(3) started_store_sel [OF h(2)]
    by (simp add: submit_job_accepts accepted_response_def IsRunning_def)
qed

theorem client_update_accepted_witness:
  "\<exists>w h'. HandleWebhook demo_env demo_request demo_handler = Inr (w, h') \<and> w_Status w = 202 \<and>
     p_tasks (h_workerPool h') = [(demo_update, 0)]"
proof -
  have "\<exists>w h'. HandleWebhook demo_env demo_request demo_handler = Inr (w, h') \<and> w_Status w = 202 \<and>
    currentJob (h_jobStore h') = Some (next_ref (h_jobStore demo_handler)) \<and>
    IsRunning (heap (h_jobStore h') (next_ref (h_jobStore demo_handler))) \<and>
    p_tasks (h_workerPool h') = p_tasks (h_workerPool demo_handler) @
      [(demo_update\<lparr>req_Config := sort_key fst (req_Config demo_update)\<rparr>, next_ref (h_jobStore demo_handler))]"
    by (rule client_update_accepted [OF demo_update_ok, where mac = demo_mac and secret = "''key''"])
      (use demo_handler_sel in \<open>simp_all add: demo_body_length\<close>, simp_all add: demo_update_def
        demo_request_def demo_env_def expected_signature_def time_sub_def time_Unix_def unix_to_internal_def
        min_duration_def max_duration_def)
  then show ?thesis
    by (simp add: demo_handler_sel) (auto simp: NewPool_def NewJobStore_def demo_update_def)
qed

text \<open>
  C34: a request without a timestamp. A body that is an object without the key \<open>timestamp\<close>, in
  any case of its letters, or with \<open>null\<close> for it, is taken to be of 1970 and refused with 400,
  before its signature is looked at and without any effect.
\<close>

theorem missing_timestamp_refused:
  assumes "r_Method r = ''POST''" and body: "read_limited 1048576 r = Some body"
    and obj: "parse_json body = Some (JsonObject ms)"
    and none: "\<forall>(k, v) \<in> set ms. fold_eq ''timestamp'' k \<longrightarrow> v = JsonNull"
    and late: "time_Unix 0 + 5 * minute < we_now env"
  shows "\<exists>w. HandleWebhook env r h = Inr (w, h) \<and> w_Status w = 400"
proof (cases "Unmarshal body")
  case None
  then show ?thesis using assms(1) body
    by (simp add: HandleWebhook_def check_request_def)
next
  case (Some req)
  have "req_Timestamp req = req_Timestamp zero_request"
    by (rule decode_no_timestamp) (use none obj Some in \<open>auto simp: Unmarshal_def\<close>)
  then have "time_sub (we_now env) (time_Unix (req_Timestamp req)) > 5 * minute"
    using late time_sub_gt [of "5 * minute" "we_now env" "time_Unix 0"]
    by (simp add: zero_request_def min_duration_def max_duration_def)
  then show ?thesis using assms(1) body Some
    by (simp add: HandleWebhook_def check_request_def)
qed

theorem missing_timestamp_refused_witness:
  "\<exists>w. HandleWebhook demo_env (demo_request\<lparr>r_Body := ''{}''\<rparr>) demo_handler = Inr (w, demo_handler) \<and>
     w_Status w = 400"
proof -
  have "parse_json ''{}'' = Some (JsonObject [])"
    by (simp add: parse_json_def begin_value_def push_frame_def max_nesting_def json_space_def
        after_value_def)
  then show ?thesis
    by (rule missing_timestamp_refused [rotated 2])
      (simp_all add: demo_request_def read_limited_def demo_env_def time_Unix_def unix_to_internal_def)
qed

text \<open>
  Nothing without a valid signature has any effect. If a request changes the job store or
  the pool at all, it was a POST with the right signature for its own body and asked for an
  update; and every refusal by the checks (400, 401, 405) leaves both as they were.
\<close>

theorem effects_need_signature:
  assumes inv: "store_inv (h_jobStore h)" and auth: "we_validate env = ValidateSignature mac secret"
    and run: "HandleWebhook env r h = Inr (w, h')"
  shows "(h' = h \<or> (\<exists>body req. r_Method r = ''POST'' \<and> read_limited 1048576 r = Some body \<and>
       r_Header r ''X-Cloud-Update-Signature'' = ''sha256='' @ EncodeToString (mac secret body) \<and>
       Unmarshal body = Some req \<and> req_Action req = ''update'')) \<and>
    (w_Status w \<notin> {400, 401, 405} \<or> h' = h)"
  using inv
proof (cases rule: HandleWebhook_cases [where env = env and r = r])
  case (idle req)
  let ?h = "h\<lparr>h_jobStore := started_store env req (h_jobStore h)\<rparr>"
  have run': "submit_job env req (next_ref (h_jobStore h)) ?h = Inr (w, h')" using run idle(3) by simp
  have "w_Status w \<in> {202, 503}"
  proof (cases "accepts (h_workerPool ?h)")
    case True
    then show ?thesis using run' by (auto simp: submit_job_accepts accepted_response_def)
  next
    case False
    then show ?thesis using submit_job_refuses [OF _ run'] by auto
  qed
  then show ?thesis using idle(1)
    by (auto simp: valid_request_def pool_validActions_def ActionUpdate_def auth
        ValidateSignature_iff signature_header_def expected_signature_def)
qed (use run in auto)

theorem effects_need_signature_witness:
  "\<exists>w h'. HandleWebhook demo_env (demo_request\<lparr>r_Body := ''{ }''\<rparr>) demo_handler = Inr (w, h') \<and>
     h' = demo_handler"
proof -
  let ?r = "demo_request\<lparr>r_Body := ''{ }''\<rparr>"
  have auth: "we_validate demo_env = ValidateSignature demo_mac ''key''" by (simp add: demo_env_def)
  have body: "read_limited 1048576 ?r = Some ''{ }''" by (simp add: read_limited_def demo_request_def)
  have sig: "r_Header ?r ''X-Cloud-Update-Signature'' \<noteq> ''sha256='' @ EncodeToString (demo_mac ''key'' ''{ }'')"
    by (simp add: demo_request_def expected_signature_def EncodeToString_inj demo_mac_def demo_body_length
        hex_byte_def hex_digit_def hextable_def)
  have "\<not> valid_request pool_validActions demo_env ?r req" for req
    using sig body
    by (auto simp: valid_request_def auth ValidateSignature_iff signature_header_def
        expected_signature_def)
  then obtain u where "check_request pool_validActions demo_env ?r = Inl u"
    by (cases "check_request pool_validActions demo_env ?r") (auto simp: check_request_iff)
  then have run: "HandleWebhook demo_env ?r demo_handler = Inr (u, demo_handler)"
    by (rule HandleWebhook_invalid)
  then show ?thesis
    using effects_need_signature [OF demo_handler_sel(3) auth run] by blast
qed

text \<open>
  A webhook keeps the invariant of the job store, on every path, the failing ones included.
\<close>

theorem webhook_keeps_store_inv:
  assumes "store_inv (h_jobStore h)" and "HandleWebhook env r h = Inr (w, h')"
  shows "store_inv (h_jobStore h')"
  by (rule handler_inv [OF assms])

theorem webhook_keeps_store_inv_witness:
  "\<exists>w h'. HandleWebhook demo_env demo_request demo_handler = Inr (w, h') \<and> store_inv (h_jobStore h')"
  using demo_accepted webhook_keeps_store_inv [OF demo_handler_sel(3)] by blast


text \<open>
  The freshness window has one side only. A request that passes the checks passes them at
  any other moment up to five minutes after its own timestamp, however early; so a request
  stamped in the future can be replayed until then. Later it is refused.
\<close>

theorem freshness_window:
  assumes "valid_request acts env r req"
    and "min_duration \<le> now - time_Unix (req_Timestamp req)"
  shows "valid_request acts (env\<lparr>we_now := now\<rparr>) r req \<longleftrightarrow>
    now \<le> time_Unix (req_Timestamp req) + 5 * minute"
proof -
  have "time_sub now (time_Unix (req_Timestamp req)) \<le> 5 * minute \<longleftrightarrow>
      now - time_Unix (req_Timestamp req) \<le> 5 * minute"
    using time_sub_gt [of "5 * minute" now "time_Unix (req_Timestamp req)"]
    by (auto simp: min_duration_def max_duration_def not_less [symmetric])
  then show ?thesis using assms(1) by (auto simp: valid_request_def)
qed

theorem freshness_window_witness:
  "valid_request pool_validActions (demo_env\<lparr>we_now := 62135596800 * second\<rparr>) demo_request
     demo_update"
  using freshness_window [OF demo_valid, of "62135596800 * second"]
  by (simp add: time_Unix_def unix_to_internal_def min_duration_def demo_update_def)

definition status_query :: "string \<Rightarrow> http_request" where
  "status_query jobID = \<lparr>r_Method = ''GET'', r_Header = (\<lambda>_. []),
     r_Query = (\<lambda>k. if k = ''job_id'' then jobID else []), r_Body = [], r_BodyFails = False,
     r_RemoteAddr = []\<rparr>"

definition reported_status :: "http_response \<Rightarrow> json_val option" where
  "reported_status w = (case w_Body w of Json kvs \<Rightarrow> map_of kvs ''status'' | _ \<Rightarrow> None)"

lemma HandleJobStatus_found:
  "jobID \<noteq> [] \<Longrightarrow> GetJob jobID s = Some q \<Longrightarrow>
     w_Status (HandleJobStatus (status_query jobID) s) = 200 \<and>
     reported_status (HandleJobStatus (status_query jobID) s) =
       Some (JStr (status_string (job_Status (heap s q))))"
  by (simp add: HandleJobStatus_def status_query_def report_job_def reported_status_def
      job_report_def)

lemma new_job_ID: "job_ID (new_job env req) \<noteq> []"
  by (simp add: new_job_def GenerateJobID_def split: option.splits)

lemma scan_history_new:
  "i \<notin> (\<lambda>q. job_ID (h q)) ` set rs \<Longrightarrow>
     scan_history h i (rs @ [q]) = (if job_ID (h q) = i then Some q else None)"
  by (induction rs) auto

lemma completed_store_sel:
  assumes none: "currentJob s = None" and hist: "0 < maxHistory s"
  shows "heap (CompleteCurrentJob now (started_store env req s)) =
      (heap s)(next_ref s := SetCompleted now (SetRunning (new_job env req)))"
    and "history (CompleteCurrentJob now (started_store env req s)) =
      last_n (maxHistory s - 1) (history s) @ [next_ref s]"
    and "currentJob (CompleteCurrentJob now (started_store env req s)) = None"
proof -
  note sel = started_store_sel [OF none, of env req]
  show "heap (CompleteCurrentJob now (started_store env req s)) =
      (heap s)(next_ref s := SetCompleted now (SetRunning (new_job env req)))"
    by (simp add: complete_finish finish_current_Some(1) [OF sel(1)] sel(5))
  show "history (CompleteCurrentJob now (started_store env req s)) =
      last_n (maxHistory s - 1) (history s) @ [next_ref s]"
    by (simp only: complete_finish finish_current_Some(2) [OF sel(1)] sel(2,4) last_n_Suc [OF hist])
  show "currentJob (CompleteCurrentJob now (started_store env req s)) = None"
    by (simp add: complete_finish)
qed

text \<open>Where the new job is found in the store, while it runs and after it completed.\<close>

lemma started_found:
  "currentJob s = None \<Longrightarrow>
     GetJob (job_ID (new_job env req)) (started_store env req s) = Some (next_ref s)"
  by (simp add: GetJob_def is_current_def started_store_sel)

lemma completed_found:
  assumes inv: "store_inv s" and none: "currentJob s = None" and hist: "0 < maxHistory s"
    and new: "\<And>q. q \<in> set (history s) \<Longrightarrow> job_ID (heap s q) \<noteq> job_ID (new_job env req)"
  shows "GetJob (job_ID (new_job env req)) (CompleteCurrentJob now (started_store env req s)) =
    Some (next_ref s)"
proof -
  let ?s = "CompleteCurrentJob now (started_store env req s)"
  note sel = completed_store_sel [OF none hist, of now env req]
  have "job_ID (heap ?s p) \<noteq> job_ID (new_job env req)"
    if "p \<in> set (last_n (maxHistory s - 1) (history s))" for p
  proof -
    have p: "p \<in> set (history s)" by (rule subsetD [OF set_last_n that])
    then show ?thesis using new [OF p] store_invD(5) [OF inv p] by (simp add: sel(1))
  qed
  then have "job_ID (new_job env req) \<notin>
      (\<lambda>q. job_ID (heap ?s q)) ` set (last_n (maxHistory s - 1) (history s))" by (metis (no_types, lifting) imageE)
  note new_last = scan_history_new [OF this, of "next_ref s"]
  have "scan_history (heap ?s) (job_ID (new_job env req)) (history ?s) = Some (next_ref s)"
    unfolding sel(2) new_last by (simp add: sel(1))
  then show ?thesis by (simp add: GetJob_def is_current_def sel(3))
qed

text \<open>
  C12: an accepted job can be followed to its end. The ID in the header of the 202 answer leads
  \<open>HandleJobStatus\<close> to status 200 and "running" at once, and to "completed" once the job was
  processed, provided the ID is new.
\<close>

theorem accepted_job_is_tracked:
  assumes inv: "store_inv (h_jobStore h)" and run: "HandleWebhook env r h = Inr (w, h')"
    and acc: "w_Status w = 202" and hist: "0 < maxHistory (h_jobStore h)"
    and new: "\<And>q. q \<in> set (history (h_jobStore h)) \<Longrightarrow>
      job_ID (heap (h_jobStore h) q) \<noteq> fst (GenerateJobID (we_rand env) (we_idnow1 env) (we_idnow2 env))"
  shows "\<exists>jobID. map_of (w_Headers w) ''X-Job-ID'' = Some jobID \<and>
    w_Status (HandleJobStatus (status_query jobID) (h_jobStore h')) = 200 \<and>
    reported_status (HandleJobStatus (status_query jobID) (h_jobStore h')) = Some (JStr ''running'') \<and>
    reported_status (HandleJobStatus (status_query jobID) (CompleteCurrentJob now (h_jobStore h'))) =
      Some (JStr ''completed'')"
  using inv
proof (cases rule: HandleWebhook_cases [where env = env and r = r])
  case (invalid u)
  then show ?thesis using run acc check_request_status [OF invalid(1)] by auto
next
  case (busy req q)
  then show ?thesis using run acc by (auto simp: busy_response_def)
next
  case (idle req)
  let ?s = "h_jobStore h" and ?j = "new_job env req"
  let ?h = "h\<lparr>h_jobStore := started_store env req ?s\<rparr>"
  have run': "submit_job env req (next_ref ?s) ?h = Inr (w, h')" using run idle(3) by simp
  have a: "accepts (h_workerPool ?h)"
    by (rule ccontr) (use acc submit_job_refuses [OF _ run'] in auto)
  have w: "w = accepted_response ''Job accepted and processing started in worker pool''
      (heap (started_store env req ?s) (next_ref ?s))"
    and s': "h_jobStore h' = started_store env req ?s"
    using run' submit_job_accepts [OF a, of env req "next_ref ?s"] by auto
  have hd: "map_of (w_Headers w) ''X-Job-ID'' = Some (job_ID ?j)"
    by (simp add: w accepted_response_def started_store_sel(5) [OF idle(2)])
  have new': "q \<in> set (history ?s) \<Longrightarrow> job_ID (heap ?s q) \<noteq> job_ID ?j" for q
    using new by (simp add: new_job_def)
  note found = HandleJobStatus_found [OF new_job_ID started_found [OF idle(2)]]
    HandleJobStatus_found [OF new_job_ID completed_found [OF inv idle(2) hist new']]
  show ?thesis
    using found(1) [of env req] found(2) [of now] hd
    by (simp add: s' completed_store_sel(1) [OF idle(2) hist] started_store_sel(5) [OF idle(2)])
qed

theorem accepted_job_is_tracked_witness:
  "\<exists>w h' jobID. HandleWebhook demo_env demo_request demo_handler = Inr (w, h') \<and>
     map_of (w_Headers w) ''X-Job-ID'' = Some jobID \<and>
     reported_status (HandleJobStatus (status_query jobID) (h_jobStore h')) = Some (JStr ''running'')"
proof -
  obtain w h' where run: "HandleWebhook demo_env demo_request demo_handler = Inr (w, h')"
    and acc: "w_Status w = 202"
    using HandleWebhook_idle [OF demo_valid demo_handler_sel(3,4)] demo_handler_sel(5)
    by (simp add: submit_job_accepts accepted_response_def)
  have "0 < maxHistory (h_jobStore demo_handler)" "history (h_jobStore demo_handler) = []"
    by (simp_all add: demo_handler_sel(1) NewJobStore_def)
  then show ?thesis
    using accepted_job_is_tracked [OF demo_handler_sel(3) run acc] run by fastforce
qed

text \<open>
  A refused hand-over is cleaned up. When the pool is full, a valid request to an idle
  service is answered 503; the slot is free again and the job is recorded as failed, with the
  pool's error as its text.
\<close>

theorem full_pool_frees_slot:
  assumes inv: "store_inv (h_jobStore h)" and v: "valid_request pool_validActions env r req"
    and none: "currentJob (h_jobStore h) = None" and hist: "0 < maxHistory (h_jobStore h)"
    and pool: "\<not> p_shutdown (h_workerPool h)" "\<not> p_closed (h_workerPool h)"
      "p_maxBacklog (h_workerPool h) \<le> length (p_tasks (h_workerPool h))"
  shows "\<exists>w h'. HandleWebhook env r h = Inr (w, h') \<and> w_Status w = 503 \<and>
    currentJob (h_jobStore h') = None \<and> h_workerPool h' = h_workerPool h \<and>
    last (history (h_jobStore h')) = next_ref (h_jobStore h) \<and>
    job_Status (heap (h_jobStore h') (next_ref (h_jobStore h))) = JobStatusFailed \<and>
    job_Error (heap (h_jobStore h') (next_ref (h_jobStore h))) = Some ''worker pool is full''"
  using HandleWebhook_idle [OF v inv none] started_store_sel [OF none, of env req] pool hist
  by (simp add: submit_job_def Submit_def submit_check_def try_send_def fail_finish
      finish_current_Some SetFailed_def last_n_Suc)

definition full_handler :: webhook_handler where
  "full_handler = demo_handler\<lparr>h_workerPool := (NewPool 1 1)\<lparr>p_tasks :=
     [(\<lparr>req_Action = [], req_Module = [], req_Config = [], req_Timestamp = 0\<rparr>, 0)]\<rparr>\<rparr>"

theorem full_pool_frees_slot_witness:
  "\<exists>w h'. HandleWebhook demo_env demo_request full_handler = Inr (w, h') \<and> w_Status w = 503 \<and>
     currentJob (h_jobStore h') = None"
  using full_pool_frees_slot [of full_handler, OF _ demo_valid]
  by (simp add: full_handler_def demo_handler_sel store_inv_init NewPool_def)
    (simp add: NewJobStore_def, blast)

text \<open>
  A job is reported as completed even if its update failed. Whatever executor processes
  the task, and whatever its commands answer, a task that is not cancelled ends with
  \<open>CompleteCurrentJob\<close> (the action service reports no errors).
\<close>

theorem failed_update_completes:
  "fst (run_state (processActionWithContext (NewActionService x) None now (req, q) s) tr) =
     (if req_Action req = ''reboot'' then [SleepThenReboot (job_ID (heap s q))] else [],
      CompleteCurrentJob now s)"
  using ProcessAction_tasks [of x req "job_ID (heap s q)" tr]
  by (simp add: processActionWithContext_def processActionWithStatus_def NewActionService_def
      ActionReboot_def split_beta)

lemma submit_job_tasks:
  "submit_job env req q h = Inr (w, h') \<Longrightarrow>
     set (p_tasks (h_workerPool h')) \<subseteq> insert (req, q) (set (p_tasks (h_workerPool h)))"
  by (auto simp: submit_job_def Submit_def submit_check_def try_send_def split: if_splits)

text \<open>
  C27: the service never reboots on a webhook. Every task a request adds to the pool has the
  action \<open>update\<close>, and processing it, with either executor, runs no \<open>reboot\<close> or \<open>shutdown\<close>
  command and leaves no reboot task behind, although the service's dispatch knows that action.
\<close>

theorem webhook_never_reboots:
  assumes inv: "store_inv (h_jobStore h)" and run: "HandleWebhook env r h = Inr (w, h')"
    and t: "(req, q) \<in> set (p_tasks (h_workerPool h')) - set (p_tasks (h_workerPool h))"
    and x: "priv_ok (privilegeCmd e)" "priv_ok (sec_privilegeCmd e')"
      "x \<in> {default_iface g os e, secure_iface g os e'}"
  shows "req_Action req = ''update'' \<and>
    only_ops (\<lambda>p. \<not> takes_down p) (processActionWithContext (NewActionService x) c now (req, q) s) \<and>
    fst (fst (run_state (processActionWithContext (NewActionService x) c now (req, q) s) tr)) = []"
proof -
  have upd: "req_Action req = ActionUpdate"
    using inv
  proof (cases rule: HandleWebhook_cases [where env = env and r = r])
    case (idle req')
    let ?h = "h\<lparr>h_jobStore := started_store env req' (h_jobStore h)\<rparr>"
    have "submit_job env req' (next_ref (h_jobStore h)) ?h = Inr (w, h')" using run idle(3) by simp
    from submit_job_tasks [OF this] have "req = req'" using t by auto
    then show ?thesis using idle(1) by (simp add: valid_request_def pool_validActions_def)
  qed (use run t in auto)
  have safe: "only_ops (\<lambda>p. \<not> takes_down p) (ProcessAction x req i)" for i
    using x default_exec.process_safe [of e] secure_exec.process_safe [of e'] by auto
  have "only_ops (\<lambda>p. \<not> takes_down p) (processActionWithContext (NewActionService x) c now (req, q) s)"
    using safe by (cases c) (auto simp: processActionWithContext_def processActionWithStatus_def
        NewActionService_def)
  moreover have "fst (fst (run_state (processActionWithContext (NewActionService x) c now (req, q) s) tr)) = []"
    using failed_update_completes [of x now req q s tr] upd
    by (cases c) (simp_all add: processActionWithContext_def action_defs)
  ultimately show ?thesis using upd by (simp add: ActionUpdate_def)
qed

theorem webhook_never_reboots_witness:
  "\<exists>w h'. HandleWebhook demo_env demo_request demo_handler = Inr (w, h') \<and>
     fst (fst (run_state (processActionWithContext
       (NewActionService (default_iface \<lparr>uni_lower = id, uni_trim = id, uni_quote = id,
          parse_ip = (\<lambda>s. True)\<rparr> debian_env \<lparr>privilegeCmd = ''sudo''\<rparr>)) None 0
       (hd (p_tasks (h_workerPool h'))) NewJobStore) [])) = []"
proof -
  let ?req = demo_update
  obtain w h' where run: "HandleWebhook demo_env demo_request demo_handler = Inr (w, h')"
    and tasks: "p_tasks (h_workerPool h') = [(?req, 0)]"
    using HandleWebhook_idle [OF demo_valid demo_handler_sel(3,4)] demo_handler_sel(5)
    by (simp add: submit_job_accepts) (simp add: demo_handler_sel NewPool_def NewJobStore_def)
  have "(?req, 0) \<in> set (p_tasks (h_workerPool h')) - set (p_tasks (h_workerPool demo_handler))"
    by (simp add: tasks demo_handler_sel NewPool_def)
  from webhook_never_reboots [OF demo_handler_sel(3) run this, of "\<lparr>privilegeCmd = ''sudo''\<rparr>"
      "\<lparr>sec_privilegeCmd = ''sudo'', sec_timeout = 0\<rparr>", OF _ _ insertI1,
      where g = "\<lparr>uni_lower = id, uni_trim = id, uni_quote = id, parse_ip = (\<lambda>s. True)\<rparr>"
        and os = debian_env and c = None and now = 0 and s = NewJobStore and tr = "[]"]
  show ?thesis using run by (intro exI [of _ w] exI [of _ h']) (simp add: tasks priv_ok_def)
qed

end
