(* ===== verification/Job_System.thy ===== *)
theory Job_System
  imports Webhook_Handler
begin

text \<open>
  The webhook service with requests that overlap: \<open>HandleWebhook\<close> of
  \<open>webhook_handler_pool.go\<close> run by any number of requests, the workers of the pool that run
  \<open>processActionWithContext\<close>, the cleanup goroutine and the shutdown of the pool, all on one
  job store. There is one rule per critical section: between the rules of one request, steps
  of all others may happen.

  Lemmas: the invariant \<open>js_inv\<close>, whose core is that the active job of the store always has
  exactly one owner (a request about to submit it, the queue of the pool, or a worker) unless
  its submitter panicked; from it the mutual exclusion of actions and the fate of a job.
\<close>

section \<open>State\<close>

text \<open>
  A request past its checks: it has read the current job; has created its own; has started
  it; has passed the check of \<open>Submit\<close>; or has to fail the job after an error of \<open>Submit\<close>.
\<close>

datatype job_client =
  GotCurrent webhook_env webhook_request "job_ref option"
| Created webhook_env webhook_request job_ref
| Started webhook_env webhook_request job_ref
| Sending webhook_env webhook_request job_ref
| Failing webhook_env job_ref pool_error

text \<open>
  A worker that has taken a task (and when, which sets the deadline of the task's context) and
  not yet looked at its context, or runs its action.
\<close>

datatype job_worker = Taken pool_task time | Acting pool_task

fun worker_task :: "job_worker \<Rightarrow> pool_task" where
  "worker_task (Taken t since) = t"
| "worker_task (Acting t) = t"

text \<open>
  Why the context of a task, derived from that of the pool with a timeout of five minutes, can
  be done at a time \<open>now\<close>. (The cancellation of the pool's context reaches it at once; the timer
  of the deadline may fire late.)
\<close>

definition ctx_errors :: "bool \<Rightarrow> time \<Rightarrow> time \<Rightarrow> string set" where
  "ctx_errors cancelled since now =
     (if cancelled then {''context canceled''} else {}) \<union>
     (if now \<ge> since + 5 * minute then {''context deadline exceeded''} else {})"

text \<open>\<open>js_lost\<close> is history: the jobs whose request panicked in \<open>Submit\<close>.\<close>

record job_sys =
  js_store :: job_store
  js_pool :: "pool_task pool"
  js_clients :: "job_client multiset"
  js_workers :: "job_worker multiset"
  js_lost :: "job_ref multiset"

definition js_start :: "int \<Rightarrow> int \<Rightarrow> job_sys" where
  "js_start workers backlog =
     \<lparr>js_store = NewJobStore, js_pool = NewPool workers backlog, js_clients = {#},
      js_workers = {#}, js_lost = {#}\<rparr>"

definition js_init :: "job_sys \<Rightarrow> bool" where
  "js_init s \<longleftrightarrow> (\<exists>workers backlog. s = js_start workers backlog)"

section \<open>Steps\<close>

inductive js_step :: "job_sys \<Rightarrow> job_sys \<Rightarrow> bool" where
  request_checked:
  "valid_request pool_validActions env r req \<Longrightarrow>
   js_step s (s\<lparr>js_clients := add_mset (GotCurrent env req (GetCurrentJob (js_store s))) (js_clients s)\<rparr>)"
| request_conflicts:
  "js_clients s = add_mset (GotCurrent env req (Some q)) cs \<Longrightarrow> IsRunning (heap (js_store s) q) \<Longrightarrow>
   js_step s (s\<lparr>js_clients := cs\<rparr>)"
| request_creates:
  "js_clients s = add_mset (GotCurrent env req c) cs \<Longrightarrow>
   \<forall>q \<in> set_option c. \<not> IsRunning (heap (js_store s) q) \<Longrightarrow>
   create_job env req (js_store s) = Inr (q, st) \<Longrightarrow>
   js_step s (s\<lparr>js_store := st, js_clients := add_mset (Created env req q) cs\<rparr>)"
| request_loses_race:
  "js_clients s = add_mset (Created env req q) cs \<Longrightarrow> TryStartJob q (js_store s) = (False, st) \<Longrightarrow>
   js_step s (s\<lparr>js_store := st, js_clients := cs\<rparr>)"
| request_starts:
  "js_clients s = add_mset (Created env req q) cs \<Longrightarrow> TryStartJob q (js_store s) = (True, st) \<Longrightarrow>
   js_step s (s\<lparr>js_store := st, js_clients := add_mset (Started env req q) cs\<rparr>)"
| submit_refused:
  "js_clients s = add_mset (Started env req q) cs \<Longrightarrow> submit_check (js_pool s) = Some e \<Longrightarrow>
   js_step s (s\<lparr>js_clients := add_mset (Failing env q e) cs\<rparr>)"
| submit_checked:
  "js_clients s = add_mset (Started env req q) cs \<Longrightarrow> submit_check (js_pool s) = None \<Longrightarrow>
   js_step s (s\<lparr>js_clients := add_mset (Sending env req q) cs\<rparr>)"
| submit_sends:
  "js_clients s = add_mset (Sending env req q) cs \<Longrightarrow> try_send (req, q) (js_pool s) = Sent p \<Longrightarrow>
   js_step s (s\<lparr>js_pool := p, js_clients := cs\<rparr>)"
| submit_full:
  "js_clients s = add_mset (Sending env req q) cs \<Longrightarrow> try_send (req, q) (js_pool s) = SendBlocked \<Longrightarrow>
   js_step s (s\<lparr>js_clients := add_mset (Failing env q ErrPoolFull) cs\<rparr>)"
| submit_panics:
  "js_clients s = add_mset (Sending env req q) cs \<Longrightarrow> try_send (req, q) (js_pool s) = SendPanic \<Longrightarrow>
   js_step s (s\<lparr>js_clients := cs, js_lost := add_mset q (js_lost s)\<rparr>)"
| request_fails_job:
  "js_clients s = add_mset (Failing env q e) cs \<Longrightarrow>
   js_step s (s\<lparr>js_store := FailCurrentJob (Some (pool_error_text e)) (we_fail env) (js_store s),
     js_clients := cs\<rparr>)"
| worker_takes:
  "size (js_workers s) < p_workers (js_pool s) \<Longrightarrow> try_recv (js_pool s) = Received t p \<Longrightarrow>
   js_step s (s\<lparr>js_pool := p, js_workers := add_mset (Taken t now) (js_workers s)\<rparr>)"
| worker_cancelled:
  "js_workers s = add_mset (Taken t since) ws \<Longrightarrow>
   err \<in> ctx_errors (p_cancelled (js_pool s)) since now \<Longrightarrow>
   js_step s (s\<lparr>js_store := FailCurrentJob (Some (''job canceled: '' @ err)) now (js_store s),
     js_workers := ws\<rparr>)"
| worker_acts:
  "js_workers s = add_mset (Taken t since) ws \<Longrightarrow> \<not> p_cancelled (js_pool s) \<Longrightarrow>
   js_step s (s\<lparr>js_workers := add_mset (Acting t) ws\<rparr>)"
| worker_completes:
  "js_workers s = add_mset (Acting t) ws \<Longrightarrow>
   js_step s (s\<lparr>js_store := CompleteCurrentJob now (js_store s), js_workers := ws\<rparr>)"
| worker_panics:
  "js_workers s = add_mset (Acting t) ws \<Longrightarrow>
   js_step s (s\<lparr>js_store := FailCurrentJob (Some (panic_text v)) now (js_store s), js_workers := ws\<rparr>)"
| cleanup_ticks:
  "js_step s (s\<lparr>js_store := pool_Cleanup_tick now (js_store s)\<rparr>)"
| shutdown_marks:
  "shutdown_mark (js_pool s) = Some p \<Longrightarrow> js_step s (s\<lparr>js_pool := p\<rparr>)"
| shutdown_closes:
  "p_shutdown (js_pool s) \<Longrightarrow> js_step s (s\<lparr>js_pool := shutdown_close (js_pool s)\<rparr>)"
| shutdown_cancels:
  "p_closed (js_pool s) \<Longrightarrow> js_step s (s\<lparr>js_pool := shutdown_cancel (js_pool s)\<rparr>)"

section \<open>Who owns which job\<close>

fun client_owns :: "job_client \<Rightarrow> job_ref multiset" where
  "client_owns (GotCurrent env req c) = {#}"
| "client_owns (Created env req q) = {#}"
| "client_owns (Started env req q) = {#q#}"
| "client_owns (Sending env req q) = {#q#}"
| "client_owns (Failing env q e) = {#q#}"

fun client_created :: "job_client \<Rightarrow> job_ref multiset" where
  "client_created (Created env req q) = {#q#}"
| "client_created _ = {#}"

definition owners :: "job_sys \<Rightarrow> job_ref multiset" where
  "owners s =
     (\<Sum>c \<in># js_clients s. client_owns c) + mset (map snd (p_tasks (js_pool s))) +
     image_mset (\<lambda>w. snd (worker_task w)) (js_workers s)"

definition created :: "job_sys \<Rightarrow> job_ref multiset" where
  "created s = (\<Sum>c \<in># js_clients s. client_created c)"

definition active :: "job_store \<Rightarrow> job_ref multiset" where
  "active s = (case currentJob s of None \<Rightarrow> {#} | Some q \<Rightarrow> {#q#})"

lemma active_simps [simp]:
  "currentJob s = Some q \<Longrightarrow> active s = {#q#}" "currentJob s = None \<Longrightarrow> active s = {#}"
  by (simp_all add: active_def)

lemma active_single: "active s = M + {#q#} \<longleftrightarrow> M = {#} \<and> currentJob s = Some q"
  by (auto simp: active_def split: option.splits)

definition fresh_all :: "job_store \<Rightarrow> job_ref multiset \<Rightarrow> bool" where
  "fresh_all st M \<longleftrightarrow> (\<forall>q. count M q \<le> 1) \<and> (\<forall>q \<in># M. fresh_job st q)"

definition js_inv :: "job_sys \<Rightarrow> bool" where
  "js_inv s \<longleftrightarrow>
     store_inv (js_store s) \<and> owners s + js_lost s = active (js_store s) \<and>
     fresh_all (js_store s) (created s) \<and>
     0 < p_maxBacklog (js_pool s) \<and> 0 < p_workers (js_pool s) \<and>
     (js_lost s \<noteq> {#} \<longrightarrow> p_closed (js_pool s)) \<and> (p_closed (js_pool s) \<longrightarrow> p_shutdown (js_pool s))"

lemma fresh_all_add:
  "fresh_all st (add_mset q M) \<longleftrightarrow> fresh_job st q \<and> q \<notin># M \<and> fresh_all st M"
proof
  assume f: "fresh_all st (add_mset q M)"
  then have c: "count (add_mset q M) p \<le> 1" for p by (simp add: fresh_all_def)
  have "q \<notin># M" using c [of q] by (simp add: not_in_iff)
  moreover have "count M p \<le> 1" for p using c [of p] by (simp split: if_splits)
  ultimately show "fresh_job st q \<and> q \<notin># M \<and> fresh_all st M"
    using f by (simp add: fresh_all_def)
next
  assume "fresh_job st q \<and> q \<notin># M \<and> fresh_all st M"
  then show "fresh_all st (add_mset q M)"
    by (auto simp: fresh_all_def not_in_iff)
qed

lemma fresh_all_mono:
  assumes "\<And>q. q \<in># M \<Longrightarrow> fresh_job st q \<Longrightarrow> fresh_job st' q"
  shows "fresh_all st M \<Longrightarrow> fresh_all st' M"
  using assms by (simp add: fresh_all_def)

lemma fresh_after_alloc: "fresh_job st q \<Longrightarrow> fresh_job (snd (alloc_job j st)) q"
  by (simp add: fresh_job_def alloc_job_def)

lemma fresh_after_finish:
  "store_inv st \<Longrightarrow> fresh_job st q \<Longrightarrow> fresh_job (finish_current f st) q"
  using fresh_not_current [of st q]
  by (cases "currentJob st") (auto simp: fresh_job_def finish_current_None finish_current_Some)

lemma fresh_after_try: "fresh_job st q \<Longrightarrow> q \<noteq> r \<Longrightarrow> fresh_job (snd (TryStartJob r st)) q"
  by (simp add: fresh_job_def TryStartJob_def)

lemma fresh_after_cleanup: "fresh_job st q \<Longrightarrow> fresh_job (CleanupOldJobs age now st) q"
  by (simp add: fresh_job_def)

lemma active_alloc: "active (snd (alloc_job j st)) = active st"
  by (simp add: active_def alloc_job_def)

lemma active_cleanup: "active (CleanupOldJobs age now st) = active st"
  by (simp add: active_def)

lemma active_finish: "active (finish_current f st) = {#}"
  by simp

lemma owned_is_active:
  assumes "js_inv s" and "owners s = add_mset q M"
  shows "M = {#} \<and> js_lost s = {#} \<and> currentJob (js_store s) = Some q"
  using assms by (auto simp: js_inv_def active_def split: option.splits)

lemma NewPool_sel:
  "p_tasks (NewPool w b) = []" "\<not> p_closed (NewPool w b)" "\<not> p_shutdown (NewPool w b)"
  "\<not> p_cancelled (NewPool w b)"
  by (simp_all add: NewPool_def Let_def)

lemma js_inv_init: "js_init s \<Longrightarrow> js_inv s"
proof -
  assume "js_init s"
  then obtain w b where s: "s = js_start w b" by (auto simp: js_init_def)
  have "active NewJobStore = {#}" by (simp add: NewJobStore_def)
  then show ?thesis
    by (simp add: NewPool_positive s js_start_def js_inv_def store_inv_init owners_def created_def fresh_all_def
        NewPool_sel)
qed

text \<open>
  The ways a step changes the state, each once: only the clients, a finished job, the pool.
\<close>

lemma js_inv_finish:
  assumes inv: "js_inv s" and own: "owners s = add_mset q (owners s')"
    and st: "js_store s' = finish_current f (js_store s)" and f: "store_inv (js_store s')"
    and same: "created s' = created s" "js_pool s' = js_pool s" "js_lost s' = js_lost s"
  shows "js_inv s'"
proof -
  have none: "owners s' = {#}" "js_lost s' = {#}" using owned_is_active [OF inv own] same by auto
  have fr: "fresh_all (js_store s') (created s')"
    unfolding same st using inv
    by (auto simp: js_inv_def intro: fresh_all_mono [rotated] fresh_after_finish)
  show ?thesis using inv f fr none same by (simp add: js_inv_def st)
qed

lemma js_inv_same_store:
  assumes "js_inv s" and "js_store s' = js_store s" and "owners s' + js_lost s' = owners s + js_lost s"
    and "fresh_all (js_store s) (created s')"
    and "p_maxBacklog (js_pool s') = p_maxBacklog (js_pool s)"
    and "p_workers (js_pool s') = p_workers (js_pool s)"
    and "js_lost s' \<noteq> {#} \<longrightarrow> p_closed (js_pool s')" and "p_closed (js_pool s') \<longrightarrow> p_shutdown (js_pool s')"
  shows "js_inv s'"
  using assms by (simp add: js_inv_def)

lemma js_inv_step:
  assumes inv: "js_inv s" and step: "js_step s t"
  shows "js_inv t"
proof -
  have sinv: "store_inv (js_store s)" and fresh: "fresh_all (js_store s) (created s)"
    using inv by (simp_all add: js_inv_def)
  note I = inv [unfolded js_inv_def]
  note defs = owners_def created_def
  from step show ?thesis
  proof cases
    case (request_checked env r req)
    then show ?thesis by (intro js_inv_same_store [OF inv]) (use I in \<open>auto simp: defs\<close>)
  next
    case (request_conflicts env req q cs)
    then show ?thesis by (intro js_inv_same_store [OF inv]) (use I in \<open>auto simp: defs\<close>)
  next
    case (request_creates env req c cs q st)
    then have st: "(q, st) = alloc_job (new_job env req) (js_store s)" by (simp add: create_job_total)
    then have q: "q = next_ref (js_store s)" and st': "st = snd (alloc_job (new_job env req) (js_store s))"
      by (simp_all add: alloc_job_def)
    have "q \<notin># created s" using fresh q by (auto simp: fresh_all_def fresh_job_def)
    moreover have "fresh_job st q"
      unfolding st' new_job_def q by (simp add: fresh_job_def alloc_job_def)
    moreover have "fresh_all st (created s)"
      unfolding st' by (rule fresh_all_mono [OF fresh_after_alloc fresh])
    moreover have "store_inv st" unfolding st' new_job_def by (rule store_inv_alloc [OF sinv])
    moreover have "active st = active (js_store s)" unfolding st' by (rule active_alloc)
    ultimately show ?thesis
      using I request_creates(1,2) by (simp add: js_inv_def defs fresh_all_add)
  next
    case (request_loses_race env req q cs st)
    then have "st = js_store s" by (simp add: TryStartJob_inv [OF sinv] split: if_splits)
    with request_loses_race show ?thesis
      by (intro js_inv_same_store [OF inv]) (use I in \<open>auto simp: defs fresh_all_add\<close>)
  next
    case (request_starts env req q cs st)
    have fq: "fresh_all (js_store s) (add_mset q (\<Sum>c \<in># cs. client_created c))"
      using fresh request_starts(2) by (simp add: created_def)
    then have q: "fresh_job (js_store s) q" "q \<notin># (\<Sum>c \<in># cs. client_created c)"
      and rest: "fresh_all (js_store s) (\<Sum>c \<in># cs. client_created c)" by (simp_all add: fresh_all_add)
    have st: "st = snd (TryStartJob q (js_store s))" using request_starts(3) by simp
    have none: "currentJob (js_store s) = None" and cur: "currentJob st = Some q"
      using request_starts(3) by (auto simp: TryStartJob_inv [OF sinv] split: if_splits)
    have "fresh_all st (\<Sum>c \<in># cs. client_created c)"
      by (rule fresh_all_mono [OF _ rest]) (use q(2) in \<open>auto simp: st intro: fresh_after_try\<close>)
    moreover have "store_inv st" unfolding st by (rule store_inv_try [OF sinv q(1)])
    ultimately show ?thesis
      using I none cur request_starts(1,2) by (simp add: js_inv_def defs)
  next
    case (submit_refused env req q cs e)
    then show ?thesis by (intro js_inv_same_store [OF inv]) (use I in \<open>auto simp: defs\<close>)
  next
    case (submit_checked env req q cs)
    then show ?thesis by (intro js_inv_same_store [OF inv]) (use I in \<open>auto simp: defs\<close>)
  next
    case (submit_sends env req q cs p)
    then show ?thesis
      by (intro js_inv_same_store [OF inv]) (use I in \<open>auto simp: defs step_simps\<close>)
  next
    case (submit_full env req q cs)
    then show ?thesis by (intro js_inv_same_store [OF inv]) (use I in \<open>auto simp: defs\<close>)
  next
    case (submit_panics env req q cs)
    then show ?thesis
      by (intro js_inv_same_store [OF inv]) (use I in \<open>auto simp: defs step_simps\<close>)
  next
    case (request_fails_job env q e cs)
    then show ?thesis
      by (intro js_inv_finish [OF inv, where q = q and f = "SetFailed (Some (pool_error_text e)) (we_fail env)"])
        (auto simp: defs store_inv_fail sinv fail_finish [symmetric])
  next
    case (worker_takes x p now)
    then show ?thesis
      by (intro js_inv_same_store [OF inv]) (use I in \<open>auto simp: defs step_simps\<close>)
  next
    case (worker_cancelled x since ws err now)
    then show ?thesis
      by (intro js_inv_finish [OF inv, where q = "snd x" and f = "SetFailed (Some (''job canceled: '' @ err)) now"])
        (auto simp: defs store_inv_fail sinv fail_finish [symmetric])
  next
    case (worker_acts x since ws)
    then show ?thesis by (intro js_inv_same_store [OF inv]) (use I in \<open>auto simp: defs\<close>)
  next
    case (worker_completes x ws now)
    then show ?thesis
      by (intro js_inv_finish [OF inv, where q = "snd x" and f = "SetCompleted now"])
        (auto simp: defs store_inv_complete sinv complete_finish [symmetric])
  next
    case (worker_panics x ws v now)
    then show ?thesis
      by (intro js_inv_finish [OF inv, where q = "snd x" and f = "SetFailed (Some (panic_text v)) now"])
        (auto simp: defs store_inv_fail sinv fail_finish [symmetric])
  next
    case (cleanup_ticks now)
    have "fresh_all (CleanupOldJobs (30 * minute) now (js_store s)) (created s)"
      by (rule fresh_all_mono [OF fresh_after_cleanup fresh])
    then show ?thesis using I cleanup_ticks
      by (simp add: js_inv_def pool_Cleanup_tick_def defs store_inv_cleanup active_cleanup)
  next
    case (shutdown_marks p)
    then show ?thesis
      by (intro js_inv_same_store [OF inv])
        (use I in \<open>auto simp: defs shutdown_mark_def split: if_splits\<close>)
  next
    case shutdown_closes
    then show ?thesis
      by (intro js_inv_same_store [OF inv]) (use I in \<open>auto simp: defs shutdown_close_def\<close>)
  next
    case shutdown_cancels
    then show ?thesis
      by (intro js_inv_same_store [OF inv]) (use I in \<open>auto simp: defs shutdown_cancel_def\<close>)
  qed
qed

interpretation job_system: inv_system js_init js_step js_inv
  by unfold_locales (auto intro: js_inv_init js_inv_step)

section \<open>What the invariant gives\<close>

lemma js_inv_active: "js_inv s \<Longrightarrow> size (owners s) + size (js_lost s) = size (active (js_store s))"
  by (metis js_inv_def size_union)

lemma active_size: "size (active st) \<le> 1"
  by (simp add: active_def split: option.splits)

lemma owners_size:
  "size (owners s) \<ge> size (js_workers s) + length (p_tasks (js_pool s))"
  by (simp add: owners_def)

lemma one_owner:
  "js_inv s \<Longrightarrow> size (js_workers s) + length (p_tasks (js_pool s)) \<le> 1"
  using js_inv_active [of s] active_size [of "js_store s"] owners_size [of s] by linarith

lemma owner_active: "js_inv s \<Longrightarrow> q \<in># owners s \<Longrightarrow> currentJob (js_store s) = Some q"
  using owned_is_active by (metis multi_member_split)

lemma worker_owns: "w \<in># js_workers s \<Longrightarrow> snd (worker_task w) \<in># owners s"
  by (auto simp: owners_def)

lemma client_owner: "c \<in># js_clients s \<Longrightarrow> q \<in># client_owns c \<Longrightarrow> q \<in># owners s"
  by (auto simp: owners_def)

lemma lost_active: "js_inv s \<Longrightarrow> q \<in># js_lost s \<Longrightarrow> owners s = {#} \<and> currentJob (js_store s) = Some q"
proof -
  assume inv: "js_inv s" and q: "q \<in># js_lost s"
  then obtain L where "js_lost s = add_mset q L" by (metis multi_member_split)
  then have "owners s + L + {#q#} = active (js_store s)" using inv by (simp add: js_inv_def)
  then show ?thesis using active_single [of "js_store s" "owners s + L" q] by simp
qed

lemma lost_mono: "js_step s t \<Longrightarrow> js_lost s \<subseteq># js_lost t"
  by (cases rule: js_step.cases) auto

lemma lost_mono_steps: "js_step\<^sup>*\<^sup>* s t \<Longrightarrow> js_lost s \<subseteq># js_lost t"
  by (induction rule: rtranclp_induct) (auto dest: lost_mono intro: subset_mset.trans)

section \<open>A finished job never changes\<close>

lemma final_kept_finish:
  assumes "store_inv st" and "job_final (heap st q)"
  shows "heap (finish_current f st) q = heap st q"
  using assms current_not_final [OF assms(1)]
  by (cases "currentJob st") (auto simp: finish_current_None finish_current_Some)

lemma final_kept_step:
  assumes inv: "js_inv s" and step: "js_step s t"
    and q: "q < next_ref (js_store s)" and fin: "job_final (heap (js_store s) q)"
  shows "heap (js_store t) q = heap (js_store s) q \<and> q < next_ref (js_store t)"
proof -
  have sinv: "store_inv (js_store s)" using inv by (simp add: js_inv_def)
  note keep = final_kept_finish [OF sinv fin]
  from step show ?thesis
  proof cases
    case (request_creates env req c cs p st)
    then have "st = snd (alloc_job (new_job env req) (js_store s))"
      by (simp add: create_job_total prod_eq_iff)
    then show ?thesis using request_creates q by (simp add: alloc_job_def)
  next
    case (request_loses_race env req p cs st)
    then show ?thesis using q by (simp add: TryStartJob_inv [OF sinv] split: if_splits)
  next
    case (request_starts env req p cs st)
    have "fresh_job (js_store s) p"
      using inv request_starts(2) by (simp add: js_inv_def created_def fresh_all_add)
    then have "p \<noteq> q" using fresh_not_final fin by blast
    then show ?thesis using request_starts q
      by (auto simp: TryStartJob_inv [OF sinv] split: if_splits)
  qed (use q keep in \<open>auto simp: fail_finish complete_finish pool_Cleanup_tick_def\<close>)
qed

lemma final_kept_steps:
  assumes "js_step\<^sup>*\<^sup>* s t" and "js_inv s" and "q < next_ref (js_store s)"
    and "job_final (heap (js_store s) q)"
  shows "heap (js_store t) q = heap (js_store s) q \<and> q < next_ref (js_store t)"
  using assms(1)
proof (induction rule: rtranclp_induct)
  case (step t u)
  have "js_inv t" by (rule job_system.inv_steps [OF step.hyps(1) assms(2)])
  from final_kept_step [OF this step.hyps(2)] step.IH assms(4) show ?case by simp
qed (use assms in simp)

section \<open>An accepted job can run to its end\<close>

lemma finishing_step:
  "js_step s t \<Longrightarrow> currentJob (js_store t) = None \<Longrightarrow>
     \<exists>t. js_step\<^sup>*\<^sup>* s t \<and> currentJob (js_store t) = None"
  by blast

lemma acting_can_finish:
  assumes "Acting x \<in># js_workers s"
  shows "\<exists>t. js_step\<^sup>*\<^sup>* s t \<and> currentJob (js_store t) = None"
proof -
  obtain ws where "js_workers s = add_mset (Acting x) ws" using assms by (metis multi_member_split)
  from worker_completes [OF this] show ?thesis
    by (rule finishing_step) (simp add: complete_finish)
qed

lemma taken_can_finish:
  assumes "Taken x since \<in># js_workers s"
  shows "\<exists>t. js_step\<^sup>*\<^sup>* s t \<and> currentJob (js_store t) = None"
proof -
  obtain ws where ws: "js_workers s = add_mset (Taken x since) ws"
    using assms by (metis multi_member_split)
  show ?thesis
  proof (cases "p_cancelled (js_pool s)")
    case True
    then have "''context canceled'' \<in> ctx_errors (p_cancelled (js_pool s)) since since"
      by (simp add: ctx_errors_def)
    from worker_cancelled [OF ws this] show ?thesis
      by (rule finishing_step) (simp add: fail_finish)
  next
    case False
    from worker_acts [OF ws False] acting_can_finish [of x "s\<lparr>js_workers := add_mset (Acting x) ws\<rparr>"]
    show ?thesis by (auto intro: converse_rtranclp_into_rtranclp)
  qed
qed

lemma queued_can_finish:
  assumes "js_inv s" and "p_tasks (js_pool s) = x # xs"
  shows "\<exists>t. js_step\<^sup>*\<^sup>* s t \<and> currentJob (js_store t) = None"
proof -
  have "js_workers s = {#}" using one_owner [OF assms(1)] assms(2) by simp
  then have "size (js_workers s) < p_workers (js_pool s)" using assms(1) by (simp add: js_inv_def)
  from worker_takes [OF this, of x "(js_pool s)\<lparr>p_tasks := xs\<rparr>"] assms(2)
    taken_can_finish [of x 0 "s\<lparr>js_pool := (js_pool s)\<lparr>p_tasks := xs\<rparr>, js_workers := add_mset (Taken x 0) (js_workers s)\<rparr>"]
  show ?thesis by (auto simp: step_simps intro: converse_rtranclp_into_rtranclp)
qed

lemma sending_can_finish:
  assumes inv: "js_inv s" and c: "Sending env req q \<in># js_clients s" and opn: "\<not> p_closed (js_pool s)"
  shows "\<exists>t. js_step\<^sup>*\<^sup>* s t \<and> currentJob (js_store t) = None"
proof -
  obtain cs where cs: "js_clients s = add_mset (Sending env req q) cs"
    using c by (metis multi_member_split)
  have "p_tasks (js_pool s) = []"
    using owned_is_active [OF inv, of q] cs by (auto simp: owners_def)
  then have "try_send (req, q) (js_pool s) = Sent ((js_pool s)\<lparr>p_tasks := [(req, q)]\<rparr>)"
    using opn inv by (simp add: js_inv_def step_simps)
  from submit_sends [OF cs this] have st: "js_step s (s\<lparr>js_pool := (js_pool s)\<lparr>p_tasks := [(req, q)]\<rparr>,
      js_clients := cs\<rparr>)" .
  from queued_can_finish [OF js_inv_step [OF inv st]] st
  show ?thesis by (auto intro: converse_rtranclp_into_rtranclp)
qed

lemma failing_can_finish:
  assumes "Failing env q e \<in># js_clients s"
  shows "\<exists>t. js_step\<^sup>*\<^sup>* s t \<and> currentJob (js_store t) = None"
proof -
  obtain cs where "js_clients s = add_mset (Failing env q e) cs" using assms by (metis multi_member_split)
  from request_fails_job [OF this] show ?thesis
    by (rule finishing_step) (simp add: fail_finish)
qed

lemma started_can_finish:
  assumes inv: "js_inv s" and c: "Started env req q \<in># js_clients s" and opn: "\<not> p_closed (js_pool s)"
  shows "\<exists>t. js_step\<^sup>*\<^sup>* s t \<and> currentJob (js_store t) = None"
proof -
  obtain cs where cs: "js_clients s = add_mset (Started env req q) cs"
    using c by (metis multi_member_split)
  show ?thesis
  proof (cases "submit_check (js_pool s)")
    case None
    note st = submit_checked [OF cs None]
    from sending_can_finish [OF js_inv_step [OF inv st], of env req q] opn st show ?thesis
      by (auto intro: converse_rtranclp_into_rtranclp)
  next
    case (Some e)
    note st = submit_refused [OF cs Some]
    from failing_can_finish [of env q e "s\<lparr>js_clients := add_mset (Failing env q e) cs\<rparr>"] st
    show ?thesis by (auto intro: converse_rtranclp_into_rtranclp)
  qed
qed

lemma active_can_finish:
  assumes inv: "js_inv s" and opn: "\<not> p_closed (js_pool s)"
  shows "\<exists>t. js_step\<^sup>*\<^sup>* s t \<and> currentJob (js_store t) = None"
proof (cases "currentJob (js_store s)")
  case None
  then show ?thesis by blast
next
  case (Some q)
  have "js_lost s = {#}" using inv opn by (auto simp: js_inv_def)
  then have own: "q \<in># owners s" using inv Some by (simp add: js_inv_def)
  then consider (client) c where "c \<in># js_clients s" "q \<in># client_owns c"
    | (queue) "p_tasks (js_pool s) \<noteq> []" | (worker) w where "w \<in># js_workers s"
    by (fastforce simp: owners_def)
  then show ?thesis
  proof cases
    case (client c)
    then show ?thesis
      by (cases c) (auto intro: started_can_finish [OF inv _ opn] sending_can_finish [OF inv _ opn]
          failing_can_finish)
  next
    case queue
    then show ?thesis by (auto simp: neq_Nil_conv intro: queued_can_finish [OF inv])
  next
    case (worker w)
    then show ?thesis by (cases w) (auto intro: acting_can_finish taken_can_finish)
  qed
qed

section \<open>A concrete run\<close>

text \<open>
  A run that ends in a lost job: a request has passed the check of \<open>Submit\<close> when the pool is
  marked, and sends after it is closed.
\<close>

definition demo_store :: "nat \<Rightarrow> job_store" where
  "demo_store n =
     (let s1 = snd (alloc_job (new_job demo_env demo_update) NewJobStore)
      in [NewJobStore, s1, snd (TryStartJob 0 s1)] ! n)"

definition demo_run :: "job_sys list" where
  "demo_run =
    (let s0 = js_start 1 1; p = js_pool s0; E = demo_env; R = demo_update in
     [s0,
      s0\<lparr>js_clients := {#GotCurrent E R None#}\<rparr>,
      s0\<lparr>js_store := demo_store 1, js_clients := {#Created E R 0#}\<rparr>,
      s0\<lparr>js_store := demo_store 2, js_clients := {#Started E R 0#}\<rparr>,
      s0\<lparr>js_store := demo_store 2, js_clients := {#Sending E R 0#}\<rparr>,
      s0\<lparr>js_store := demo_store 2, js_clients := {#Sending E R 0#}, js_pool := p\<lparr>p_shutdown := True\<rparr>\<rparr>,
      s0\<lparr>js_store := demo_store 2, js_clients := {#Sending E R 0#},
         js_pool := p\<lparr>p_shutdown := True, p_closed := True\<rparr>\<rparr>,
      s0\<lparr>js_store := demo_store 2, js_pool := p\<lparr>p_shutdown := True, p_closed := True\<rparr>,
         js_clients := {#}, js_lost := {#0#}\<rparr>])"

lemma demo_start:
  "create_job demo_env demo_update NewJobStore = Inr (0, demo_store 1)"
  "TryStartJob 0 (demo_store 1) = (True, demo_store 2)"
  by (simp_all add: create_job_total demo_store_def alloc_job_def NewJobStore_def TryStartJob_def
      current_running_def)

lemma demo_js_start:
  "js_store (js_start 1 1) = NewJobStore" "js_clients (js_start 1 1) = {#}"
  "js_lost (js_start 1 1) = {#}" "\<not> p_shutdown (js_pool (js_start 1 1))"
  "\<not> p_closed (js_pool (js_start 1 1))" "GetCurrentJob NewJobStore = None"
  by (simp_all add: js_start_def NewPool_sel GetCurrentJob_def NewJobStore_def)

lemma demo_run_steps:
  "js_step (demo_run ! 0) (demo_run ! 1)" "js_step (demo_run ! 1) (demo_run ! 2)"
  "js_step (demo_run ! 2) (demo_run ! 3)" "js_step (demo_run ! 3) (demo_run ! 4)"
  "js_step (demo_run ! 4) (demo_run ! 5)" "js_step (demo_run ! 5) (demo_run ! 6)"
  "js_step (demo_run ! 6) (demo_run ! 7)"
proof -
  note d = demo_run_def Let_def demo_js_start demo_start
  show "js_step (demo_run ! 0) (demo_run ! 1)"
    using request_checked [OF demo_valid, of "demo_run ! 0"] by (simp add: d demo_update_def)
  show "js_step (demo_run ! 1) (demo_run ! 2)"
    using request_creates [of "demo_run ! 1" demo_env demo_update None "{#}" 0 "demo_store 1"]
    by (simp add: d)
  show "js_step (demo_run ! 2) (demo_run ! 3)"
    using request_starts [of "demo_run ! 2" demo_env demo_update 0 "{#}" "demo_store 2"]
    by (simp add: d del: One_nat_def)
  show "js_step (demo_run ! 3) (demo_run ! 4)"
    using submit_checked [of "demo_run ! 3" demo_env demo_update 0 "{#}"]
    by (simp add: d submit_check_def)
  show "js_step (demo_run ! 4) (demo_run ! 5)"
    using shutdown_marks [of "demo_run ! 4" "(js_pool (js_start 1 1))\<lparr>p_shutdown := True\<rparr>"]
    by (simp add: d shutdown_mark_def)
  show "js_step (demo_run ! 5) (demo_run ! 6)"
    using shutdown_closes [of "demo_run ! 5"] by (simp add: d shutdown_close_def)
  show "js_step (demo_run ! 6) (demo_run ! 7)"
    using submit_panics [of "demo_run ! 6" demo_env demo_update 0 "{#}"] by (simp add: d step_simps)
qed

lemma demo_run_reach: "n \<le> 7 \<Longrightarrow> reach js_init js_step (demo_run ! n)"
proof -
  have 0: "reach js_init js_step (demo_run ! 0)"
    by (rule reach_init) (auto simp: demo_run_def js_init_def Let_def)
  note r = reach_step [where init = js_init and step = js_step]
  note r1 = r [OF 0 demo_run_steps(1)]
  note r2 = r [OF r1 demo_run_steps(2)]
  note r3 = r [OF r2 demo_run_steps(3)]
  note r4 = r [OF r3 demo_run_steps(4)]
  note r5 = r [OF r4 demo_run_steps(5)]
  note r6 = r [OF r5 demo_run_steps(6)]
  note r7 = r [OF r6 demo_run_steps(7)]
  assume "n \<le> 7"
  then consider "n = 0" | "n = 1" | "n = 2" | "n = 3" | "n = 4" | "n = 5" | "n = 6" | "n = 7" by linarith
  then show ?thesis using 0 r1 r2 r3 r4 r5 r6 r7 by cases simp_all
qed

text \<open>The same request without the shutdown: sent, taken by a worker, and completed.\<close>

definition demo_end :: "job_sys list" where
  "demo_end =
    (let s4 = demo_run ! 4; p = js_pool s4; t = (demo_update, 0) in
     [s4\<lparr>js_pool := p\<lparr>p_tasks := [t]\<rparr>, js_clients := {#}\<rparr>,
      s4\<lparr>js_pool := p, js_clients := {#}, js_workers := {#Taken t 0#}\<rparr>,
      s4\<lparr>js_pool := p, js_clients := {#}, js_workers := {#Acting t#}\<rparr>,
      s4\<lparr>js_pool := p, js_clients := {#}, js_workers := {#}, js_store := CompleteCurrentJob 9 (demo_store 2)\<rparr>])"

lemma demo_run_4:
  "demo_run ! 4 = \<lparr>js_store = demo_store 2, js_pool = NewPool 1 1,
     js_clients = {#Sending demo_env demo_update 0#}, js_workers = {#}, js_lost = {#}\<rparr>"
  by (simp add: demo_run_def Let_def js_start_def)

lemma demo_end_steps:
  "js_step (demo_run ! 4) (demo_end ! 0)" "js_step (demo_end ! 0) (demo_end ! 1)"
  "js_step (demo_end ! 1) (demo_end ! 2)" "js_step (demo_end ! 2) (demo_end ! 3)"
proof -
  note d = demo_end_def Let_def demo_run_4
  have np: "NewPool 1 1 = \<lparr>p_workers = 1, p_tasks = [], p_closed = False, p_cancelled = False,
      p_maxBacklog = 1, p_shutdown = False\<rparr>" by (simp add: NewPool_def)
  show "js_step (demo_run ! 4) (demo_end ! 0)"
    using submit_sends [of "demo_run ! 4" demo_env demo_update 0 "{#}"
        "(NewPool 1 1)\<lparr>p_tasks := [(demo_update, 0)]\<rparr>"] by (simp add: d np step_simps)
  show "js_step (demo_end ! 0) (demo_end ! 1)"
    using worker_takes [of "demo_end ! 0" "(demo_update, 0)" "NewPool 1 1" 0]
    by (simp add: d np step_simps)
  show "js_step (demo_end ! 1) (demo_end ! 2)"
    using worker_acts [of "demo_end ! 1" "(demo_update, 0)" 0 "{#}"] by (simp add: d NewPool_sel)
  show "js_step (demo_end ! 2) (demo_end ! 3)"
    using worker_completes [of "demo_end ! 2" "(demo_update, 0)" "{#}" 9] by (simp add: d)
qed

lemma demo_end_reach:
  "reach js_init js_step (demo_end ! 2)" "reach js_init js_step (demo_end ! 3)"
proof -
  have "reach js_init js_step (demo_run ! 4)" by (rule demo_run_reach) simp
  from reach_step [OF reach_step [OF reach_step [OF this demo_end_steps(1)] demo_end_steps(2)]
      demo_end_steps(3)]
  show 2: "reach js_init js_step (demo_end ! 2)" .
  show "reach js_init js_step (demo_end ! 3)" by (rule reach_step [OF 2 demo_end_steps(4)])
qed

section \<open>Properties\<close>

text \<open>
  C1: one action at a time. Although the pool has many workers, in every reachable state at
  most one task is queued or being run, so no two actions ever run concurrently.
\<close>

theorem one_action_at_a_time:
  assumes "reach js_init js_step s"
  shows "size (js_workers s) + length (p_tasks (js_pool s)) \<le> 1"
  by (rule one_owner [OF job_system.inv_reach [OF assms]])

theorem one_action_at_a_time_witness:
  "size (js_workers (demo_run ! 4)) + length (p_tasks (js_pool (demo_run ! 4))) \<le> 1"
  by (rule one_action_at_a_time [OF demo_run_reach]) simp

text \<open>
  C2: a worker finishes its own job. \<open>CompleteCurrentJob\<close> and \<open>FailCurrentJob\<close> act on whatever
  job is current; in every reachable state that is the job of the worker that calls them.
\<close>

theorem worker_finishes_own_job:
  assumes "reach js_init js_step s" and "w \<in># js_workers s"
  shows "currentJob (js_store s) = Some (snd (worker_task w)) \<and>
    IsRunning (heap (js_store s) (snd (worker_task w)))"
proof -
  have inv: "js_inv s" by (rule job_system.inv_reach [OF assms(1)])
  have "currentJob (js_store s) = Some (snd (worker_task w))"
    by (rule owner_active [OF inv worker_owns [OF assms(2)]])
  moreover have "store_inv (js_store s)" using inv by (simp add: js_inv_def)
  ultimately show ?thesis using store_invD(4) by blast
qed

theorem worker_finishes_own_job_witness:
  "currentJob (js_store (demo_end ! 2)) = Some 0"
  using worker_finishes_own_job [OF demo_end_reach(1), of "Acting (demo_update, 0)"]
  by (simp add: demo_end_def Let_def)

text \<open>
  C11: the capacity error is unreachable in operation. Whenever a request is about to hand its
  job to the pool, the queue is empty: "worker pool is full" (503) cannot happen, and the
  only error of \<open>Submit\<close> is that of a pool that is shut down.
\<close>

theorem pool_never_full:
  assumes "reach js_init js_step s" and "Sending env req q \<in># js_clients s"
  shows "p_tasks (js_pool s) = [] \<and> try_send (req, q) (js_pool s) \<noteq> SendBlocked"
proof -
  have inv: "js_inv s" by (rule job_system.inv_reach [OF assms(1)])
  obtain cs where "js_clients s = add_mset (Sending env req q) cs"
    using assms(2) by (metis multi_member_split)
  then have "p_tasks (js_pool s) = []"
    using owned_is_active [OF inv, of q] by (auto simp: owners_def)
  then show ?thesis using inv by (simp add: js_inv_def step_simps)
qed

theorem pool_never_full_witness:
  "try_send (demo_update, 0) (js_pool (demo_run ! 4)) \<noteq> SendBlocked"
proof -
  have "Sending demo_env demo_update 0 \<in># js_clients (demo_run ! 4)"
    by (simp add: demo_run_def Let_def)
  then show ?thesis using pool_never_full [OF demo_run_reach [of 4]] by simp
qed

text \<open>
  C8: a finished job never changes again. Whatever requests, workers and cleanups do later,
  its status, end time and error stay as they were when it first was completed or failed.
\<close>

theorem finished_jobs_immutable:
  assumes "reach js_init js_step s" and "js_step\<^sup>*\<^sup>* s t"
    and "q < next_ref (js_store s)" and "job_final (heap (js_store s) q)"
  shows "heap (js_store t) q = heap (js_store s) q"
  using final_kept_steps [OF assms(2) job_system.inv_reach [OF assms(1)] assms(3,4)] by blast

theorem finished_jobs_immutable_witness:
  "job_Status (heap (js_store (demo_end ! 3)) 0) = JobStatusCompleted \<and>
   heap (pool_Cleanup_tick 100 (js_store (demo_end ! 3))) 0 = heap (js_store (demo_end ! 3)) 0"
proof -
  let ?s = "demo_end ! 3"
  have st: "js_store ?s = CompleteCurrentJob 9 (demo_store 2)" by (simp add: demo_end_def Let_def)
  have cur: "currentJob (demo_store 2) = Some 0" "next_ref (demo_store 2) = 1"
    by (simp_all add: demo_store_def alloc_job_def TryStartJob_def current_running_def NewJobStore_def)
  have fin: "job_Status (heap (js_store ?s) 0) = JobStatusCompleted" "next_ref (js_store ?s) = 1"
    using cur by (simp_all add: st complete_finish finish_current_Some)
  have "js_step\<^sup>*\<^sup>* ?s (?s\<lparr>js_store := pool_Cleanup_tick 100 (js_store ?s)\<rparr>)"
    using cleanup_ticks by blast
  from finished_jobs_immutable [OF demo_end_reach(2) this, of 0] fin show ?thesis
    by (simp add: job_final_iff)
qed

text \<open>
  C10: no job is stuck while the pool is open. From every reachable state in which the pool's
  channel is open, the steps of the job's owner alone lead to a state with a free slot.
\<close>

theorem slot_can_be_freed:
  assumes "reach js_init js_step s" and "\<not> p_closed (js_pool s)"
  shows "\<exists>t. js_step\<^sup>*\<^sup>* s t \<and> currentJob (js_store t) = None"
  by (rule active_can_finish [OF job_system.inv_reach [OF assms(1)] assms(2)])

theorem slot_can_be_freed_witness:
  "\<exists>t. js_step\<^sup>*\<^sup>* (demo_run ! 4) t \<and> currentJob (js_store t) = None"
  by (rule slot_can_be_freed [OF demo_run_reach])
    (simp_all add: demo_run_def Let_def demo_js_start)

text \<open>
  C39: a panic in \<open>Submit\<close> blocks the service for good. It can happen during a shutdown; from
  then on the job that was never submitted stays the running one, no worker or request owns
  it, and no later step of any kind frees the slot.
\<close>

theorem lost_job_blocks_forever:
  assumes "reach js_init js_step s" and "q \<in># js_lost s" and "js_step\<^sup>*\<^sup>* s t"
  shows "currentJob (js_store t) = Some q \<and> IsRunning (heap (js_store t) q) \<and> owners t = {#}"
proof -
  have inv: "js_inv t"
    using assms(1,3) job_system.inv_reach job_system.inv_steps by blast
  have "q \<in># js_lost t" using assms(2,3) lost_mono_steps by (meson mset_subset_eqD)
  then have "owners t = {#} \<and> currentJob (js_store t) = Some q" by (rule lost_active [OF inv])
  moreover have "store_inv (js_store t)" using inv by (simp add: js_inv_def)
  ultimately show ?thesis using store_invD(4) by blast
qed

theorem lost_job_blocks_forever_witness:
  "reach js_init js_step (demo_run ! 7) \<and> currentJob (js_store (demo_run ! 7)) = Some 0 \<and>
   owners (demo_run ! 7) = {#}"
proof -
  have "0 \<in># js_lost (demo_run ! 7)" by (simp add: demo_run_def Let_def)
  from lost_job_blocks_forever [OF demo_run_reach [of 7] this rtranclp.rtrancl_refl]
  show ?thesis using demo_run_reach [of 7] by simp
qed

end
