(* ===== verification/Job_Lifecycle.thy ===== *)
theory Job_Lifecycle
  imports Job_System
begin

text \<open>
  The jobs of the concurrent service over time: every job that exists in a reachable state is
  well formed, and later states show the same job, as far along its lifecycle or further.

  Lemmas: \<open>job_advances\<close>, the order of the versions of one job; every step of \<open>js_step\<close> moves
  every job along it.
\<close>

section \<open>Versions of a job\<close>

definition job_advances :: "job \<Rightarrow> job \<Rightarrow> bool" where
  "job_advances j k \<longleftrightarrow>
     job_ID k = job_ID j \<and> job_Action k = job_Action j \<and> job_StartTime k = job_StartTime j \<and>
     job_Status j \<le> job_Status k \<and> (job_final j \<longrightarrow> k = j)"

lemma job_advances_refl: "job_advances j j"
  by (simp add: job_advances_def)

lemma job_advances_trans: "job_advances i j \<Longrightarrow> job_advances j k \<Longrightarrow> job_advances i k"
  by (auto simp: job_advances_def intro: order_trans)

lemma job_advances_run: "\<not> job_final j \<Longrightarrow> job_advances j (SetRunning j)"
  by (cases "job_Status j")
    (auto simp: job_advances_def job_final_iff SetRunning_def less_eq_job_status_def)

lemma job_advances_finish:
  "\<not> job_final j \<Longrightarrow> job_advances j (SetCompleted now j)"
  "\<not> job_final j \<Longrightarrow> job_advances j (SetFailed err now j)"
  by (cases "job_Status j";
      auto simp: job_advances_def job_final_iff SetCompleted_def SetFailed_def
        less_eq_job_status_def)+

section \<open>Steps\<close>

definition jobs_advance :: "job_store \<Rightarrow> job_store \<Rightarrow> bool" where
  "jobs_advance s t \<longleftrightarrow>
     next_ref s \<le> next_ref t \<and> (\<forall>q < next_ref s. job_advances (heap s q) (heap t q))"

lemma jobs_advance_refl: "jobs_advance s s"
  by (simp add: jobs_advance_def job_advances_refl)

lemma jobs_advance_trans: "jobs_advance r s \<Longrightarrow> jobs_advance s t \<Longrightarrow> jobs_advance r t"
  unfolding jobs_advance_def by (meson job_advances_trans order_less_le_trans order_trans)

lemma jobs_advance_alloc: "jobs_advance s (snd (alloc_job j s))"
  by (simp add: jobs_advance_def alloc_job_def job_advances_refl)

lemma jobs_advance_try: "store_inv s \<Longrightarrow> fresh_job s r \<Longrightarrow> jobs_advance s (snd (TryStartJob r s))"
  using job_advances_run [OF fresh_not_final [of s r]]
  by (simp add: jobs_advance_def TryStartJob_def job_advances_refl)

lemma jobs_advance_finish:
  assumes "store_inv s" and "\<And>j. \<not> job_final j \<Longrightarrow> job_advances j (f j)"
  shows "jobs_advance s (finish_current f s)"
  using assms(2) current_not_final [OF assms(1)]
  by (cases "currentJob s")
    (auto simp: jobs_advance_def finish_current_None finish_current_Some job_advances_refl)

lemma jobs_advance_cleanup: "jobs_advance s (pool_Cleanup_tick now s)"
  by (simp add: jobs_advance_def pool_Cleanup_tick_def CleanupOldJobs_def job_advances_refl)

lemmas advance_rules = jobs_advance_refl jobs_advance_alloc jobs_advance_try
  jobs_advance_finish jobs_advance_cleanup job_advances_finish

lemma jobs_advance_step:
  assumes inv: "js_inv s" and step: "js_step s t"
  shows "jobs_advance (js_store s) (js_store t)"
proof -
  have sinv: "store_inv (js_store s)" using inv by (simp add: js_inv_def)
  from step show ?thesis
  proof cases
    case (request_creates env req c cs p st)
    then have "st = snd (alloc_job (new_job env req) (js_store s))"
      by (simp add: create_job_total prod_eq_iff)
    then show ?thesis using request_creates by (simp add: jobs_advance_alloc)
  next
    case (request_loses_race env req p cs st)
    then show ?thesis
      by (simp add: TryStartJob_inv [OF sinv] jobs_advance_refl split: if_splits)
  next
    case (request_starts env req p cs st)
    have "fresh_job (js_store s) p"
      using inv request_starts(2) by (simp add: js_inv_def created_def fresh_all_add)
    from jobs_advance_try [OF sinv this] show ?thesis using request_starts(1,3) by simp
  qed (use sinv in \<open>auto simp: fail_finish complete_finish intro: advance_rules\<close>)
qed

lemma jobs_advance_steps:
  assumes "js_step\<^sup>*\<^sup>* s t" and "js_inv s"
  shows "jobs_advance (js_store s) (js_store t)"
  using assms(1)
proof (induction rule: rtranclp_induct)
  case (step t u)
  have "js_inv t" by (rule job_system.inv_steps [OF step.hyps(1) assms(2)])
  from jobs_advance_trans [OF step.IH jobs_advance_step [OF this step.hyps(2)]] show ?case .
qed (rule jobs_advance_refl)

section \<open>Properties\<close>

text \<open>
  C9: the jobs keep their type. In every reachable state of the concurrent service each job
  has an end time exactly when it is completed or failed, and an error only when it failed;
  whatever happens later, its ID, action and start time stay and its status only moves
  forward, from pending over running to one of the two final ones.
\<close>

theorem jobs_keep_type:
  assumes "reach js_init js_step s" and "js_step\<^sup>*\<^sup>* s t" and "q < next_ref (js_store s)"
  shows "job_wf (heap (js_store t) q) \<and>
    job_ID (heap (js_store t) q) = job_ID (heap (js_store s) q) \<and>
    job_Action (heap (js_store t) q) = job_Action (heap (js_store s) q) \<and>
    job_StartTime (heap (js_store t) q) = job_StartTime (heap (js_store s) q) \<and>
    GetStatus (heap (js_store s) q) \<le> GetStatus (heap (js_store t) q)"
proof -
  have inv: "js_inv s" by (rule job_system.inv_reach [OF assms(1)])
  have adv: "jobs_advance (js_store s) (js_store t)"
    by (rule jobs_advance_steps [OF assms(2) inv])
  have "store_inv (js_store t)"
    using job_system.inv_steps [OF assms(2) inv] by (simp add: js_inv_def)
  from store_invD(1) [OF this, of q] adv assms(3) show ?thesis
    by (simp add: jobs_advance_def job_advances_def GetStatus_def)
qed

theorem jobs_keep_type_witness:
  "job_wf (heap (js_store (demo_end ! 3)) 0) \<and>
   job_ID (heap (js_store (demo_end ! 3)) 0) = job_ID (heap (js_store (demo_end ! 2)) 0) \<and>
   GetStatus (heap (js_store (demo_end ! 2)) 0) < GetStatus (heap (js_store (demo_end ! 3)) 0)"
proof -
  have run: "js_step\<^sup>*\<^sup>* (demo_end ! 2) (demo_end ! 3)" using demo_end_steps(4) by blast
  have "0 < next_ref (js_store (demo_end ! 2)) \<and>
      GetStatus (heap (js_store (demo_end ! 2)) 0) = JobStatusRunning \<and>
      GetStatus (heap (js_store (demo_end ! 3)) 0) = JobStatusCompleted"
    by (simp add: demo_end_def Let_def demo_run_4 demo_store_def alloc_job_def TryStartJob_def
        current_running_def NewJobStore_def complete_finish finish_current_def GetStatus_def
        SetCompleted_def addToHistory_def upd_job_def)
  with jobs_keep_type [OF demo_end_reach(1) run, of 0] show ?thesis
    by (simp add: less_job_status_def)
qed

end
