(* ===== verification/Go_Time.thy ===== *)
theory Go_Time
  imports Go_Text "HOL-Library.Char_ord" "HOL-Library.List_Lexorder" "HOL-Library.Product_Lexorder"
begin

text \<open>
  The date and time of a clock reading and \<open>t.Format("20060102-150405")\<close>, the suffix of a rotated
  log file. The zone of the machine is a function: seconds east of UTC at a clock reading. The
  calendar is the proleptic Gregorian one of Go's \<open>time\<close>; readings are not before year 1.

  Lemmas: as texts the suffixes are ordered as the local times are, up to year 9999.
\<close>

section \<open>The calendar\<close>

text \<open>\<open>n\<close> as a multiple of \<open>k\<close>, at most \<open>m\<close> times, and the rest.\<close>

definition div_cap :: "nat \<Rightarrow> nat \<Rightarrow> nat \<Rightarrow> nat \<times> nat" where
  "div_cap k m n = (min m (n div k), n - min m (n div k) * k)"

text \<open>The year and the day of the year, both counted from 0, of a day counted from year 1.\<close>

definition year_day :: "nat \<Rightarrow> nat \<times> nat" where
  "year_day n =
     (let (c4, n) = (n div 146097, n mod 146097);
          (c, n) = div_cap 36524 3 n;
          (y4, n) = div_cap 1461 24 n;
          (y, n) = div_cap 365 3 n
      in (400 * c4 + 100 * c + 4 * y4 + y, n))"

definition leap :: "nat \<Rightarrow> bool" where
  "leap y \<longleftrightarrow> y mod 4 = 0 \<and> (y mod 100 \<noteq> 0 \<or> y mod 400 = 0)"

definition month_lengths :: "nat \<Rightarrow> nat list" where
  "month_lengths y = [31, if leap y then 29 else 28, 31, 30, 31, 30, 31, 31, 30, 31, 30, 31]"

fun month_day :: "nat list \<Rightarrow> nat \<Rightarrow> nat \<times> nat" where
  "month_day [] d = (0, d)"
| "month_day (l # ls) d =
     (if d < l then (0, d) else case month_day ls (d - l) of (m, e) \<Rightarrow> (Suc m, e))"

definition civil_date :: "nat \<Rightarrow> nat \<times> nat \<times> nat" where
  "civil_date n =
     (case year_day n of (y, d) \<Rightarrow>
        case month_day (month_lengths (Suc y)) d of (m, e) \<Rightarrow> (Suc y, Suc m, Suc e))"

lemma year_day_eq:
  assumes "n = 146097 * c4 + 36524 * c + 1461 * y4 + 365 * y + d"
    and "c < 4" "y4 < 25" "y < 4" "d < 365"
    and "36524 * c + 1461 * y4 + 365 * y + d < 146097" "1461 * y4 + 365 * y + d < 36524"
  shows "year_day n = (400 * c4 + 100 * c + 4 * y4 + y, d)"
proof -
  have 1: "n div 146097 = c4" "n mod 146097 = 36524 * c + (1461 * y4 + 365 * y + d)"
    using assms(1,6) by (simp_all add: add.assoc)
  have 2: "div_cap 36524 3 (36524 * c + (1461 * y4 + 365 * y + d)) = (c, 1461 * y4 + (365 * y + d))"
    using assms(2,7) by (simp add: div_cap_def min_absorb2)
  have 3: "div_cap 1461 24 (1461 * y4 + (365 * y + d)) = (y4, 365 * y + d)"
    using assms(3-5) by (simp add: div_cap_def min_absorb2)
  have 4: "div_cap 365 3 (365 * y + d) = (y, d)"
    using assms(4,5) by (simp add: div_cap_def min_absorb2)
  show ?thesis
    by (simp only: year_day_def 1 2 3 4 Let_def prod.case)
qed

lemma year_day_samples:
  "year_day 0 = (0, 0)" "year_day 719162 = (1969, 0)" "year_day 730178 = (1999, 59)"
  "year_day 738154 = (2020, 364)"
  using year_day_eq [of 0 0 0 0 0 0] year_day_eq [of 719162 4 3 17 1 0]
    year_day_eq [of 730178 4 3 24 3 59] year_day_eq [of 738154 5 0 5 0 364]
  by simp_all

lemma civil_date_samples:
  "civil_date 0 = (1, 1, 1)" "civil_date 719162 = (1970, 1, 1)"
  "civil_date 730178 = (2000, 2, 29)" "civil_date 738154 = (2021, 12, 31)"
  unfolding civil_date_def year_day_samples
  by (simp_all add: month_lengths_def leap_def)

definition pad :: "nat \<Rightarrow> nat \<Rightarrow> string" where
  "pad w n = (let ds = nat_in_base 10 n in replicate (w - length ds) CHR ''0'' @ ds)"

text \<open>The seconds of local time since the start of year 1.\<close>

definition local_seconds :: "(time \<Rightarrow> int) \<Rightarrow> time \<Rightarrow> nat" where
  "local_seconds tz t = nat (t div second + tz t)"

definition stamp_of :: "nat \<Rightarrow> string" where
  "stamp_of n =
     (case civil_date (n div 86400) of (y, m, d) \<Rightarrow>
        pad 4 y @ pad 2 m @ pad 2 d @ ''-'' @
        pad 2 (n mod 86400 div 3600) @ pad 2 (n mod 3600 div 60) @ pad 2 (n mod 60))"

definition time_stamp :: "(time \<Rightarrow> int) \<Rightarrow> time \<Rightarrow> string" where
  "time_stamp tz t = stamp_of (local_seconds tz t)"

lemma time_stamp_sample:
  "time_stamp (\<lambda>t. 3600) (63776545445 * second) = ''20211231-120405''"
  by (simp add: time_stamp_def stamp_of_def local_seconds_def civil_date_samples
      pad_def nat_in_base.simps hex_digit_def hextable_def)

section \<open>The order of dates\<close>

lemma divmod_less:
  "m < (n :: nat) \<Longrightarrow> m div k < n div k \<or> m div k = n div k \<and> m mod k < n mod k"
  using div_le_mono [of m n k] div_mult_mod_eq [of m k] div_mult_mod_eq [of n k]
  by (metis le_neq_implies_less less_imp_le nat_add_left_cancel_less)

lemma div_cap_mono:
  "n < n' \<Longrightarrow> fst (div_cap k m n) \<le> fst (div_cap k m n') \<and>
     (fst (div_cap k m n) = fst (div_cap k m n') \<longrightarrow> snd (div_cap k m n) < snd (div_cap k m n'))"
proof
  assume n: "n < n'"
  show "fst (div_cap k m n) \<le> fst (div_cap k m n')"
    using div_le_mono [of n n' k] n by (simp add: div_cap_def)
  have "min m (n div k) * k \<le> n"
    by (metis min.cobounded2 mult_le_mono1 order_trans div_times_less_eq_dividend)
  then show "fst (div_cap k m n) = fst (div_cap k m n') \<longrightarrow>
      snd (div_cap k m n) < snd (div_cap k m n')"
    using n by (auto simp: div_cap_def)
qed

lemma div_cap_le: "fst (div_cap k m n) \<le> m"
  by (simp add: div_cap_def)

lemma div_cap_sum: "n = k * fst (div_cap k m n) + snd (div_cap k m n)"
proof -
  have "min m (n div k) * k \<le> n"
    by (metis min.cobounded2 mult_le_mono1 order_trans div_times_less_eq_dividend)
  then show ?thesis by (simp add: div_cap_def)
qed

lemma div_cap_rest: "snd (div_cap k m n) < k \<or> fst (div_cap k m n) = m" if "0 < k"
  using that mod_less_divisor [of k n] by (auto simp: div_cap_def min_def modulo_nat_def)

lemma year_day_mono:
  assumes "n < n'"
  shows "year_day n < year_day n'"
proof -
  let ?a = "n div 146097" and ?a' = "n' div 146097"
  let ?b = "div_cap 36524 3 (n mod 146097)" and ?b' = "div_cap 36524 3 (n' mod 146097)"
  let ?c = "div_cap 1461 24 (snd ?b)" and ?c' = "div_cap 1461 24 (snd ?b')"
  let ?d = "div_cap 365 3 (snd ?c)" and ?d' = "div_cap 365 3 (snd ?c')"
  have a: "?a < ?a' \<or> ?a = ?a' \<and> n mod 146097 < n' mod 146097"
    by (rule divmod_less [OF assms])
  have bounds: "fst ?b \<le> 3" "fst ?b' \<le> 3" "fst ?c \<le> 24" "fst ?c' \<le> 24" "fst ?d \<le> 3" "fst ?d' \<le> 3"
    by (simp_all only: div_cap_le)
  have b: "?a < ?a' \<or> ?a = ?a' \<and> (fst ?b < fst ?b' \<or> fst ?b = fst ?b' \<and> snd ?b < snd ?b')"
    using a div_cap_mono [of "n mod 146097" "n' mod 146097" 36524 3] by (meson le_neq_implies_less)
  have c: "?a < ?a' \<or> ?a = ?a' \<and> (fst ?b < fst ?b' \<or> fst ?b = fst ?b' \<and>
      (fst ?c < fst ?c' \<or> fst ?c = fst ?c' \<and> snd ?c < snd ?c'))"
    using b div_cap_mono [of "snd ?b" "snd ?b'" 1461 24] by (meson le_neq_implies_less)
  have d: "?a < ?a' \<or> ?a = ?a' \<and> (fst ?b < fst ?b' \<or> fst ?b = fst ?b' \<and>
      (fst ?c < fst ?c' \<or> fst ?c = fst ?c' \<and>
        (fst ?d < fst ?d' \<or> fst ?d = fst ?d' \<and> snd ?d < snd ?d')))"
    using c div_cap_mono [of "snd ?c" "snd ?c'" 365 3] by (meson le_neq_implies_less)
  have y: "year_day m = (400 * (m div 146097) + 100 * fst (div_cap 36524 3 (m mod 146097)) +
      4 * fst (div_cap 1461 24 (snd (div_cap 36524 3 (m mod 146097)))) +
      fst (div_cap 365 3 (snd (div_cap 1461 24 (snd (div_cap 36524 3 (m mod 146097)))))),
      snd (div_cap 365 3 (snd (div_cap 1461 24 (snd (div_cap 36524 3 (m mod 146097)))))))" for m
    by (simp add: year_day_def Let_def split: prod.splits)
  show ?thesis unfolding y less_prod_def' fst_conv snd_conv using d bounds by linarith
qed

lemma month_day_mono: "d < d' \<Longrightarrow> month_day ls d < month_day ls d'"
proof (induction ls arbitrary: d d')
  case (Cons l ls)
  from Cons.prems Cons.IH [of "d - l" "d' - l"] show ?case
    by (auto simp: less_prod_def' split: prod.splits)
qed (simp add: less_prod_def')

lemma civil_date_mono:
  assumes "n < n'" shows "civil_date n < civil_date n'"
proof -
  obtain y d y' d' where yd: "year_day n = (y, d)" "year_day n' = (y', d')" by fastforce
  have "y < y' \<or> y = y' \<and> d < d'"
    using year_day_mono [OF assms] yd by (simp add: less_prod_def')
  then show ?thesis
    using month_day_mono [of d d' "month_lengths (Suc y)"] yd
    by (auto simp: civil_date_def less_prod_def' split: prod.splits)
qed

section \<open>The order of their texts\<close>

lemma less_append_eq:
  "length xs = length ys \<Longrightarrow> xs @ us < ys @ vs \<longleftrightarrow> xs < ys \<or> xs = ys \<and> us < (vs :: string)"
  by (induction xs ys rule: list_induct2) auto

lemma hex_digit_less: "i < j \<Longrightarrow> j < 10 \<Longrightarrow> hex_digit i < hex_digit j"
proof -
  have "\<forall>j < 10. \<forall>i < j. hex_digit i < hex_digit j"
    by (simp add: eval_nat_numeral All_less_Suc hex_digit_def hextable_def)
  then show "i < j \<Longrightarrow> j < 10 \<Longrightarrow> hex_digit i < hex_digit j" by blast
qed

lemma length_nat_in_base: "n < 10 ^ w \<Longrightarrow> 0 < w \<Longrightarrow> length (nat_in_base 10 n) \<le> w"
proof (induction w arbitrary: n)
  case (Suc w)
  show ?case
  proof (cases "n < 10")
    case False
    then have "n div 10 < 10 ^ w" "0 < w" using Suc.prems by (auto intro: ccontr)
    then show ?thesis using Suc.IH [of "n div 10"] False
      by (simp add: nat_in_base.simps [of 10 n])
  qed (simp add: nat_in_base.simps)
qed simp

lemma length_pad: "n < 10 ^ w \<Longrightarrow> 0 < w \<Longrightarrow> length (pad w n) = w"
  using length_nat_in_base [of n w] by (simp add: pad_def Let_def)

lemma pad_Suc:
  assumes "0 < w" and "n < 10 ^ Suc w"
  shows "pad (Suc w) n = pad w (n div 10) @ [hex_digit (n mod 10)]"
proof (cases "n < 10")
  case True
  then show ?thesis using assms
    by (cases w) (auto simp: pad_def nat_in_base.simps hex_digit_def hextable_def replicate_append_same)
next
  case False
  then show ?thesis using assms by (simp add: pad_def nat_in_base.simps [of 10 n] Let_def)
qed

lemma pad_less: "0 < w \<Longrightarrow> m < n \<Longrightarrow> n < 10 ^ w \<Longrightarrow> pad w m < pad w n"
proof (induction w arbitrary: m n)
  case (Suc w)
  show ?case
  proof (cases "w = 0")
    case True
    then show ?thesis using Suc.prems
      by (simp add: pad_def nat_in_base.simps hex_digit_less)
  next
    case False
    have lt: "m div 10 < 10 ^ w" "n div 10 < 10 ^ w" using Suc.prems by auto
    have "m div 10 < n div 10 \<or> m div 10 = n div 10 \<and> m mod 10 < n mod 10"
      by (rule divmod_less [OF Suc.prems(2)])
    then show ?thesis
      using Suc.IH [of "m div 10" "n div 10"] False lt Suc.prems
      by (auto simp: pad_Suc less_append_eq length_pad hex_digit_less)
  qed
qed simp

text \<open>The ranges of the fields.\<close>

lemma month_day_bounds:
  "d < sum_list ls \<Longrightarrow> fst (month_day ls d) < length ls \<and> snd (month_day ls d) < Max (set ls)"
proof (induction ls arbitrary: d)
  case (Cons l ls)
  show ?case
  proof (cases "d < l")
    case False
    then have "d - l < sum_list ls" using Cons.prems by simp
    moreover from this have "ls \<noteq> []" by auto
    ultimately show ?thesis using False Cons.IH [of "d - l"]
      by (auto split: prod.splits)
  qed (auto intro: less_le_trans [OF _ Max_ge])
qed simp

lemma month_lengths_Max: "Max (set (month_lengths y)) = 31"
  by (simp add: month_lengths_def)

lemma month_lengths_sum: "sum_list (month_lengths y) = (if leap y then 366 else 365)"
  by (simp add: month_lengths_def)

lemma year_day_bound:
  assumes "year_day n = (y, d)"
  shows "d < sum_list (month_lengths (Suc y))" and "y \<le> n div 365"
proof -
  let ?a = "n div 146097" and ?r = "n mod 146097"
  obtain b r2 where b: "div_cap 36524 3 ?r = (b, r2)" by fastforce
  obtain c r3 where c: "div_cap 1461 24 r2 = (c, r3)" by fastforce
  obtain e r4 where e: "div_cap 365 3 r3 = (e, r4)" by fastforce
  have y: "y = 400 * ?a + 100 * b + 4 * c + e" and d: "d = r4"
    using assms b c e by (simp_all add: year_day_def)
  have n: "n = 146097 * ?a + ?r" "?r < 146097" by simp_all
  have B: "b \<le> 3" "?r = 36524 * b + r2" "r2 < 36524 \<or> b = 3"
    using div_cap_le [of 36524 3 ?r] div_cap_rest [of 36524 3 ?r] div_cap_sum [of ?r 36524 3] b by simp_all
  have C: "c \<le> 24" "r2 = 1461 * c + r3" "r3 < 1461 \<or> c = 24"
    using div_cap_le [of 1461 24 r2] div_cap_rest [of 1461 24 r2] div_cap_sum [of r2 1461 24] c by simp_all
  have E: "e \<le> 3" "r3 = 365 * e + r4" "r4 < 365 \<or> e = 3"
    using div_cap_le [of 365 3 r3] div_cap_rest [of 365 3 r3] div_cap_sum [of r3 365 3] e by simp_all
  show "y \<le> n div 365"
    using y n B(2) C(2) E(2) by (simp add: less_eq_div_iff_mult_less_eq)
  show "d < sum_list (month_lengths (Suc y))"
  proof (cases "e = 3 \<and> (c < 24 \<or> b = 3)")
    case True
    then have "d < 366" using n B C E d by linarith
    moreover have "leap (Suc y)"
    proof -
      have "Suc y = 4 * (100 * ?a + 25 * b + (c + 1))" using y True by simp
      then have four: "Suc y mod 4 = 0" by (metis mod_mult_self1_is_0)
      have "Suc y mod 100 \<noteq> 0" if "c < 24"
      proof -
        have "Suc y = 100 * (4 * ?a + b) + 4 * (c + 1)" using y True by simp
        then have "Suc y mod 100 = 4 * (c + 1) mod 100" by (metis mod_mult_self4)
        then show ?thesis using that by simp
      qed
      moreover have "Suc y mod 400 = 0" if "c = 24" "b = 3"
      proof -
        have "Suc y = 400 * (?a + 1)" using y True that by simp
        then show ?thesis by (metis mod_mult_self1_is_0)
      qed
      ultimately show ?thesis using True C(1) four by (auto simp: leap_def le_less)
    qed
    ultimately show ?thesis by (simp add: month_lengths_sum)
  next
    case False
    have "d < 365" using False n B C E d by linarith
    then show ?thesis by (simp add: month_lengths_sum)
  qed
qed

lemma civil_date_bounds:
  assumes "civil_date n = (y, m, d)"
  shows "1 \<le> m" "m \<le> 12" "1 \<le> d" "d \<le> 31" "y \<le> Suc (n div 365)"
proof -
  obtain y' e where ye: "year_day n = (y', e)" by fastforce
  have md: "fst (month_day (month_lengths (Suc y')) e) < 12" "snd (month_day (month_lengths (Suc y')) e) < 31"
    using month_day_bounds [OF year_day_bound(1) [OF ye]] unfolding month_lengths_Max
    by (simp_all add: month_lengths_def)
  then show "1 \<le> m" "m \<le> 12" "1 \<le> d" "d \<le> 31" "y \<le> Suc (n div 365)"
    using assms ye year_day_bound(2) [OF ye] by (auto simp: civil_date_def split: prod.splits)
qed

text \<open>Up to the year 9999: day 3652059 is January 1 of the year 10000.\<close>

lemma length_stamp_of: "n < 86400 * 3647000 \<Longrightarrow> length (stamp_of n) = 15"
proof -
  assume n: "n < 86400 * 3647000"
  obtain y m d where c: "civil_date (n div 86400) = (y, m, d)" by (metis surj_pair)
  have "n div 86400 div 365 < 9992" using n by (simp add: div_less_iff_less_mult)
  then show ?thesis using civil_date_bounds [OF c] c
    by (simp add: stamp_of_def length_pad div_less_iff_less_mult)
qed

lemma pad3_less:
  assumes "a < a' \<or> a = a' \<and> (b < b' \<or> b = b' \<and> c < c')"
    and "a < 10 ^ 2" "b < 10 ^ 2" "c < 10 ^ 2" and "a' < 10 ^ 2" "b' < 10 ^ 2" "c' < 10 ^ 2"
  shows "pad 2 a @ pad 2 b @ pad 2 c < pad 2 a' @ pad 2 b' @ pad 2 c'"
  using assms by (auto simp: less_append_eq length_pad pad_less)

lemma time_of_day_less:
  assumes "m mod 86400 < n mod (86400 :: nat)"
  shows "pad 2 (m mod 86400 div 3600) @ pad 2 (m mod 3600 div 60) @ pad 2 (m mod 60) <
    pad 2 (n mod 86400 div 3600) @ pad 2 (n mod 3600 div 60) @ pad 2 (n mod 60)"
proof -
  have rest: "k mod 86400 mod 3600 = k mod 3600" "k mod 3600 mod 60 = k mod 60" for k :: nat
    by (rule mod_mod_cancel, simp)+
  have lt: "k mod 86400 div 3600 < 10 ^ 2" "k mod 3600 div 60 < 10 ^ 2" "k mod 60 < 10 ^ 2" for k :: nat
    by (rule less_mult_imp_div_less, rule less_le_trans [OF mod_less_divisor], simp, simp)
      (rule less_mult_imp_div_less, rule less_le_trans [OF mod_less_divisor], simp, simp,
       rule less_le_trans [OF mod_less_divisor], simp, simp)
  show ?thesis
    by (rule pad3_less [OF _ lt lt])
      (use divmod_less [OF assms, of 3600] divmod_less [of "m mod 3600" "n mod 3600" 60] in
        \<open>unfold rest, blast\<close>)
qed

lemma stamp_of_less:
  assumes "m < n" and "n < 86400 * 3647000"
  shows "stamp_of m < stamp_of n"
proof -
  obtain y mo d where c: "civil_date (m div 86400) = (y, mo, d)" by (metis surj_pair)
  obtain y' mo' d' where c': "civil_date (n div 86400) = (y', mo', d')" by (metis surj_pair)
  have lim: "m div 86400 div 365 < 9992" "n div 86400 div 365 < 9992"
    using assms by (simp_all add: div_less_iff_less_mult)
  note b = civil_date_bounds [OF c] and b' = civil_date_bounds [OF c']
  have len: "length (pad 4 y) = 4" "length (pad 2 mo) = 2" "length (pad 2 d) = 2"
    "length (pad 4 y') = 4" "length (pad 2 mo') = 2" "length (pad 2 d') = 2"
    using b b' lim by (simp_all add: length_pad)
  have lt: "y' < 10 ^ 4" "mo' < 10 ^ 2" "d' < 10 ^ 2"
    using b' lim by simp_all
  consider "(y, mo, d) < (y', mo', d')" | "m div 86400 = n div 86400" "m mod 86400 < n mod 86400"
    using divmod_less [OF assms(1), of 86400] civil_date_mono [of "m div 86400" "n div 86400"] c c'
    by metis
  then show ?thesis
  proof cases
    case 1
    then show ?thesis using c c' len lt
      by (auto simp: stamp_of_def less_append_eq less_prod_def' pad_less)
  next
    case 2
    then show ?thesis using c c' time_of_day_less [OF 2(2)] by (simp add: stamp_of_def less_append_eq)
  qed
qed

end
