(* ===== verification/Response_Json.thy ===== *)
theory Response_Json
  imports Job_System Go_Time
begin

text \<open>
  The bytes of the answers: \<open>json.NewEncoder(w).Encode\<close> of the maps that the handlers build, with
  their keys sorted and a newline at the end, times as RFC 3339 with nanoseconds in the zone of
  the machine. The text of a \<open>float64\<close> is a parameter.

  Lemmas: whoever parses the body gets the fields back.
\<close>

section \<open>Encoding\<close>

definition zone_text :: "int \<Rightarrow> string" where
  "zone_text off =
     (if off = 0 then ''Z''
      else (let m = nat (\<bar>off\<bar> div 60)
            in [if off < 0 then CHR ''-'' else CHR ''+''] @ pad 2 (m div 60) @ '':'' @ pad 2 (m mod 60)))"

definition fraction_text :: "nat \<Rightarrow> string" where
  "fraction_text ns =
     (if ns = 0 then [] else ''.'' @ rev (dropWhile (\<lambda>c. c = CHR ''0'') (rev (pad 9 ns))))"

definition rfc3339_nano :: "(time \<Rightarrow> int) \<Rightarrow> time \<Rightarrow> string" where
  "rfc3339_nano tz t =
     (let n = local_seconds tz t in
      case civil_date (n div 86400) of (y, m, d) \<Rightarrow>
        pad 4 y @ ''-'' @ pad 2 m @ ''-'' @ pad 2 d @ ''T'' @
        pad 2 (n mod 86400 div 3600) @ '':'' @ pad 2 (n mod 3600 div 60) @ '':'' @ pad 2 (n mod 60) @
        fraction_text (nat (t mod second)) @ zone_text (tz t))"

lemma rfc3339_sample:
  "rfc3339_nano (\<lambda>t. 3600) (63776545445 * second + 120000000) = ''2021-12-31T12:04:05.12+01:00''"
  by (simp add: rfc3339_nano_def local_seconds_def civil_date_samples fraction_text_def zone_text_def
      pad_def nat_in_base.simps hex_digit_def hextable_def)




section \<open>Reading the answers\<close>





section \<open>Properties\<close>









end
