(* ===== verification/Pool_Drain.thy ===== *)
theory Pool_Drain
  imports Worker_Pool
begin

text \<open>
  The end of a worker pool: once \<open>Shutdown\<close> has marked the pool, every run of \<open>pool_step\<close> is
  finite, whoever moves next, and a run can only stop when \<open>Shutdown\<close> has returned.

  Lemmas: a weight of the state that every step reduces, stated once for any system in the
  locale \<open>draining\<close>; and that a marked pool lets no submitter in.
\<close>

section \<open>Systems whose runs end\<close>

locale draining =
  fixes step :: "'s \<Rightarrow> 's \<Rightarrow> bool" and stopping :: "'s \<Rightarrow> bool" and work :: "'s \<Rightarrow> nat"
  assumes stays: "stopping s \<Longrightarrow> step s t \<Longrightarrow> stopping t"
    and falls: "stopping s \<Longrightarrow> step s t \<Longrightarrow> work t < work s"
begin

lemma run_stopping: "(step ^^ n) s t \<Longrightarrow> stopping s \<Longrightarrow> stopping t"
  by (induction n arbitrary: t) (auto dest: stays)

lemma run_bound: "(step ^^ n) s t \<Longrightarrow> stopping s \<Longrightarrow> n + work t \<le> work s"
proof (induction n arbitrary: t)
  case (Suc n)
  then obtain u where "(step ^^ n) s u" "step u t" by auto
  with Suc.IH [of u] run_stopping [of n s u] falls [of u t] Suc.prems(2) show ?case by simp
qed simp

lemma run_to_end: "stopping s \<Longrightarrow> \<exists>n t. (step ^^ n) s t \<and> (\<forall>u. \<not> step t u)"
proof (induction "work s" arbitrary: s rule: less_induct)
  case less
  show ?case
  proof (cases "\<exists>u. step s u")
    case False
    then have "(step ^^ 0) s s \<and> (\<forall>u. \<not> step s u)" by simp
    then show ?thesis by blast
  next
    case True
    then obtain u where u: "step s u" by blast
    with less.hyps [of u] falls [OF less.prems u] stays [OF less.prems u]
    obtain n t where "(step ^^ n) u t" "\<forall>v. \<not> step t v" by blast
    with relpowp_Suc_I2 [of step, OF u] show ?thesis by blast
  qed
qed

end

section \<open>The work left in a pool\<close>

fun worker_work :: "'t worker \<Rightarrow> nat" where
  "worker_work (Running t) = 2"
| "worker_work Waiting = 1"
| "worker_work Exited = 0"

fun phase_work :: "shutdown_phase \<Rightarrow> nat" where
  "phase_work Marked = 2"
| "phase_work Draining = 1"
| "phase_work _ = 0"

definition pool_work :: "'t pool_sys \<Rightarrow> nat" where
  "pool_work s =
     5 * size (ps_clients s) + 3 * length (p_tasks (ps_pool s)) +
     sum_list (map worker_work (ps_workers s)) + phase_work (ps_phase s)"

definition pool_stopping :: "'t pool_sys \<Rightarrow> bool" where
  "pool_stopping s \<longleftrightarrow> p_shutdown (ps_pool s)"

lemma worker_work_update:
  "i < length ws \<Longrightarrow> ws ! i = v \<Longrightarrow>
     sum_list (map worker_work (ws[i := w])) + worker_work v
       = sum_list (map worker_work ws) + worker_work w"
  by (induction ws arbitrary: i) (auto split: nat.splits simp: nth_Cons)

lemma client_leaves: "c \<in># M \<Longrightarrow> size M = Suc (size (M - {#c#}))"
  by (simp add: size_Diff_singleton)
    (metis Suc_pred size_eq_0_iff_empty nonempty_has_size empty_iff set_mset_empty)

lemma pool_stopping_stays: "pool_stopping s \<Longrightarrow> pool_step s t \<Longrightarrow> pool_stopping t"
  by (erule pool_stepE)
    (auto simp: pool_stopping_def step_simps shutdown_mark_def shutdown_close_def
      shutdown_cancel_def)

text \<open>
  Every step but a new call of \<open>Submit\<close> and the first call of \<open>Shutdown\<close> reduces the work, by
  more than the number of clients that leave.
\<close>

lemma pool_work_step:
  "pool_step s t \<Longrightarrow> size (ps_clients t) \<le> size (ps_clients s) \<Longrightarrow>
     p_shutdown (ps_pool t) = p_shutdown (ps_pool s) \<Longrightarrow>
     pool_work t + (size (ps_clients s) - size (ps_clients t)) < pool_work s"
proof (erule pool_stepE, goal_cases)
  case (1 c)
  then show ?case by simp
next
  case (2 c p)
  then show ?case using client_leaves [of c] by (auto simp: pool_work_def step_simps)
next
  case (3 x)
  then show ?case using client_leaves [of "InSubmit x"] by (simp add: pool_work_def)
next
  case (4 x)
  then show ?case using client_leaves [of "InSubmitWait x"] by (simp add: pool_work_def)
next
  case (5 c)
  then show ?case using client_leaves [of c] by (simp add: pool_work_def)
next
  case (6 i x p)
  then show ?case using worker_work_update [of i "ps_workers s" Waiting "Running x"]
    by (auto simp: pool_work_def step_simps)
next
  case (7 i x)
  then show ?case using worker_work_update [of i "ps_workers s" "Running x" Waiting]
    by (simp add: pool_work_def)
next
  case (8 i)
  then show ?case using worker_work_update [of i "ps_workers s" Waiting Exited]
    by (simp add: pool_work_def)
next
  case (9 i)
  then show ?case using worker_work_update [of i "ps_workers s" Waiting Exited]
    by (simp add: pool_work_def)
qed (auto simp: pool_work_def shutdown_mark_def shutdown_close_def
    shutdown_cancel_def split: if_splits)

lemma pool_stopping_frame:
  assumes "pool_stopping s" and "pool_step s t"
  shows "size (ps_clients t) \<le> size (ps_clients s)" and "p_shutdown (ps_pool t) = p_shutdown (ps_pool s)"
proof -
  show "size (ps_clients t) \<le> size (ps_clients s)"
    using assms(2,1)
    by (cases rule: pool_step.cases)
      (auto simp: pool_stopping_def submit_check_def size_Diff_singleton)
  show "p_shutdown (ps_pool t) = p_shutdown (ps_pool s)"
    using assms(1) pool_stopping_stays [OF assms] by (simp add: pool_stopping_def)
qed

lemma pool_work_less: "pool_stopping s \<Longrightarrow> pool_step s t \<Longrightarrow> pool_work t < pool_work s"
  using pool_work_step [of s t] pool_stopping_frame [of s t] by simp

interpretation pool_end: draining pool_step pool_stopping pool_work
  by unfold_locales (auto intro: pool_stopping_stays pool_work_less)

lemma worker_work_le: "sum_list (map worker_work ws) \<le> 2 * length ws"
proof (induction ws)
  case (Cons w ws)
  then show ?case by (cases w) simp_all
qed simp

lemma pool_work_bound:
  "pool_work s \<le> 5 * size (ps_clients s) + 3 * Size (ps_pool s) + 2 * length (ps_workers s) + 2"
  using worker_work_le [of "ps_workers s"]
  by (cases "ps_phase s") (simp_all add: pool_work_def Size_def)

text \<open>A pool that is marked and cannot move has come to its end.\<close>

definition pool_at_end :: "'t pool_sys \<Rightarrow> bool" where
  "pool_at_end s \<longleftrightarrow>
     ps_clients s = {#} \<and> set (ps_workers s) \<subseteq> {Exited} \<and>
     (\<exists>e. ps_phase s = Returned e)"

lemma client_can_move: "c \<in># ps_clients s \<Longrightarrow> \<exists>u. pool_step s u"
proof (cases "try_send (client_task c) (ps_pool s)")
  case SendBlocked
  assume "c \<in># ps_clients s"
  with SendBlocked show ?thesis
    by (cases c) (auto intro: client_refused client_times_out)
qed (auto intro: client_sends client_panics)

lemma worker_can_move:
  assumes "w \<in> set (ps_workers s)" and "w \<noteq> Exited" and "p_closed (ps_pool s)"
  shows "\<exists>u. pool_step s u"
proof -
  obtain i where i: "i < length (ps_workers s)" "ps_workers s ! i = w"
    using assms(1) by (auto simp: in_set_conv_nth)
  show ?thesis
  proof (cases w)
    case Waiting
    show ?thesis
    proof (cases "p_tasks (ps_pool s)")
      case Nil
      then have "try_recv (ps_pool s) = RecvClosed" using assms(3) by (simp add: step_simps)
      from worker_sees_closed [OF i [unfolded Waiting] this] show ?thesis by blast
    next
      case (Cons x xs)
      then have "try_recv (ps_pool s) = Received x ((ps_pool s)\<lparr>p_tasks := xs\<rparr>)"
        by (simp add: step_simps)
      from worker_takes [OF i [unfolded Waiting] this] show ?thesis by blast
    qed
  next
    case (Running t)
    from worker_finishes [OF i [unfolded Running]] show ?thesis by blast
  qed (use assms(2) in simp)
qed

lemma stuck_is_end:
  assumes inv: "pool_inv s" and stop: "pool_stopping s" and stuck: "\<forall>u. \<not> pool_step s u"
  shows "pool_at_end s"
proof -
  have ph: "ps_phase s \<notin> {NotCalled, Marked, Draining}"
    using inv stop stuck shutdown_closes [of s] shutdown_times_out [of s]
    by (auto simp: pool_inv_def phase_ok_def pool_stopping_def)
  then have closed: "p_closed (ps_pool s)"
    using inv by (auto simp: pool_inv_def phase_ok_def)
  have "ps_clients s = {#}"
    using stuck client_can_move [of _ s] by (metis multiset_nonemptyE)
  moreover have "set (ps_workers s) \<subseteq> {Exited}"
    using stuck worker_can_move [OF _ _ closed] by blast
  moreover have "\<exists>e. ps_phase s = Returned e"
    using ph by (cases "ps_phase s") auto
  ultimately show ?thesis by (simp add: pool_at_end_def)
qed

section \<open>Properties\<close>

text \<open>
  C15: \<open>Shutdown\<close> ends. From a reachable state in which the pool is marked, every run, in
  whatever order submitters, workers and \<open>Shutdown\<close> move, has at most five steps per
  submitter in flight, three per queued task, two per worker and two more; and a run that
  cannot go on has \<open>Shutdown\<close> returned, no submitter left and every worker stopped.
\<close>

theorem shutdown_terminates:
  assumes "reach pool_init pool_step s" and "p_shutdown (ps_pool s)" and "(pool_step ^^ n) s t"
  shows "n \<le> 5 * size (ps_clients s) + 3 * Size (ps_pool s) + 2 * length (ps_workers s) + 2 \<and>
    ((\<forall>u. \<not> pool_step t u) \<longrightarrow> pool_at_end t)"
proof -
  have stop: "pool_stopping s" using assms(2) by (simp add: pool_stopping_def)
  have "reach pool_init pool_step t"
    using relpowp_imp_rtranclp [OF assms(3)] assms(1) by (rule reach_steps)
  then have "pool_inv t" by (rule pool_system.inv_reach)
  then have "(\<forall>u. \<not> pool_step t u) \<longrightarrow> pool_at_end t"
    using stuck_is_end pool_end.run_stopping [OF assms(3) stop] by blast
  with pool_end.run_bound [OF assms(3) stop] pool_work_bound [of s] show ?thesis by simp
qed

definition marked_pool :: "nat pool_sys" where
  "marked_pool = busy_pool
     \<lparr>ps_pool := (ps_pool busy_pool)\<lparr>p_shutdown := True\<rparr>, ps_phase := Marked\<rparr>"

lemma marked_pool_eq:
  "marked_pool =
     \<lparr>ps_pool = \<lparr>p_workers = 1, p_tasks = [7], p_closed = False, p_cancelled = False,
        p_maxBacklog = 1, p_shutdown = True\<rparr>,
      ps_workers = [Waiting], ps_clients = {#}, ps_phase = Marked, ps_accepted = [7],
      ps_started = [], ps_finished = [], ps_panics = 0\<rparr>"
  by (simp add: marked_pool_def busy_pool_def pool_start_def pool_op_defs)

lemma reach_marked_pool: "reach pool_init pool_step marked_pool"
  unfolding marked_pool_def
  by (rule reach_step [OF reach_busy_pool], rule shutdown_marks)
    (simp add: busy_pool_def pool_start_def pool_op_defs)

lemma marked_pool_run: "(pool_step ^^ 5) marked_pool drained_pool"
proof -
  let ?a = "marked_pool\<lparr>ps_pool := shutdown_close (ps_pool marked_pool), ps_phase := Draining\<rparr>"
  let ?p = "(ps_pool ?a)\<lparr>p_tasks := []\<rparr>"
  let ?b = "?a\<lparr>ps_workers := [Running 7], ps_pool := ?p, ps_started := [7]\<rparr>"
  let ?c = "?b\<lparr>ps_workers := [Waiting], ps_finished := [7]\<rparr>"
  let ?d = "?c\<lparr>ps_workers := [Exited]\<rparr>"
  have 1: "pool_step marked_pool ?a"
    by (rule shutdown_closes) (simp add: marked_pool_eq)
  have 2: "pool_step ?a ?b"
    using pool_step.worker_takes [of 0 ?a 7 ?p] by (simp add: marked_pool_eq pool_op_defs)
  have 3: "pool_step ?b ?c"
    using pool_step.worker_finishes [of 0 ?b 7] by (simp add: marked_pool_eq pool_op_defs)
  have 4: "pool_step ?c ?d"
    using pool_step.worker_sees_closed [of 0 ?c] by (simp add: marked_pool_eq pool_op_defs)
  have 5: "pool_step ?d drained_pool"
    using pool_step.shutdown_returns [of ?d] by (simp add: marked_pool_eq pool_op_defs drained_pool_def)
  have "(pool_step ^^ Suc (Suc (Suc (Suc (Suc 0))))) marked_pool drained_pool"
    by (rule relpowp_Suc_I relpowp_0_I 1 2 3 4 5)+
  then show ?thesis by (simp only: numeral_nat One_nat_def)
qed

lemma drained_pool_stuck: "\<not> pool_step drained_pool t"
  by (auto elim!: pool_stepE simp: drained_pool_def step_simps submit_check_def shutdown_mark_def)

theorem shutdown_terminates_witness:
  "5 \<le> 5 * size (ps_clients marked_pool) + 3 * Size (ps_pool marked_pool) +
         2 * length (ps_workers marked_pool) + 2 \<and> pool_at_end drained_pool"
  using shutdown_terminates [OF reach_marked_pool _ marked_pool_run] drained_pool_stuck
  by (simp add: marked_pool_eq)

text \<open>What a step can add once the pool is marked: only what a submitter already inside brings.\<close>

lemma marked_pool_step:
  assumes "pool_step s t" and "p_shutdown (ps_pool s)"
  shows "length (ps_accepted t) + ps_panics t + size (ps_clients t) \<le>
      length (ps_accepted s) + ps_panics s + size (ps_clients s)"
    and "p_closed (ps_pool s) \<Longrightarrow> ps_accepted t = ps_accepted s \<and> p_closed (ps_pool t)"
proof -
  show "length (ps_accepted t) + ps_panics t + size (ps_clients t) \<le>
      length (ps_accepted s) + ps_panics s + size (ps_clients s)"
    using assms
  proof (cases rule: pool_step.cases)
    case (client_sends c p)
    then show ?thesis using client_leaves [of c] by simp
  next
    case (client_panics c)
    then show ?thesis using client_leaves [of c] by simp
  qed (auto simp: submit_check_def size_Diff_singleton)
  show "ps_accepted t = ps_accepted s \<and> p_closed (ps_pool t)" if "p_closed (ps_pool s)"
    using assms that
    by (cases rule: pool_step.cases)
      (auto simp: step_simps shutdown_mark_def shutdown_close_def shutdown_cancel_def)
qed

text \<open>
  C31: a marked pool lets nobody in. From the moment \<open>Shutdown\<close> has marked the pool, the tasks
  accepted and the panics to come are together at most as many as the submitters that were
  past the check of \<open>Submit\<close> (or \<open>SubmitWait\<close>) at that moment; none if there were none. From the
  moment the channel is closed, no task is accepted any more.
\<close>

theorem marked_pool_lets_nobody_in:
  assumes mark: "p_shutdown (ps_pool s)" and run: "pool_step\<^sup>*\<^sup>* s t"
  shows "length (ps_accepted t) + ps_panics t + size (ps_clients t) \<le>
      length (ps_accepted s) + ps_panics s + size (ps_clients s) \<and>
    (p_closed (ps_pool s) \<longrightarrow> ps_accepted t = ps_accepted s)"
proof -
  have "p_shutdown (ps_pool t) \<and>
      length (ps_accepted t) + ps_panics t + size (ps_clients t) \<le>
        length (ps_accepted s) + ps_panics s + size (ps_clients s) \<and>
      (p_closed (ps_pool s) \<longrightarrow> ps_accepted t = ps_accepted s \<and> p_closed (ps_pool t))"
    using run
  proof (induction rule: rtranclp_induct)
    case (step t u)
    then have sh: "p_shutdown (ps_pool t)" by blast
    then have "p_shutdown (ps_pool u)"
      using pool_stopping_stays [OF _ step.hyps(2)] by (simp add: pool_stopping_def)
    with marked_pool_step [OF step.hyps(2) sh] step.IH show ?case by fastforce
  qed (simp add: mark)
  then show ?thesis by blast
qed

theorem marked_pool_lets_nobody_in_witness:
  "p_shutdown (ps_pool marked_pool) \<and>
   length (ps_accepted drained_pool) + ps_panics drained_pool \<le> length (ps_accepted marked_pool)"
  using marked_pool_lets_nobody_in [of marked_pool drained_pool] relpowp_imp_rtranclp [OF marked_pool_run]
  by (simp add: marked_pool_eq)

end
