(* ===== verification/Service_Stop.thy ===== *)
theory Service_Stop
  imports Pool_Drain
begin

text \<open>
  How the service ends (\<open>cmd/cloud-update/main.go\<close>): the goroutine that waits for a signal and
  calls \<open>server.Shutdown\<close>, \<open>main\<close>, which returns from \<open>ListenAndServe\<close> as soon as that call
  begins, and its deferred calls, which shut down the worker pool and close the logger. The
  requests being handled and the pool go on meanwhile.

  Lemmas: the invariant \<open>stop_inv\<close>, the pool inside is the pool of \<open>Worker_Pool\<close> (every run of
  the service is one of the pool), and a weight that makes the end come.
\<close>

section \<open>The system\<close>

text \<open>
  \<open>Fails code\<close> is the end by \<open>logger.Fatalf\<close>, which skips the deferred calls; \<open>Stopping\<close> is
  past \<open>ListenAndServe\<close>, \<open>PoolClosing\<close> in the deferred \<open>Shutdown\<close> of the pool, \<open>LogClosing\<close>
  in the deferred \<open>logger.Close\<close>.
\<close>

datatype main_phase = Serving | Stopping | PoolClosing | LogClosing | Exited_main int

datatype sig_phase = AwaitsSignal | InShutdown | ShutdownDone "string go_error"

text \<open>
  A request handler calls \<open>Submit\<close> at most once: it has not called it (\<open>ss_fresh\<close>), is a
  client of the pool, or is past it (\<open>ss_late\<close>). \<open>ss_open\<close>: the server accepts requests.
\<close>

record 't stop_sys =
  ss_pool :: "'t pool_sys"
  ss_open :: bool
  ss_fresh :: nat
  ss_late :: nat
  ss_sig :: sig_phase
  ss_main :: main_phase

definition in_flight :: "'t stop_sys \<Rightarrow> nat" where
  "in_flight s = ss_fresh s + size (ps_clients (ss_pool s)) + ss_late s"

definition stop_start :: "'t stop_sys" where
  "stop_start =
     \<lparr>ss_pool = pool_start 10 100, ss_open = True, ss_fresh = 0, ss_late = 0,
      ss_sig = AwaitsSignal, ss_main = Serving\<rparr>"

definition stop_init :: "'t stop_sys \<Rightarrow> bool" where
  "stop_init s \<longleftrightarrow> s = stop_start"

text \<open>
  The steps of the pool that are not calls by \<open>main\<close> or by a new handler: those of clients
  already in \<open>Submit\<close>, of workers, and of a \<open>Shutdown\<close> that has begun.
\<close>

definition pool_moves :: "'t pool_sys \<Rightarrow> 't pool_sys \<Rightarrow> bool" where
  "pool_moves p q \<longleftrightarrow>
     pool_step p q \<and> size (ps_clients q) \<le> size (ps_clients p) \<and>
     p_shutdown (ps_pool q) = p_shutdown (ps_pool p)"

definition running :: "'t stop_sys \<Rightarrow> bool" where
  "running s \<longleftrightarrow> (\<forall>c. ss_main s \<noteq> Exited_main c)"

text \<open>
  Two guards state what \<open>net/http\<close> documents and \<open>main.go\<close> relies on, not code of the
  repository: requests arrive only before \<open>Shutdown\<close> is called (\<open>request_arrives\<close>), which closes the
  listeners first and makes \<open>ListenAndServe\<close> return at once (\<open>listen_returns\<close>); and \<open>Shutdown\<close>
  returns \<open>nil\<close> only when no request is being handled (\<open>server_is_idle\<close>), otherwise the
  error of its context (\<open>server_times_out\<close>).
\<close>

inductive stop_step :: "'t stop_sys \<Rightarrow> 't stop_sys \<Rightarrow> bool" where
  request_arrives:
  "ss_main s = Serving \<Longrightarrow> ss_open s \<Longrightarrow> stop_step s (s\<lparr>ss_fresh := Suc (ss_fresh s)\<rparr>)"
| handler_submits:
  "running s \<Longrightarrow> ss_fresh s = Suc n \<Longrightarrow> submit_check (ps_pool (ss_pool s)) = None \<Longrightarrow>
   stop_step s (s\<lparr>ss_fresh := n,
     ss_pool := (ss_pool s)\<lparr>ps_clients := add_mset (InSubmit t) (ps_clients (ss_pool s))\<rparr>\<rparr>)"
| pool_goes_on:
  "running s \<Longrightarrow> pool_moves (ss_pool s) p \<Longrightarrow>
   stop_step s (s\<lparr>ss_pool := p,
     ss_late := ss_late s + (size (ps_clients (ss_pool s)) - size (ps_clients p))\<rparr>)"
| fresh_handler_ends:
  "running s \<Longrightarrow> ss_fresh s = Suc n \<Longrightarrow> stop_step s (s\<lparr>ss_fresh := n\<rparr>)"
| late_handler_ends:
  "running s \<Longrightarrow> ss_late s = Suc n \<Longrightarrow> stop_step s (s\<lparr>ss_late := n\<rparr>)"
| signal_arrives:
  "running s \<Longrightarrow> ss_sig s = AwaitsSignal \<Longrightarrow>
   stop_step s (s\<lparr>ss_sig := InShutdown, ss_open := False\<rparr>)"
| server_is_idle:
  "running s \<Longrightarrow> ss_sig s = InShutdown \<Longrightarrow> in_flight s = 0 \<Longrightarrow>
   stop_step s (s\<lparr>ss_sig := ShutdownDone None\<rparr>)"
| server_times_out:
  "running s \<Longrightarrow> ss_sig s = InShutdown \<Longrightarrow>
   stop_step s (s\<lparr>ss_sig := ShutdownDone (Some ''context deadline exceeded'')\<rparr>)"
| listen_returns:
  "ss_main s = Serving \<Longrightarrow> \<not> ss_open s \<Longrightarrow> stop_step s (s\<lparr>ss_main := Stopping\<rparr>)"
| listen_fails:
  "ss_main s = Serving \<Longrightarrow> ss_open s \<Longrightarrow> stop_step s (s\<lparr>ss_main := Exited_main 1\<rparr>)"
| main_shuts_pool:
  "ss_main s = Stopping \<Longrightarrow> shutdown_mark (ps_pool (ss_pool s)) = Some p \<Longrightarrow>
   stop_step s (s\<lparr>ss_main := PoolClosing,
     ss_pool := (ss_pool s)\<lparr>ps_pool := p, ps_phase := Marked\<rparr>\<rparr>)"
| pool_is_shut:
  "ss_main s = PoolClosing \<Longrightarrow> ps_phase (ss_pool s) = Returned e \<Longrightarrow>
   stop_step s (s\<lparr>ss_main := LogClosing\<rparr>)"
| main_exits:
  "ss_main s = LogClosing \<Longrightarrow> stop_step s (s\<lparr>ss_main := Exited_main 0\<rparr>)"

inductive_cases stop_stepE: "stop_step s t"

section \<open>The pool inside\<close>

lemma pool_moves_work:
  assumes "pool_moves p q"
  shows "pool_work q + (size (ps_clients p) - size (ps_clients q)) < pool_work p"
  using assms pool_work_step [of p q] by (simp add: pool_moves_def)

lemma stop_step_pool:
  "stop_step s t \<Longrightarrow> ss_pool t = ss_pool s \<or> pool_step (ss_pool s) (ss_pool t)"
  by (erule stop_stepE)
    (auto simp: pool_moves_def intro: client_enters pool_step.shutdown_marks)

lemma stop_start_pool: "reach pool_init pool_step (ss_pool stop_start)"
  by (simp add: stop_start_def reach_pool_start)

definition stop_inv :: "'t stop_sys \<Rightarrow> bool" where
  "stop_inv s \<longleftrightarrow>
     reach pool_init pool_step (ss_pool s) \<and>
     (p_shutdown (ps_pool (ss_pool s)) \<longleftrightarrow> ss_main s \<in> {PoolClosing, LogClosing, Exited_main 0}) \<and>
     (ss_main s \<in> {LogClosing, Exited_main 0} \<longrightarrow> (\<exists>e. ps_phase (ss_pool s) = Returned e)) \<and>
     (ss_open s \<longleftrightarrow> ss_sig s = AwaitsSignal) \<and> (ss_open s \<longrightarrow> ss_main s \<in> {Serving, Exited_main 1})"

lemma pool_returned_stays:
  "pool_step p q \<Longrightarrow> p_shutdown (ps_pool p) \<Longrightarrow> ps_phase p = Returned e \<Longrightarrow> ps_phase q = Returned e"
  by (erule pool_stepE) (auto simp: shutdown_mark_def)

lemma stop_inv_init: "stop_init s \<Longrightarrow> stop_inv s"
  by (simp add: stop_init_def stop_inv_def reach_pool_start stop_start_def)
    (simp add: pool_start_def NewPool_def)

lemma stop_inv_step:
  assumes inv: "stop_inv s" and step: "stop_step s t"
  shows "stop_inv t"
  using step
proof cases
  case request_arrives
  then show ?thesis using inv by (auto simp: stop_inv_def in_flight_def)
next
  case (handler_submits n x)
  have "reach pool_init pool_step (ss_pool t)"
    using inv client_enters [OF handler_submits(4), of "InSubmit x"] handler_submits(1)
    by (auto simp: stop_inv_def intro: reach_step)
  then show ?thesis using inv handler_submits by (auto simp: stop_inv_def in_flight_def)
next
  case (pool_goes_on p)
  have mv: "pool_step (ss_pool s) p" "size (ps_clients p) \<le> size (ps_clients (ss_pool s))"
    "p_shutdown (ps_pool p) = p_shutdown (ps_pool (ss_pool s))"
    using pool_goes_on(3) by (simp_all add: pool_moves_def)
  have "reach pool_init pool_step p" using inv mv(1) by (auto simp: stop_inv_def intro: reach_step)
  moreover have "ss_main s \<in> {LogClosing, Exited_main 0} \<longrightarrow> (\<exists>e. ps_phase p = Returned e)"
    using inv pool_returned_stays [OF mv(1)] unfolding stop_inv_def by blast
  ultimately show ?thesis using inv mv(3) pool_goes_on(1) by (simp add: stop_inv_def)
next
  case (main_shuts_pool p)
  have "reach pool_init pool_step (ss_pool t)"
    using inv shutdown_marks [OF main_shuts_pool(3)] main_shuts_pool(1)
    by (auto simp: stop_inv_def intro: reach_step)
  then show ?thesis using inv main_shuts_pool
    by (auto simp: stop_inv_def in_flight_def shutdown_mark_def split: if_splits)
qed (use inv in \<open>auto simp: stop_inv_def in_flight_def running_def\<close>)

interpretation stop_system: inv_system stop_init stop_step stop_inv
  by unfold_locales (auto intro: stop_inv_init stop_inv_step)

section \<open>The end comes\<close>

fun sig_work :: "sig_phase \<Rightarrow> nat" where
  "sig_work AwaitsSignal = 2"
| "sig_work InShutdown = 1"
| "sig_work (ShutdownDone e) = 0"

fun main_work :: "main_phase \<Rightarrow> nat" where
  "main_work Serving = 6"
| "main_work Stopping = 5"
| "main_work PoolClosing = 2"
| "main_work LogClosing = 1"
| "main_work (Exited_main c) = 0"

definition stop_work :: "'t stop_sys \<Rightarrow> nat" where
  "stop_work s =
     7 * ss_fresh s + ss_late s + pool_work (ss_pool s) + sig_work (ss_sig s) + main_work (ss_main s)"

text \<open>Once a signal has closed the server, it stays closed.\<close>

definition server_closed :: "'t stop_sys \<Rightarrow> bool" where
  "server_closed s \<longleftrightarrow> \<not> ss_open s"

lemma server_closed_stays: "server_closed s \<Longrightarrow> stop_step s t \<Longrightarrow> server_closed t"
  by (erule stop_stepE) (auto simp: server_closed_def)

lemma stop_work_less: "server_closed s \<Longrightarrow> stop_step s t \<Longrightarrow> stop_work t < stop_work s"
proof (erule stop_stepE, goal_cases)
  case (3 p)
  then show ?case using pool_moves_work [of "ss_pool s" p] by (simp add: stop_work_def)
qed (auto simp: server_closed_def stop_work_def pool_work_def shutdown_mark_def in_flight_def
    split: if_splits)

interpretation service_end: draining stop_step server_closed stop_work
  by unfold_locales (auto intro: server_closed_stays stop_work_less)

lemma pool_step_moves: "pool_step p q \<Longrightarrow> p_shutdown (ps_pool p) \<Longrightarrow> pool_moves p q"
  using pool_stopping_frame [of p q] by (simp add: pool_moves_def pool_stopping_def)

lemma stuck_has_exited:
  assumes inv: "stop_inv s" and closed: "server_closed s" and stuck: "\<forall>u. \<not> stop_step s u"
  shows "\<exists>c. ss_main s = Exited_main c"
proof (rule ccontr)
  assume "\<nexists>c. ss_main s = Exited_main c"
  then have run: "running s" by (simp add: running_def)
  let ?p = "ss_pool s"
  have pinv: "pool_inv ?p"
    using inv pool_system.inv_reach by (auto simp: stop_inv_def)
  consider "ss_main s = Serving" | "ss_main s = Stopping" | "ss_main s = PoolClosing" | "ss_main s = LogClosing"
    using run by (cases "ss_main s") (auto simp: running_def)
  then show False
  proof cases
    case 1
    then show False using stuck listen_returns closed by (auto simp: server_closed_def)
  next
    case 2
    then have "shutdown_mark (ps_pool ?p) = Some ((ps_pool ?p)\<lparr>p_shutdown := True\<rparr>)"
      using inv by (simp add: stop_inv_def shutdown_mark_def)
    then show False using stuck main_shuts_pool [OF 2] by blast
  next
    case 3
    then have sh: "p_shutdown (ps_pool ?p)" using inv by (simp add: stop_inv_def)
    have "\<forall>q. \<not> pool_step ?p q"
      using stuck pool_goes_on [OF run] pool_step_moves [OF _ sh] by blast
    then have "pool_at_end ?p" using stuck_is_end [OF pinv] sh by (simp add: pool_stopping_def)
    then show False using stuck pool_is_shut [OF 3] by (auto simp: pool_at_end_def)
  next
    case 4
    then show False using stuck main_exits by blast
  qed
qed

lemma stop_work_bound:
  "stop_work s \<le> 7 * ss_fresh s + 5 * size (ps_clients (ss_pool s)) + ss_late s +
     3 * Size (ps_pool (ss_pool s)) + 2 * length (ps_workers (ss_pool s)) + 10"
proof -
  have "sig_work (ss_sig s) \<le> 2" by (cases "ss_sig s") simp_all
  moreover have "main_work (ss_main s) \<le> 6" by (cases "ss_main s") simp_all
  ultimately show ?thesis using pool_work_bound [of "ss_pool s"] by (simp add: stop_work_def)
qed

section \<open>Concrete runs\<close>

text \<open>
  The states of a service that has accepted no task; \<open>r\<close> counts the requests: those that have
  not called \<open>Submit\<close>, those inside it, those past it, and the panics so far.
\<close>

type_synonym requests = "nat \<times> nat client multiset \<times> nat \<times> nat"

definition no_requests :: requests where
  "no_requests = (0, {#}, 0, 0)"

definition quiet_stop :: "sig_phase \<Rightarrow> main_phase \<Rightarrow> shutdown_phase \<Rightarrow> nat \<Rightarrow> requests \<Rightarrow> nat stop_sys" where
  "quiet_stop sig m ph k r =
     \<lparr>ss_pool =
        \<lparr>ps_pool = \<lparr>p_workers = 10, p_tasks = [], p_closed = (ph \<notin> {NotCalled, Marked}),
           p_cancelled = False, p_maxBacklog = 100, p_shutdown = (ph \<noteq> NotCalled)\<rparr>,
         ps_workers = replicate k Exited @ replicate (10 - k) Waiting, ps_clients = fst (snd r),
         ps_phase = ph, ps_accepted = [], ps_started = [], ps_finished = [],
         ps_panics = snd (snd (snd r))\<rparr>,
      ss_open = (sig = AwaitsSignal), ss_fresh = fst r, ss_late = fst (snd (snd r)), ss_sig = sig, ss_main = m\<rparr>"

text \<open>The states after the server was shut down cleanly, and after the exit.\<close>

definition idle_server :: "nat stop_sys" where
  "idle_server = quiet_stop (ShutdownDone None) Serving NotCalled 0 no_requests"

definition clean_exit :: "nat stop_sys" where
  "clean_exit = quiet_stop (ShutdownDone None) (Exited_main 0) (Returned None) 10 no_requests"

lemma quiet_start: "quiet_stop AwaitsSignal Serving NotCalled 0 no_requests = stop_start"
  by (simp add: quiet_stop_def no_requests_def stop_start_def pool_start_def NewPool_def)

lemma quiet_pool_moves:
  assumes "pool_step (ss_pool (quiet_stop sig m ph k r)) (ss_pool (quiet_stop sig m ph' k' r))"
    and "ph = NotCalled \<longleftrightarrow> ph' = NotCalled" and "running (quiet_stop sig m ph k r)"
  shows "stop_step (quiet_stop sig m ph k r) (quiet_stop sig m ph' k' r)"
  using pool_goes_on [OF assms(3), of "ss_pool (quiet_stop sig m ph' k' r)"] assms(1,2)
  by (simp add: quiet_stop_def pool_moves_def)

lemma quiet_steps:
  "stop_step (quiet_stop AwaitsSignal Serving NotCalled 0 r) (quiet_stop InShutdown Serving NotCalled 0 r)"
  "stop_step (quiet_stop InShutdown Serving NotCalled 0 no_requests) idle_server"
  "sig \<noteq> AwaitsSignal \<Longrightarrow>
     stop_step (quiet_stop sig Serving NotCalled 0 r) (quiet_stop sig Stopping NotCalled 0 r)"
  "stop_step (quiet_stop sig Stopping NotCalled 0 r) (quiet_stop sig PoolClosing Marked 0 r)"
  "stop_step (quiet_stop sig PoolClosing (Returned e') 10 r) (quiet_stop sig LogClosing (Returned e') 10 r)"
  "stop_step (quiet_stop sig LogClosing (Returned e') 10 r) (quiet_stop sig (Exited_main 0) (Returned e') 10 r)"
proof -
  note d = quiet_stop_def
  show "stop_step (quiet_stop AwaitsSignal Serving NotCalled 0 r) (quiet_stop InShutdown Serving NotCalled 0 r)"
    using signal_arrives [of "quiet_stop AwaitsSignal Serving NotCalled 0 r"]
    by (simp add: d running_def)
  show "stop_step (quiet_stop InShutdown Serving NotCalled 0 no_requests) idle_server"
    using server_is_idle [of "quiet_stop InShutdown Serving NotCalled 0 no_requests"]
    by (simp add: d idle_server_def no_requests_def running_def in_flight_def)
  show "sig \<noteq> AwaitsSignal \<Longrightarrow>
      stop_step (quiet_stop sig Serving NotCalled 0 r) (quiet_stop sig Stopping NotCalled 0 r)"
    using listen_returns [of "quiet_stop sig Serving NotCalled 0 r"] by (simp add: d)
  show "stop_step (quiet_stop sig Stopping NotCalled 0 r) (quiet_stop sig PoolClosing Marked 0 r)"
    using main_shuts_pool [of "quiet_stop sig Stopping NotCalled 0 r"]
    by (simp add: d shutdown_mark_def)
  show "stop_step (quiet_stop sig PoolClosing (Returned e') 10 r) (quiet_stop sig LogClosing (Returned e') 10 r)"
    using pool_is_shut [of "quiet_stop sig PoolClosing (Returned e') 10 r"] by (simp add: d)
  show "stop_step (quiet_stop sig LogClosing (Returned e') 10 r) (quiet_stop sig (Exited_main 0) (Returned e') 10 r)"
    using main_exits [of "quiet_stop sig LogClosing (Returned e') 10 r"] by (simp add: d)
qed

lemma quiet_pool_steps:
  "stop_step (quiet_stop sig PoolClosing Marked 0 r) (quiet_stop sig PoolClosing Draining 0 r)"
  "k < 10 \<Longrightarrow> stop_step (quiet_stop sig PoolClosing Draining k r) (quiet_stop sig PoolClosing Draining (Suc k) r)"
  "stop_step (quiet_stop sig PoolClosing Draining 10 r) (quiet_stop sig PoolClosing (Returned None) 10 r)"
proof -
  note d = quiet_stop_def
  have run: "running (quiet_stop sig PoolClosing ph k r)" for ph k
    by (simp add: d running_def)
  show "stop_step (quiet_stop sig PoolClosing Marked 0 r) (quiet_stop sig PoolClosing Draining 0 r)"
    using shutdown_closes [of "ss_pool (quiet_stop sig PoolClosing Marked 0 r)"]
    by (intro quiet_pool_moves run) (simp_all add: d shutdown_close_def)
  show "stop_step (quiet_stop sig PoolClosing Draining 10 r) (quiet_stop sig PoolClosing (Returned None) 10 r)"
    using shutdown_returns [of "ss_pool (quiet_stop sig PoolClosing Draining 10 r)"]
    by (intro quiet_pool_moves run) (simp_all add: d)
  assume k: "k < 10"
  then have "10 - k = Suc (10 - Suc k)" by simp
  then have upd: "(replicate k Exited @ replicate (10 - k) Waiting)[k := Exited] =
      replicate (Suc k) Exited @ replicate (10 - Suc k) (Waiting :: nat worker)"
    by (simp add: list_update_append replicate_app_Cons_same del: diff_Suc_eq_diff_pred)
  then show "stop_step (quiet_stop sig PoolClosing Draining k r) (quiet_stop sig PoolClosing Draining (Suc k) r)"
    using worker_sees_closed [of k "ss_pool (quiet_stop sig PoolClosing Draining k r)"] k
    by (intro quiet_pool_moves run) (simp_all add: d nth_append step_simps)
qed

lemma quiet_drains: "k \<le> 10 \<Longrightarrow>
    stop_step\<^sup>*\<^sup>* (quiet_stop sig PoolClosing Draining 0 r) (quiet_stop sig PoolClosing Draining k r)"
proof (induction k)
  case (Suc k)
  then show ?case using quiet_pool_steps(2) [of k sig r] rtranclp.rtrancl_into_rtrancl [of stop_step] by simp
qed simp

lemma quiet_closes:
  "stop_step\<^sup>*\<^sup>* (quiet_stop sig PoolClosing Draining 0 r) (quiet_stop sig (Exited_main 0) (Returned None) 10 r)"
proof -
  have "stop_step\<^sup>*\<^sup>* (quiet_stop sig PoolClosing Draining 0 r) (quiet_stop sig PoolClosing Draining 10 r)"
    by (rule quiet_drains) simp
  from rtranclp.rtrancl_into_rtrancl [OF rtranclp.rtrancl_into_rtrancl [OF
        rtranclp.rtrancl_into_rtrancl [OF this quiet_pool_steps(3)] quiet_steps(5)] quiet_steps(6)]
  show ?thesis .
qed

lemma idle_to_exit: "stop_step\<^sup>*\<^sup>* idle_server clean_exit"
proof -
  let ?q = "quiet_stop (ShutdownDone None)"
  have "stop_step\<^sup>*\<^sup>* idle_server (?q PoolClosing Draining 0 no_requests)"
    unfolding idle_server_def
    by (rule converse_rtranclp_into_rtranclp [of stop_step, OF quiet_steps(3)], simp,
        rule converse_rtranclp_into_rtranclp [of stop_step, OF quiet_steps(4)],
        rule r_into_rtranclp, rule quiet_pool_steps(1))
  from rtranclp_trans [OF this quiet_closes] show ?thesis by (simp add: clean_exit_def)
qed

lemma reach_idle_server: "reach stop_init stop_step idle_server"
proof -
  have "reach stop_init stop_step (quiet_stop AwaitsSignal Serving NotCalled 0 no_requests)"
    by (rule reach_init) (simp add: stop_init_def quiet_start)
  from reach_step [OF reach_step [OF this quiet_steps(1)] quiet_steps(2)]
  show ?thesis .
qed

lemma reach_clean_exit: "reach stop_init stop_step clean_exit"
  by (rule reach_steps [OF idle_to_exit reach_idle_server])

text \<open>
  A signal while two requests are being handled: one of them is inside \<open>Submit\<close>, and panics
  when the pool is closed under it, the other is not answered before the process exits.
\<close>

definition hasty_exit :: "nat stop_sys" where
  "hasty_exit = quiet_stop InShutdown (Exited_main 0) (Returned None) 10 (1, {#}, 1, 1)"

lemma request_steps:
  "stop_step (quiet_stop AwaitsSignal Serving NotCalled 0 (f, C, l, x))
     (quiet_stop AwaitsSignal Serving NotCalled 0 (Suc f, C, l, x))"
  "stop_step (quiet_stop AwaitsSignal Serving NotCalled 0 (Suc f, C, l, x))
     (quiet_stop AwaitsSignal Serving NotCalled 0 (f, add_mset (InSubmit 7) C, l, x))"
  "stop_step (quiet_stop sig PoolClosing Draining 0 (f, add_mset (InSubmit 7) {#}, l, x))
     (quiet_stop sig PoolClosing Draining 0 (f, {#}, Suc l, Suc x))"
proof -
  note d = quiet_stop_def and run = running_def
  show "stop_step (quiet_stop AwaitsSignal Serving NotCalled 0 (f, C, l, x))
     (quiet_stop AwaitsSignal Serving NotCalled 0 (Suc f, C, l, x))"
    using request_arrives [of "quiet_stop AwaitsSignal Serving NotCalled 0 (f, C, l, x)"]
    by (simp add: d)
  show "stop_step (quiet_stop AwaitsSignal Serving NotCalled 0 (Suc f, C, l, x))
     (quiet_stop AwaitsSignal Serving NotCalled 0 (f, add_mset (InSubmit 7) C, l, x))"
    using handler_submits [of "quiet_stop AwaitsSignal Serving NotCalled 0 (Suc f, C, l, x)" f 7]
    by (simp add: d run submit_check_def)
  let ?s = "quiet_stop sig PoolClosing Draining 0 (f, add_mset (InSubmit 7) {#}, l, x)"
  have "pool_moves (ss_pool ?s) (ss_pool (quiet_stop sig PoolClosing Draining 0 (f, {#}, Suc l, Suc x)))"
    using client_panics [of "InSubmit 7" "ss_pool ?s"]
    by (simp add: d pool_moves_def step_simps)
  from pool_goes_on [OF _ this] show "stop_step ?s
     (quiet_stop sig PoolClosing Draining 0 (f, {#}, Suc l, Suc x))"
    by (simp add: d run)
qed

lemma reach_hasty_exit: "reach stop_init stop_step hasty_exit"
proof -
  let ?R = "reach stop_init stop_step" and ?q = "quiet_stop"
  have "?R (?q AwaitsSignal Serving NotCalled 0 (0, {#}, 0, 0))"
    by (rule reach_init) (simp add: stop_init_def quiet_start [symmetric] no_requests_def)
  from reach_step [OF reach_step [OF reach_step [OF this request_steps(1)] request_steps(1)]
      request_steps(2)]
  have "?R (?q AwaitsSignal Serving NotCalled 0 (Suc 0, {#InSubmit 7#}, 0, 0))" .
  from reach_step [OF reach_step [OF this quiet_steps(1)] quiet_steps(3)]
  have "?R (?q InShutdown Stopping NotCalled 0 (Suc 0, {#InSubmit 7#}, 0, 0))" by simp
  from reach_step [OF reach_step [OF reach_step [OF this quiet_steps(4)] quiet_pool_steps(1)]
      request_steps(3)]
  have "?R (?q InShutdown PoolClosing Draining 0 (Suc 0, {#}, Suc 0, Suc 0))" .
  from reach_steps [OF quiet_closes this] show ?thesis by (simp add: hasty_exit_def)
qed

section \<open>Properties\<close>

text \<open>
  C17: when the process exits with status 0, the pool's \<open>Shutdown\<close> has returned, and unless
  it ran into its timeout every task that a webhook was accepted for has been run to its end.
\<close>

theorem exit_after_drain:
  assumes "reach stop_init stop_step s" and "ss_main s = Exited_main 0"
  shows "\<exists>e. ps_phase (ss_pool s) = Returned e \<and>
    (e = None \<longrightarrow> p_tasks (ps_pool (ss_pool s)) = [] \<and>
       mset (ps_finished (ss_pool s)) = mset (ps_accepted (ss_pool s)))"
proof -
  have inv: "stop_inv s" by (rule stop_system.inv_reach [OF assms(1)])
  then obtain e where e: "ps_phase (ss_pool s) = Returned e"
    using assms(2) by (auto simp: stop_inv_def)
  have "pool_inv (ss_pool s)" using inv pool_system.inv_reach by (auto simp: stop_inv_def)
  from returned_nil_complete [OF this] e show ?thesis by blast
qed

theorem exit_after_drain_witness:
  "ss_main clean_exit = Exited_main 0 \<and> (\<exists>e. ps_phase (ss_pool clean_exit) = Returned e)"
  using exit_after_drain [OF reach_clean_exit] by (auto simp: clean_exit_def quiet_stop_def)

text \<open>
  C16: a signal ends the service. Once the server is closed, every run has at most the number
  of steps given, and a run that cannot go on has left \<open>main\<close>: nothing waits for ever.
\<close>

theorem signal_stops_service:
  assumes "reach stop_init stop_step s" and "\<not> ss_open s" and "(stop_step ^^ n) s t"
  shows "n \<le> 7 * ss_fresh s + 5 * size (ps_clients (ss_pool s)) + ss_late s +
      3 * Size (ps_pool (ss_pool s)) + 2 * length (ps_workers (ss_pool s)) + 10 \<and>
    ((\<forall>u. \<not> stop_step t u) \<longrightarrow> (\<exists>c. ss_main t = Exited_main c))"
proof -
  have closed: "server_closed s" using assms(2) by (simp add: server_closed_def)
  have "reach stop_init stop_step t"
    using relpowp_imp_rtranclp [OF assms(3)] assms(1) by (rule reach_steps)
  then have "stop_inv t" by (rule stop_system.inv_reach)
  then have "(\<forall>u. \<not> stop_step t u) \<longrightarrow> (\<exists>c. ss_main t = Exited_main c)"
    using stuck_has_exited service_end.run_stopping [OF assms(3) closed] by blast
  with service_end.run_bound [OF assms(3) closed] stop_work_bound [of s] show ?thesis by simp
qed

theorem signal_stops_service_witness:
  "\<exists>n. n \<le> 30 \<and> (stop_step ^^ n) idle_server clean_exit"
proof -
  obtain n where n: "(stop_step ^^ n) idle_server clean_exit"
    using idle_to_exit by (auto simp: rtranclp_power)
  from signal_stops_service [OF reach_idle_server _ n] n show ?thesis
    by (auto simp: idle_server_def quiet_stop_def no_requests_def Size_def)
qed

text \<open>
  C32: \<open>main\<close> does not wait for \<open>server.Shutdown\<close>. There is a run in which, after the signal,
  the pool is closed under a request that then panics in \<open>Submit\<close>, and the process exits with
  status 0 while \<open>server.Shutdown\<close> still waits for requests that are not answered.
\<close>

theorem main_does_not_wait:
  "\<exists>s :: nat stop_sys. reach stop_init stop_step s \<and> ss_main s = Exited_main 0 \<and>
     ps_phase (ss_pool s) = Returned None \<and> ss_sig s = InShutdown \<and>
     0 < ss_fresh s \<and> 0 < ps_panics (ss_pool s)"
proof (intro exI conjI)
  show "reach stop_init stop_step hasty_exit" by (rule reach_hasty_exit)
qed (simp_all add: hasty_exit_def quiet_stop_def)

end
