(* ===== verification/Setup.thy ===== *)
theory Setup
  imports Executor Security
begin

text \<open>
  \<open>internal/setup\<close>: the installer (\<open>setup.go\<close>), its helpers (\<open>helpers.go\<close>) and the wrappers of
  the operating system (\<open>interfaces.go\<close>). File operations, commands and terminal input are
  operations that the system answers; \<open>Setup\<close> and \<open>Uninstall\<close> are computations over them.
  The service files embedded at build time are a parameter (\<open>embedded\<close>). Console output is not
  modelled.

  Lemmas: which operations each part may perform (\<open>only_ops\<close>), from which the properties on
  permissions, on an existing configuration and on the root check follow.
\<close>

section \<open>Operations\<close>

datatype inst_op =
  Geteuid | Executable | Scanln
| MkdirAll string nat | WriteFile string string nat | IReadFile string
| Remove string | RemoveAll string | IStat string | Chmod string nat | Chown string int int
| CRun string "string list" | COutput string "string list" | CLookPath string
| RandRead nat

text \<open>
  All but two are calls of the interfaces \<open>FileSystem\<close>, \<open>CommandRunner\<close> and \<open>OSInterface\<close>, answered
  by what the installer was given. \<open>COutput\<close> and \<open>RandRead\<close> occur in \<open>generateSecret\<close> only,
  which is given nothing: their answers are the machine's (the output of a command that
  \<open>RealCommandRunner\<close> ran, and \<open>crypto/rand\<close>), whatever the other answers are.

  An answer: the error, the text (or bytes) that came back, and the number for \<open>Geteuid\<close>.\<close>

record inst_answer =
  i_err :: "string go_error"
  i_text :: string
  i_num :: int

type_synonym inst_env = "(inst_op, inst_answer) answers"
type_synonym 'a inst = "(inst_op, 'a) io"
type_synonym inst_result = "string go_error inst"

text \<open>What the wrappers of \<open>interfaces.go\<close> put before the error of the operation.\<close>

definition real_context :: "inst_op \<Rightarrow> string" where
  "real_context oper =
     (case oper of
        MkdirAll p m \<Rightarrow> ''failed to create directory: ''
      | WriteFile p c m \<Rightarrow> ''failed to write file: ''
      | IReadFile p \<Rightarrow> ''failed to read file: ''
      | Remove p \<Rightarrow> ''failed to remove file: ''
      | RemoveAll p \<Rightarrow> ''failed to remove directory: ''
      | IStat p \<Rightarrow> ''failed to stat file: ''
      | Chmod p m \<Rightarrow> ''failed to change file permissions: ''
      | Chown p u g \<Rightarrow> ''failed to change file ownership: ''
      | CRun c as \<Rightarrow> ''failed to run command: ''
      | COutput c as \<Rightarrow> ''failed to get command output: ''
      | CLookPath c \<Rightarrow> ''failed to find command in PATH: ''
      | Executable \<Rightarrow> ''failed to get executable path: ''
      | Scanln \<Rightarrow> ''failed to scan input: ''
      | _ \<Rightarrow> [])"

definition real_env :: "inst_env \<Rightarrow> inst_env" where
  "real_env os tr oper =
     (let a = os tr oper in a\<lparr>i_err := map_option (\<lambda>e. real_context oper @ e) (i_err a)\<rparr>)"

lemma real_env_sel [simp]:
  "i_text (real_env os tr oper) = i_text (os tr oper)" "i_num (real_env os tr oper) = i_num (os tr oper)"
  "i_err (real_env os tr oper) = None \<longleftrightarrow> i_err (os tr oper) = None"
  by (simp_all add: real_env_def Let_def)

definition step_err :: "inst_env \<Rightarrow> inst_op \<Rightarrow> inst_result" where
  "step_err os oper = do { a \<leftarrow> perform os oper; return (i_err a) }"

section \<open>The installer\<close>

definition InstallDir :: string where "InstallDir = ''/opt/cloud-update''"
definition ConfigDir :: string where "ConfigDir = ''/etc/cloud-update''"
definition BinaryName :: string where "BinaryName = ''cloud-update''"

datatype InitSystem = InitSystemd | InitOpenRC | InitSysVInit | InitUpstart | InitUnknown

primrec init_string :: "InitSystem \<Rightarrow> string" where
  "init_string InitSystemd = ''systemd''"
| "init_string InitOpenRC = ''openrc''"
| "init_string InitSysVInit = ''sysvinit''"
| "init_string InitUpstart = ''upstart''"
| "init_string InitUnknown = ''unknown''"

text \<open>The embedded files, and \<open>runtime.GOOS\<close>.\<close>

record embedded =
  SystemdService :: string
  OpenRCScript :: string
  SysVInitScript :: string
  GOOS :: string

record ServiceInstaller =
  si_distro :: Distribution
  si_initSystem :: InitSystem

text \<open>\<open>filepath.Join\<close> of two clean relative or absolute paths.\<close>

definition path_join :: "string \<Rightarrow> string \<Rightarrow> string" where
  "path_join d f = d @ ''/'' @ f"

definition createDirectories :: "inst_env \<Rightarrow> inst_result" where
  "createDirectories os =
     or_return (wrap_err (\<lambda>e. ''failed to create directory '' @ InstallDir @ '': '' @ e)
                  (step_err os (MkdirAll InstallDir (octal 7 5 5))))
       (wrap_err (\<lambda>e. ''failed to create directory '' @ ConfigDir @ '': '' @ e)
                  (step_err os (MkdirAll ConfigDir (octal 7 0 0))))"

definition installBinary :: "inst_env \<Rightarrow> inst_result" where
  "installBinary os =
     do {
       x \<leftarrow> perform os Executable;
       case i_err x of
         Some e \<Rightarrow> return (Some (''failed to get executable path: '' @ e))
       | None \<Rightarrow> do {
           f \<leftarrow> perform os (IReadFile (i_text x));
           case i_err f of
             Some e \<Rightarrow> return (Some (''failed to read executable: '' @ e))
           | None \<Rightarrow>
               wrap_err (\<lambda>e. ''failed to write binary: '' @ e)
                 (step_err os (WriteFile (path_join InstallDir BinaryName) (i_text f) (octal 7 5 5)))
         }
     }"

definition systemd_path :: string where
  "systemd_path = ''/etc/systemd/system/cloud-update.service''"

definition initd_path :: string where
  "initd_path = ''/etc/init.d/cloud-update''"

definition installSystemdService :: "embedded \<Rightarrow> inst_env \<Rightarrow> inst_result" where
  "installSystemdService emb os =
     or_return
       (wrap_err (\<lambda>e. ''failed to write systemd service: '' @ e)
          (step_err os (WriteFile systemd_path (SystemdService emb) (octal 6 4 4))))
       (wrap_err (\<lambda>e. ''failed to reload systemd: '' @ e)
          (step_err os (CRun ''systemctl'' [''daemon-reload''])))"

definition installOpenRCService :: "embedded \<Rightarrow> inst_env \<Rightarrow> inst_result" where
  "installOpenRCService emb os =
     wrap_err (\<lambda>e. ''failed to write OpenRC script: '' @ e)
       (step_err os (WriteFile initd_path (OpenRCScript emb) (octal 7 5 5)))"

definition installSysVInitService :: "embedded \<Rightarrow> inst_env \<Rightarrow> inst_result" where
  "installSysVInitService emb os =
     or_return
       (wrap_err (\<lambda>e. ''failed to write SysVInit script: '' @ e)
          (step_err os (WriteFile initd_path (SysVInitScript emb) (octal 7 5 5))))
       (do {
          l \<leftarrow> step_err os (CLookPath ''update-rc.d'');
          if l = None
          then do { err \<leftarrow> step_err os (CRun ''update-rc.d'' [''cloud-update'', ''defaults'']);
                    return None }
          else return None
        })"

definition installService :: "embedded \<Rightarrow> inst_env \<Rightarrow> ServiceInstaller \<Rightarrow> inst_result" where
  "installService emb os s =
     (case si_initSystem s of
        InitSystemd \<Rightarrow> installSystemdService emb os
      | InitOpenRC \<Rightarrow> installOpenRCService emb os
      | InitSysVInit \<Rightarrow> installSysVInitService emb os
      | i \<Rightarrow> return (Some (''unsupported init system: '' @ init_string i)))"

text \<open>
  The secret: 64 characters from \<open>openssl\<close> where it works, else 32 random bytes as hex. The
  length is counted in bytes.
\<close>

definition generateSecretWithDeps :: "'g go_lib_scheme \<Rightarrow> inst_env \<Rightarrow> (string + string) inst" where
  "generateSecretWithDeps g os =
     do {
       a \<leftarrow> perform os (COutput ''openssl'' [''rand'', ''-hex'', ''32'']);
       let trimmed = TrimSpace g (i_text a);
       if i_err a = None \<and> i_text a \<noteq> [] \<and> length trimmed = 64 then return (Inr trimmed)
       else do {
         r \<leftarrow> perform os (RandRead 32);
         case i_err r of
           Some e \<Rightarrow> return (Inl (''failed to generate secure random secret: '' @ e))
         | None \<Rightarrow> return (Inr (EncodeToString (bytes_of (i_text r))))
       }
     }"

text \<open>The runner is the real one, with its wrapper around errors.\<close>

definition generateSecret :: "'g go_lib_scheme \<Rightarrow> inst_env \<Rightarrow> (string + string) inst" where
  "generateSecret g os = generateSecretWithDeps g (real_env os)"

definition config_path :: string where
  "config_path = path_join ConfigDir ''config.env''"

definition config_text :: "string \<Rightarrow> string" where
  "config_text secret =
     str_join [CHR 0x0A]
       [''# Cloud Update Configuration'', ''# Generated by setup command'', [],
        ''# Port on which the HTTP server will listen'', ''CLOUD_UPDATE_PORT=9999'', [],
        ''# Secret key for webhook signature validation (HMAC SHA256)'',
        ''CLOUD_UPDATE_SECRET='' @ secret, [],
        ''# Log level (debug, info, warn, error)'', ''CLOUD_UPDATE_LOG_LEVEL=info'', []]"

definition createConfig :: "'g go_lib_scheme \<Rightarrow> inst_env \<Rightarrow> inst_result" where
  "createConfig g os =
     do {
       st \<leftarrow> step_err os (IStat config_path);
       if st = None then return None
       else do {
         sec \<leftarrow> generateSecret g os;
         case sec of
           Inl e \<Rightarrow> return (Some (''failed to generate secret: '' @ e))
         | Inr secret \<Rightarrow>
             or_return
               (wrap_err (\<lambda>e. ''failed to write config file: '' @ e)
                  (step_err os (WriteFile config_path (config_text secret) (octal 6 0 0))))
               (wrap_err (\<lambda>e. ''failed to set config ownership: '' @ e)
                  (step_err os (Chown config_path 0 0)))
       }
     }"

definition enableService :: "inst_env \<Rightarrow> ServiceInstaller \<Rightarrow> inst_result" where
  "enableService os s =
     (let enable = wrap_err (\<lambda>e. ''failed to enable service: '' @ e)
      in case si_initSystem s of
           InitSystemd \<Rightarrow> enable (step_err os (CRun ''systemctl'' [''enable'', ''cloud-update'']))
         | InitOpenRC \<Rightarrow>
             enable (step_err os (CRun ''rc-update'' [''add'', ''cloud-update'', ''default'']))
         | InitSysVInit \<Rightarrow> do {
             l \<leftarrow> step_err os (CLookPath ''update-rc.d'');
             if l = None
             then enable (step_err os (CRun ''update-rc.d'' [''cloud-update'', ''enable'']))
             else return None
           }
         | _ \<Rightarrow> return None)"

definition Setup :: "'g go_lib_scheme \<Rightarrow> embedded \<Rightarrow> inst_env \<Rightarrow> ServiceInstaller \<Rightarrow> inst_result" where
  "Setup g emb os s =
     do {
       u \<leftarrow> perform os Geteuid;
       if i_num u \<noteq> 0 \<and> GOOS emb \<noteq> ''windows''
       then return (Some ''setup must be run as root (use sudo)'')
       else
         or_return (wrap_err (\<lambda>e. ''failed to create directories: '' @ e) (createDirectories os))
         (or_return (wrap_err (\<lambda>e. ''failed to install binary: '' @ e) (installBinary os))
         (or_return (wrap_err (\<lambda>e. ''failed to install service: '' @ e) (installService emb os s))
         (or_return (wrap_err (\<lambda>e. ''failed to create config: '' @ e) (createConfig g os))
            (wrap_err (\<lambda>e. ''failed to enable service: '' @ e) (enableService os s)))))
     }"

section \<open>Uninstalling\<close>

text \<open>The three parts below report their errors on the console only.\<close>

definition stopService :: "inst_env \<Rightarrow> ServiceInstaller \<Rightarrow> unit inst" where
  "stopService os s =
     (case si_initSystem s of
        InitSystemd \<Rightarrow> do { _ \<leftarrow> step_err os (CRun ''systemctl'' [''stop'', ''cloud-update'']); return () }
      | InitOpenRC \<Rightarrow> do { _ \<leftarrow> step_err os (CRun ''rc-service'' [''cloud-update'', ''stop'']); return () }
      | InitSysVInit \<Rightarrow> do { _ \<leftarrow> step_err os (CRun ''service'' [''cloud-update'', ''stop'']); return () }
      | _ \<Rightarrow> return ())"

definition disableService :: "inst_env \<Rightarrow> ServiceInstaller \<Rightarrow> unit inst" where
  "disableService os s =
     (case si_initSystem s of
        InitSystemd \<Rightarrow> do { _ \<leftarrow> step_err os (CRun ''systemctl'' [''disable'', ''cloud-update'']); return () }
      | InitOpenRC \<Rightarrow> do { _ \<leftarrow> step_err os (CRun ''rc-update'' [''del'', ''cloud-update'']); return () }
      | InitSysVInit \<Rightarrow> do {
          l \<leftarrow> step_err os (CLookPath ''update-rc.d'');
          if l = None
          then do { _ \<leftarrow> step_err os (CRun ''update-rc.d'' [''-f'', ''cloud-update'', ''remove'']); return () }
          else return ()
        }
      | _ \<Rightarrow> return ())"

text \<open>The reload of systemd is deferred in the source, so it comes last.\<close>

definition removeServiceFiles :: "inst_env \<Rightarrow> ServiceInstaller \<Rightarrow> unit inst" where
  "removeServiceFiles os s =
     (case si_initSystem s of
        InitSystemd \<Rightarrow> do {
          _ \<leftarrow> step_err os (Remove systemd_path);
          _ \<leftarrow> step_err os (CRun ''systemctl'' [''daemon-reload'']);
          return () }
      | InitOpenRC \<Rightarrow> do { _ \<leftarrow> step_err os (Remove initd_path); return () }
      | InitSysVInit \<Rightarrow> do { _ \<leftarrow> step_err os (Remove initd_path); return () }
      | _ \<Rightarrow> return ())"

definition Uninstall :: "inst_env \<Rightarrow> ServiceInstaller \<Rightarrow> inst_result" where
  "Uninstall os s =
     do {
       _ \<leftarrow> stopService os s;
       _ \<leftarrow> disableService os s;
       _ \<leftarrow> removeServiceFiles os s;
       _ \<leftarrow> step_err os (RemoveAll InstallDir);
       a \<leftarrow> perform os Scanln;
       let response = (if i_err a = None then i_text a else ''n'');
       if response \<in> {''y'', ''Y''}
       then do { _ \<leftarrow> step_err os (RemoveAll ConfigDir); return None }
       else return None
     }"

section \<open>Detection of the init system and helpers\<close>

definition detectInitSystemWithDeps :: "inst_env \<Rightarrow> InitSystem inst" where
  "detectInitSystemWithDeps os =
     do {
       a \<leftarrow> step_err os (IStat ''/run/systemd/system'');
       if a = None then return InitSystemd
       else do {
         b \<leftarrow> step_err os (CLookPath ''openrc'');
         if b = None then return InitOpenRC
         else do {
           c \<leftarrow> step_err os (IStat ''/etc/init'');
           d \<leftarrow> (if c = None then step_err os (CLookPath ''initctl'') else return (Some []));
           if c = None \<and> d = None then return InitUpstart
           else do {
             e \<leftarrow> step_err os (IStat ''/etc/init.d'');
             return (if e = None then InitSysVInit else InitUnknown)
           }
         }
       }
     }"

definition GetServiceFilePath :: "InitSystem \<Rightarrow> string + string" where
  "GetServiceFilePath i =
     (case i of
        InitSystemd \<Rightarrow> Inr ''/etc/systemd/system/cloud-update.service''
      | InitOpenRC \<Rightarrow> Inr ''/etc/init.d/cloud-update''
      | InitSysVInit \<Rightarrow> Inr ''/etc/init.d/cloud-update''
      | _ \<Rightarrow> Inl (''unsupported init system: '' @ init_string i))"

definition GetServiceCommand :: "InitSystem \<Rightarrow> string \<Rightarrow> string + string \<times> string list" where
  "GetServiceCommand i action =
     (case i of
        InitSystemd \<Rightarrow> Inr (''systemctl'', [action, ''cloud-update''])
      | InitOpenRC \<Rightarrow>
          if action = ''enable'' then Inr (''rc-update'', [''add'', ''cloud-update'', ''default''])
          else if action = ''disable'' then Inr (''rc-update'', [''del'', ''cloud-update''])
          else if action \<in> {''start'', ''stop'', ''restart''}
          then Inr (''rc-service'', [''cloud-update'', action])
          else Inl (''unsupported action: '' @ action)
      | InitSysVInit \<Rightarrow>
          if action = ''enable'' then Inr (''update-rc.d'', [''cloud-update'', ''defaults''])
          else if action = ''disable'' then Inr (''update-rc.d'', [''-f'', ''cloud-update'', ''remove''])
          else if action \<in> {''start'', ''stop'', ''restart''}
          then Inr (''service'', [''cloud-update'', action])
          else Inl (''unsupported action: '' @ action)
      | _ \<Rightarrow> Inl (''unsupported init system: '' @ init_string i))"

definition GenerateRandomSecret :: "inst_env \<Rightarrow> nat \<Rightarrow> (string + string) inst" where
  "GenerateRandomSecret os len =
     do {
       r \<leftarrow> perform os (RandRead len);
       return (case i_err r of
                 Some e \<Rightarrow> Inl (''failed to generate random bytes: '' @ e)
               | None \<Rightarrow> Inr (EncodeToString (bytes_of (i_text r))))
     }"

definition FileExists :: "inst_env \<Rightarrow> string \<Rightarrow> bool inst" where
  "FileExists os p = do { e \<leftarrow> step_err os (IStat p); return (e = None) }"

definition RemoveFileIfExists :: "inst_env \<Rightarrow> string \<Rightarrow> inst_result" where
  "RemoveFileIfExists os p =
     do {
       b \<leftarrow> FileExists os p;
       if b then wrap_err (\<lambda>e. ''failed to remove file: '' @ e) (step_err os (Remove p))
       else return None
     }"

definition WriteFileWithMode :: "inst_env \<Rightarrow> string \<Rightarrow> string \<Rightarrow> nat \<Rightarrow> inst_result" where
  "WriteFileWithMode os p c m =
     wrap_err (\<lambda>e. ''failed to write file: '' @ e) (step_err os (WriteFile p c m))"

definition CopyFile :: "inst_env \<Rightarrow> string \<Rightarrow> string \<Rightarrow> nat \<Rightarrow> inst_result" where
  "CopyFile os src dst m =
     do {
       f \<leftarrow> perform os (IReadFile src);
       case i_err f of
         Some e \<Rightarrow> return (Some (''failed to read source: '' @ e))
       | None \<Rightarrow> WriteFileWithMode os dst (i_text f) m
     }"

definition CreateDirectory :: "inst_env \<Rightarrow> string \<Rightarrow> nat \<Rightarrow> inst_result" where
  "CreateDirectory os p m =
     wrap_err (\<lambda>e. ''failed to create directory: '' @ e) (step_err os (MkdirAll p m))"

definition BuildConfigContent :: "string \<Rightarrow> string" where
  "BuildConfigContent secret =
     str_join [CHR 0x0A]
       [''# Cloud Update Configuration'', ''# Generated during installation'', [],
        ''# Server configuration'', ''server:'',
        ''  host: '' @ [CHR 0x22] @ ''0.0.0.0'' @ [CHR 0x22], ''  port: 9999'', ''  '',
        ''# Security'', ''security:'', ''  webhook_secret: '' @ [CHR 0x22] @ secret @ [CHR 0x22], ''  '',
        ''# Logging'', ''logging:'', ''  level: '' @ [CHR 0x22] @ ''info'' @ [CHR 0x22],
        ''  file: '' @ [CHR 0x22] @ ''/var/log/cloud-update.log'' @ [CHR 0x22], []]"

definition GetBinaryPath :: string where
  "GetBinaryPath = path_join InstallDir BinaryName"

definition GetConfigPath :: string where
  "GetConfigPath = path_join ConfigDir ''config.yaml''"

text \<open>
  \<open>NewServiceInstaller\<close> detects the distribution with a new system executor and the init
  system with the real operating system. \<open>NewServiceInstallerWithDeps\<close> detects the same way,
  whatever it is given (the operating system it is given is the argument of the methods here).
\<close>

definition detectDistribution :: "'g go_lib_scheme \<Rightarrow> sys_env \<Rightarrow> Distribution" where
  "detectDistribution g sys =
     fst (run_state (do { e \<leftarrow> NewSystemExecutor sys; DetectDistribution g sys }) [])"

definition detectInitSystem :: "inst_env \<Rightarrow> InitSystem" where
  "detectInitSystem os = fst (run_state (detectInitSystemWithDeps (real_env os)) [])"

definition NewServiceInstaller :: "'g go_lib_scheme \<Rightarrow> sys_env \<Rightarrow> inst_env \<Rightarrow> ServiceInstaller" where
  "NewServiceInstaller g sys os =
     \<lparr>si_distro = detectDistribution g sys, si_initSystem = detectInitSystem os\<rparr>"

definition NewServiceInstallerWithDeps :: "'g go_lib_scheme \<Rightarrow> sys_env \<Rightarrow> inst_env \<Rightarrow> inst_env \<Rightarrow>
    ServiceInstaller" where
  "NewServiceInstallerWithDeps g sys os deps =
     \<lparr>si_distro = detectDistribution g sys, si_initSystem = detectInitSystem os\<rparr>"

text \<open>What a successful \<open>Setup\<close> prints at its end.\<close>

definition printNextSteps :: "ServiceInstaller \<Rightarrow> string" where
  "printNextSteps s =
     concat (map (\<lambda>l. l @ [CHR 0x0A])
       ([[CHR 0x0A, CHR 0xF0, CHR 0x9F, CHR 0x93, CHR 0x8B] @ '' Next steps:'',
         ''1. Review configuration: '' @ path_join ConfigDir ''config.env''] @
        (case si_initSystem s of
           InitSystemd \<Rightarrow>
             [''2. Start service: sudo systemctl start cloud-update'',
              ''3. Check status: sudo systemctl status cloud-update'',
              ''4. View logs: sudo journalctl -u cloud-update -f'']
         | InitOpenRC \<Rightarrow>
             [''2. Start service: sudo rc-service cloud-update start'',
              ''3. Check status: sudo rc-service cloud-update status'',
              ''4. View logs: tail -f /var/log/cloud-update.log'']
         | InitSysVInit \<Rightarrow>
             [''2. Start service: sudo service cloud-update start'',
              ''3. Check status: sudo service cloud-update status'',
              ''4. View logs: tail -f /var/log/syslog | grep cloud-update'']
         | _ \<Rightarrow> [])))"

text \<open>The helpers name another configuration file than the one \<open>Setup\<close> writes.\<close>

lemma helpers_other_config: "GetConfigPath \<noteq> config_path"
  by (simp add: GetConfigPath_def config_path_def path_join_def)

lemmas setup_defs [model_defs] = createDirectories_def installBinary_def installService_def
  installSystemdService_def installOpenRCService_def installSysVInitService_def createConfig_def
  generateSecret_def generateSecretWithDeps_def enableService_def Setup_def

section \<open>What each part may do\<close>

lemma only_ops_step_err [simp]: "only_ops P (step_err os oper) = P oper"
  by (simp add: step_err_def only_ops_def)

lemma only_ops_wrap_err [intro!]: "only_ops P m \<Longrightarrow> only_ops P (wrap_err f m)"
  unfolding wrap_err_def by (rule only_ops_bind) auto

lemma run_step_err [simp]: "run_state (step_err os oper) tr = (i_err (os tr oper), tr @ [oper])"
  by (simp add: step_err_def)

lemmas path_defs = InstallDir_def ConfigDir_def BinaryName_def path_join_def config_path_def
  systemd_path_def initd_path_def

lemma only_ops_generateSecret:
  "P (COutput ''openssl'' [''rand'', ''-hex'', ''32'']) \<Longrightarrow> P (RandRead 32) \<Longrightarrow>
     only_ops P (generateSecret g os)"
  unfolding generateSecret_def generateSecretWithDeps_def Let_def
  by (auto split: option.splits if_splits)

lemma only_ops_createConfig:
  assumes "P (IStat config_path)" and "P (Chown config_path 0 0)"
    and "P (COutput ''openssl'' [''rand'', ''-hex'', ''32''])" and "P (RandRead 32)"
    and "\<And>c. P (WriteFile config_path c (octal 6 0 0))"
  shows "only_ops P (createConfig g os)"
  unfolding createConfig_def using assms
  by (auto split: sum.splits if_splits intro!: only_ops_generateSecret)

lemma only_ops_installService:
  assumes "P (WriteFile systemd_path (SystemdService emb) (octal 6 4 4))"
    and "P (WriteFile initd_path (OpenRCScript emb) (octal 7 5 5))"
    and "P (WriteFile initd_path (SysVInitScript emb) (octal 7 5 5))"
    and "P (CLookPath ''update-rc.d'')" and "\<And>c as. P (CRun c as)"
  shows "only_ops P (installService emb os s)"
  unfolding installService_def installSystemdService_def installOpenRCService_def
    installSysVInitService_def
  using assms by (auto split: InitSystem.splits if_splits)

lemma only_ops_enableService:
  assumes "P (CLookPath ''update-rc.d'')" and "\<And>c as. P (CRun c as)"
  shows "only_ops P (enableService os s)"
  unfolding enableService_def Let_def using assms by (auto split: InitSystem.splits if_splits)

lemma only_ops_installBinary:
  assumes "P Executable" and "\<And>p. P (IReadFile p)"
    and "\<And>c. P (WriteFile (path_join InstallDir BinaryName) c (octal 7 5 5))"
  shows "only_ops P (installBinary os)"
  unfolding installBinary_def using assms by (auto split: option.splits)

lemma only_ops_Setup:
  assumes "P Geteuid" "P Executable" "P (MkdirAll InstallDir (octal 7 5 5))"
    "P (MkdirAll ConfigDir (octal 7 0 0))" "\<And>p. P (IReadFile p)"
    "\<And>c. P (WriteFile (path_join InstallDir BinaryName) c (octal 7 5 5))"
    "P (WriteFile systemd_path (SystemdService emb) (octal 6 4 4))"
    "P (WriteFile initd_path (OpenRCScript emb) (octal 7 5 5))"
    "P (WriteFile initd_path (SysVInitScript emb) (octal 7 5 5))"
    "\<And>c. P (CLookPath c)" "\<And>c as. P (CRun c as)" and cfg: "only_ops P (createConfig g os)"
  shows "only_ops P (Setup g emb os s)"
  unfolding Setup_def createDirectories_def using assms
  by (auto split: if_splits intro!: only_ops_installBinary only_ops_installService
      only_ops_enableService)

section \<open>Properties\<close>

definition setup_allowed :: "embedded \<Rightarrow> inst_op \<Rightarrow> bool" where
  "setup_allowed emb oper =
     (case oper of
        MkdirAll p m \<Rightarrow> (p, m) \<in> {(''/opt/cloud-update'', 493), (''/etc/cloud-update'', 448)}
      | WriteFile p c m \<Rightarrow>
          p = ''/etc/cloud-update/config.env'' \<and> m = 384 \<or>
          p = ''/opt/cloud-update/cloud-update'' \<and> m = 493 \<or>
          p = ''/etc/systemd/system/cloud-update.service'' \<and> m = 420 \<and> c = SystemdService emb \<or>
          p = ''/etc/init.d/cloud-update'' \<and> m = 493 \<and> c \<in> {OpenRCScript emb, SysVInitScript emb}
      | Chown p u g \<Rightarrow> p = ''/etc/cloud-update/config.env'' \<and> u = 0 \<and> g = 0
      | Chmod p m \<Rightarrow> False
      | Remove p \<Rightarrow> False
      | RemoveAll p \<Rightarrow> False
      | _ \<Rightarrow> True)"

text \<open>
  C22: what the installer writes, and with which permissions. Whatever the system answers,
  \<open>Setup\<close> creates only its two directories (755 and 700), writes only the binary, the embedded
  service file and the configuration, the latter (the only one with the secret) with mode
  600 and owned by root, and removes nothing.
\<close>

theorem setup_writes_only:
  "\<exists>new. snd (run_state (Setup g emb os s) tr) = tr @ new \<and> list_all (setup_allowed emb) new"
proof (rule only_opsD, rule only_ops_Setup)
  show "only_ops (setup_allowed emb) (createConfig g os)"
    by (rule only_ops_createConfig) (simp_all add: setup_allowed_def path_defs octal_def)
qed (simp_all add: setup_allowed_def path_defs octal_def)

text \<open>
  Only root installs. If the effective user is not root (and the system is not Windows),
  \<open>Setup\<close> fails after that one question to the system and performs no other operation.
\<close>

theorem setup_needs_root:
  assumes "i_num (os tr Geteuid) \<noteq> 0" and "GOOS emb \<noteq> ''windows''"
  shows "run_state (Setup g emb os s) tr = (Some ''setup must be run as root (use sudo)'', tr @ [Geteuid])"
  using assms by (simp add: Setup_def)

text \<open>A system on which everything succeeds, for a user; \<open>openssl\<close> prints 64 characters.\<close>

definition good_env :: "int \<Rightarrow> inst_env" where
  "good_env user tr oper =
     \<lparr>i_err = None, i_text = (case oper of COutput c as \<Rightarrow> replicate 64 CHR ''a''
                              | RandRead n \<Rightarrow> replicate n CHR 0x01 | _ \<Rightarrow> ''n''), i_num = user\<rparr>"

definition no_files :: embedded where
  "no_files = \<lparr>SystemdService = [], OpenRCScript = [], SysVInitScript = [], GOOS = ''linux''\<rparr>"

definition sample_lib :: go_lib where
  "sample_lib = \<lparr>uni_lower = (\<lambda>s. s), uni_trim = (\<lambda>s. s), uni_quote = (\<lambda>s. s), parse_ip = (\<lambda>s. False)\<rparr>"

definition on_systemd :: ServiceInstaller where
  "on_systemd = \<lparr>si_distro = DistroDebian, si_initSystem = InitSystemd\<rparr>"

theorem setup_needs_root_witness:
  "snd (run_state (Setup sample_lib no_files (good_env 1000) on_systemd) []) = [Geteuid]"
  using setup_needs_root [of "good_env 1000" "[]" no_files sample_lib on_systemd]
  by (simp add: good_env_def no_files_def)

text \<open>
  C28: an existing configuration is never overwritten. On a system where the file is there,
  no run of \<open>Setup\<close> writes it, and no new secret is generated.
\<close>

theorem setup_keeps_config:
  assumes there: "\<And>tr. i_err (os tr (IStat ''/etc/cloud-update/config.env'')) = None"
  shows "only_ops (\<lambda>oper. case oper of WriteFile p c m \<Rightarrow> p \<noteq> ''/etc/cloud-update/config.env''
      | RandRead n \<Rightarrow> False | COutput c as \<Rightarrow> False | Chown p u g \<Rightarrow> False | _ \<Rightarrow> True) (Setup g emb os s)"
    (is "only_ops ?P _")
proof (rule only_ops_Setup)
  show "only_ops ?P (createConfig g os)"
    unfolding only_ops_def
  proof
    fix tr
    have "i_err (os tr (IStat config_path)) = None" using there by (simp add: path_defs)
    then show "\<exists>new. snd (run_state (createConfig g os) tr) = tr @ new \<and> list_all ?P new"
      by (simp add: createConfig_def)
  qed
qed (simp_all add: path_defs)

theorem setup_keeps_config_witness:
  "\<exists>new. snd (run_state (Setup sample_lib no_files (good_env 0) on_systemd) []) = new \<and>
     (\<forall>c m. WriteFile ''/etc/cloud-update/config.env'' c m \<notin> set new)"
  using only_opsD [OF setup_keeps_config [of "good_env 0" sample_lib no_files on_systemd], of "[]"]
  by (auto simp: good_env_def list_all_iff)

text \<open>
  The generated secret is one the service accepts. Whether it comes from \<open>openssl\<close> or from
  the random device (32 bytes), it has 64 characters and the authenticator takes it.
\<close>

theorem generated_secret_accepted:
  assumes rnd: "\<And>tr. i_err (os tr (RandRead 32)) = None \<Longrightarrow> length (i_text (os tr (RandRead 32))) = 32"
    and run: "fst (run_state (generateSecret g os) tr) = Inr secret"
  shows "length secret = 64 \<and> NewHMACAuthenticator secret = Inr secret"
proof -
  have "length secret = 64"
    using rnd run
    by (auto simp: generateSecret_def generateSecretWithDeps_def Let_def bytes_of_def split: if_splits option.splits)
  then show ?thesis by (auto simp: NewHMACAuthenticator_def)
qed

text \<open>The same system without \<open>openssl\<close>.\<close>

definition no_openssl :: inst_env where
  "no_openssl tr oper =
     (case oper of COutput c as \<Rightarrow> (good_env 0 tr oper)\<lparr>i_err := Some ''not found''\<rparr>
      | _ \<Rightarrow> good_env 0 tr oper)"

theorem generated_secret_accepted_witness:
  "\<exists>secret. fst (run_state (generateSecret sample_lib no_openssl) []) = Inr secret \<and>
     NewHMACAuthenticator secret = Inr secret"
proof -
  obtain secret where run: "fst (run_state (generateSecret sample_lib no_openssl) []) = Inr secret"
    by (simp add: generateSecret_def generateSecretWithDeps_def no_openssl_def good_env_def Let_def
        split: option.split)
  moreover have "length (i_text (no_openssl tr (RandRead 32))) = 32" for tr
    by (simp add: no_openssl_def good_env_def)
  ultimately show ?thesis using generated_secret_accepted [OF _ run] by blast
qed

text \<open>
  What is installed can be uninstalled. On every init system with a service file,
  installing the service writes exactly that file, whatever happens next, and uninstalling
  removes that same file.
\<close>

theorem uninstall_removes_installed_file:
  assumes "GetServiceFilePath (si_initSystem s) = Inr p"
  shows "(\<exists>c m rest. snd (run_state (installService emb os s) tr) = tr @ WriteFile p c m # rest) \<and>
    Remove p \<in> set (snd (run_state (removeServiceFiles os s) tr))"
  using assms
  by (cases "si_initSystem s")
    (auto simp: GetServiceFilePath_def installService_def installSystemdService_def
      installOpenRCService_def installSysVInitService_def removeServiceFiles_def path_defs
      split: option.splits prod.splits)

theorem uninstall_removes_installed_file_witness:
  "Remove ''/etc/systemd/system/cloud-update.service'' \<in>
     set (snd (run_state (removeServiceFiles (good_env 0) on_systemd) []))"
  using uninstall_removes_installed_file [of on_systemd "''/etc/systemd/system/cloud-update.service''"
      no_files "good_env 0" "[]"]
  by (simp add: GetServiceFilePath_def on_systemd_def)

text \<open>
  The configuration survives an uninstallation unless the user says yes. If reading the
  answer fails, or the answer is not \<open>y\<close> or \<open>Y\<close>, nothing below \<open>/etc/cloud-update\<close> is removed.
\<close>

theorem uninstall_keeps_config:
  assumes "\<And>tr. i_err (os tr Scanln) = None \<Longrightarrow> i_text (os tr Scanln) \<notin> {''y'', ''Y''}"
  shows "only_ops (\<lambda>oper. case oper of RemoveAll p \<Rightarrow> p = ''/opt/cloud-update''
      | Remove p \<Rightarrow> p \<in> {''/etc/systemd/system/cloud-update.service'', ''/etc/init.d/cloud-update''}
      | _ \<Rightarrow> True) (Uninstall os s)" (is "only_ops ?P _")
proof -
  have ask: "only_ops ?P (do { a \<leftarrow> perform os Scanln;
      let response = (if i_err a = None then i_text a else ''n'');
      if response \<in> {''y'', ''Y''} then do { _ \<leftarrow> step_err os (RemoveAll ConfigDir); return None }
      else return None })" (is "only_ops _ ?ask")
    unfolding only_ops_def
  proof
    fix tr
    have "(if i_err (os tr Scanln) = None then i_text (os tr Scanln) else ''n'') \<notin> {''y'', ''Y''}"
      using assms [of tr] by simp
    then show "\<exists>new. snd (run_state ?ask tr) = tr @ new \<and> list_all ?P new"
      by (simp add: Let_def split del: if_split)
  qed
  show ?thesis
    unfolding Uninstall_def
    by (intro only_ops_bind ask; auto simp: path_defs stopService_def disableService_def
        removeServiceFiles_def split: InitSystem.splits if_splits)
qed

theorem uninstall_keeps_config_witness:
  "RemoveAll ''/etc/cloud-update'' \<notin> set (snd (run_state (Uninstall (good_env 0) on_systemd) []))"
  using only_opsD [OF uninstall_keeps_config [of "good_env 0" on_systemd], of "[]"]
  by (auto simp: good_env_def list_all_iff)

text \<open>
  There is no roll-back. On a system with upstart, or with no init system that is known,
  \<open>Setup\<close> always fails, and if the steps before succeed it does so after it has created the
  directories and installed the binary, which stay.
\<close>

theorem unsupported_init_leaves_files:
  assumes i: "si_initSystem s \<in> {InitUpstart, InitUnknown}"
    and root: "i_num (os [] Geteuid) = 0" and ok: "\<And>tr oper. i_err (os tr oper) = None"
  shows "\<exists>e exe bin. run_state (Setup g emb os s) [] =
    (Some e, [Geteuid, MkdirAll ''/opt/cloud-update'' 493, MkdirAll ''/etc/cloud-update'' 448,
              Executable, IReadFile exe, WriteFile ''/opt/cloud-update/cloud-update'' bin 493])"
  using i root
  by (auto simp: Setup_def createDirectories_def installBinary_def installService_def ok path_defs
      octal_def)

theorem unsupported_init_leaves_files_witness:
  "fst (run_state (Setup sample_lib no_files (good_env 0)
     \<lparr>si_distro = DistroUbuntu, si_initSystem = InitUpstart\<rparr>) []) \<noteq> None"
  using unsupported_init_leaves_files [of "\<lparr>si_distro = DistroUbuntu, si_initSystem = InitUpstart\<rparr>"
      "good_env 0" sample_lib no_files]
  by (auto simp: good_env_def)

end
