(* ===== verification/Rate_Limiter.thy ===== *)
theory Rate_Limiter
  imports Http
begin

text \<open>
  \<open>internal/infrastructure/ratelimit/limiter.go\<close>. The token bucket itself is the package
  \<open>golang.org/x/time/rate\<close>, which is not part of the repository: \<open>rate_lib\<close> stands for its
  two functions, \<open>rate.NewLimiter\<close> and \<open>(*Limiter).Allow\<close> at a given moment. A limiter is
  shared by pointer (the fast path of \<open>Allow\<close> uses it without any lock), so limiters live in
  a heap and \<open>rl_limiters\<close> holds references.

  Lemmas: the sequential invariant \<open>rl_ok\<close> (both maps know the same clients, no two clients
  share a bucket) with the bound on the number of clients and LRU eviction; the weaker
  invariant that survives interleaving, for the transition system \<open>rl_step\<close> over the
  critical sections of \<open>Allow\<close> and \<open>cleanup\<close>; the middleware and the client's address.
\<close>

section \<open>State\<close>

record 'l rate_lib =
  NewLimiter :: "int \<Rightarrow> int \<Rightarrow> 'l"
  LimiterAllow :: "time \<Rightarrow> 'l \<Rightarrow> bool \<times> 'l"

record rl_config =
  RequestsPerSecond :: int
  Burst :: int
  TTL :: duration

definition DefaultConfig :: rl_config where
  "DefaultConfig = \<lparr>RequestsPerSecond = 10, Burst = 20, TTL = 15 * minute\<rparr>"

record 'l rate_limiter =
  rl_limiters :: "(string, nat) gomap"
  rl_heap :: "'l list"
  rl_limit :: int
  rl_burst :: int
  rl_ttl :: duration
  rl_lastSeen :: "(string, time) gomap"
  rl_maxSize :: nat

definition NewRateLimiter :: "rl_config \<Rightarrow> 'l rate_limiter" where
  "NewRateLimiter cfg =
     \<lparr>rl_limiters = [], rl_heap = [], rl_limit = RequestsPerSecond cfg, rl_burst = Burst cfg,
      rl_ttl = TTL cfg, rl_lastSeen = [], rl_maxSize = 10000\<rparr>"

section \<open>Allow\<close>

text \<open>The critical sections of \<open>Allow\<close>: the lookup, the touch and the token bucket.\<close>

definition rl_lookup :: "string \<Rightarrow> 'l rate_limiter \<Rightarrow> nat option" where
  "rl_lookup i rl = map_of (rl_limiters rl) i"

definition rl_touch :: "string \<Rightarrow> time \<Rightarrow> 'l rate_limiter \<Rightarrow> 'l rate_limiter" where
  "rl_touch i now rl = rl\<lparr>rl_lastSeen := AList.update i now (rl_lastSeen rl)\<rparr>"

definition rl_bucket :: "'l rate_lib \<Rightarrow> time \<Rightarrow> nat \<Rightarrow> 'l rate_limiter \<Rightarrow>
    bool \<times> 'l rate_limiter" where
  "rl_bucket lib now r rl =
     (case LimiterAllow lib now (rl_heap rl ! r) of
        (b, l) \<Rightarrow> (b, rl\<lparr>rl_heap := (rl_heap rl)[r := l]\<rparr>))"

text \<open>
  The loop of \<open>evictOldest\<close> over the entries in the order the runtime gives, with
  \<open>oldestID\<close>, \<open>oldestTime\<close> and \<open>first\<close>.
\<close>

fun evict_scan :: "(string \<times> time) list \<Rightarrow> string \<Rightarrow> time \<Rightarrow> bool \<Rightarrow> string" where
  "evict_scan [] oldestID oldestTime first = oldestID"
| "evict_scan ((i, seen) # es) oldestID oldestTime first =
     (if first \<or> seen < oldestTime then evict_scan es i seen False
      else evict_scan es oldestID oldestTime first)"

type_synonym map_order = "(string, time) gomap \<Rightarrow> (string \<times> time) list"

definition rl_delete :: "string \<Rightarrow> 'l rate_limiter \<Rightarrow> 'l rate_limiter" where
  "rl_delete i rl =
     rl\<lparr>rl_limiters := AList.delete i (rl_limiters rl),
        rl_lastSeen := AList.delete i (rl_lastSeen rl)\<rparr>"

definition evictOldest :: "map_order \<Rightarrow> 'l rate_limiter \<Rightarrow> 'l rate_limiter" where
  "evictOldest ord rl =
     (let oldestID = evict_scan (ord (rl_lastSeen rl)) [] 0 True
      in if oldestID \<noteq> [] then rl_delete oldestID rl else rl)"

text \<open>The creation of a limiter, after the second lookup under the write lock.\<close>

definition rl_create :: "'l rate_lib \<Rightarrow> map_order \<Rightarrow> string \<Rightarrow> 'l rate_limiter \<Rightarrow>
    nat \<times> 'l rate_limiter" where
  "rl_create lib ord i rl =
     (let rl = (if length (rl_limiters rl) \<ge> rl_maxSize rl then evictOldest ord rl else rl);
          r = length (rl_heap rl)
      in (r, rl\<lparr>rl_heap := rl_heap rl @ [NewLimiter lib (rl_limit rl) (rl_burst rl)],
                rl_limiters := AList.update i r (rl_limiters rl)\<rparr>))"

definition rl_slow :: "'l rate_lib \<Rightarrow> map_order \<Rightarrow> string \<Rightarrow> time \<Rightarrow> time \<Rightarrow> 'l rate_limiter \<Rightarrow>
    bool \<times> 'l rate_limiter" where
  "rl_slow lib ord i now now' rl =
     (case (case rl_lookup i rl of Some r \<Rightarrow> (r, rl) | None \<Rightarrow> rl_create lib ord i rl) of
        (r, rl') \<Rightarrow> rl_bucket lib now' r (rl_touch i now rl'))"

definition Allow :: "'l rate_lib \<Rightarrow> map_order \<Rightarrow> string \<Rightarrow> time \<Rightarrow> time \<Rightarrow> 'l rate_limiter \<Rightarrow>
    bool \<times> 'l rate_limiter" where
  "Allow lib ord i now now' rl =
     (case rl_lookup i rl of
        Some r \<Rightarrow> rl_bucket lib now' r (rl_touch i now rl)
      | None \<Rightarrow> rl_slow lib ord i now now' rl)"

text \<open>One tick of \<open>cleanup\<close>: collect the identifiers, then delete them.\<close>

fun collect_stale :: "time \<Rightarrow> duration \<Rightarrow> (string \<times> time) list \<Rightarrow> string list \<Rightarrow> string list" where
  "collect_stale now ttl [] toDelete = toDelete"
| "collect_stale now ttl ((i, seen) # es) toDelete =
     collect_stale now ttl es (if time_sub now seen > ttl then toDelete @ [i] else toDelete)"

definition cleanup_tick :: "map_order \<Rightarrow> time \<Rightarrow> 'l rate_limiter \<Rightarrow> 'l rate_limiter" where
  "cleanup_tick ord now rl =
     fold rl_delete (collect_stale now (rl_ttl rl) (ord (rl_lastSeen rl)) []) rl"

text \<open>
  \<open>Stats\<close>, as the integers it reports. (The minutes come from a \<open>float64\<close>, which has the whole
  number of minutes for any time to live below a hundred days.)
\<close>

definition Stats :: "'l rate_limiter \<Rightarrow> (string \<times> int) list" where
  "Stats rl =
     [(''active_limiters'', int (length (rl_limiters rl))), (''limit_per_second'', rl_limit rl),
      (''burst_size'', rl_burst rl),
      (''ttl_minutes'', if rl_ttl rl < 0 then - (- rl_ttl rl div minute) else rl_ttl rl div minute)]"

lemma Stats_default:
  "Stats (NewRateLimiter DefaultConfig) =
     [(''active_limiters'', 0), (''limit_per_second'', 10), (''burst_size'', 20), (''ttl_minutes'', 15)]"
  by (simp add: Stats_def NewRateLimiter_def DefaultConfig_def)

section \<open>The client's address and the middleware\<close>

definition GetClientIP :: "'a go_lib_scheme \<Rightarrow> http_request \<Rightarrow> string" where
  "GetClientIP g r =
     (let forwarded = r_Header r ''X-Forwarded-For'';
          ip = TrimSpace g (hd (str_split CHR '','' forwarded));
          realIP = r_Header r ''X-Real-IP''
      in if forwarded \<noteq> [] \<and> parse_ip g ip then ip
         else if realIP \<noteq> [] \<and> parse_ip g realIP then realIP
         else (case SplitHostPort (r_RemoteAddr r) of
                 Inl e \<Rightarrow> r_RemoteAddr r
               | Inr (ip, port) \<Rightarrow> ip))"

lemma GetClientIP_named:
  assumes "\<not> parse_ip g []" and "r_RemoteAddr r \<noteq> []"
    and "\<And>ip port. SplitHostPort (r_RemoteAddr r) = Inr (ip, port) \<Longrightarrow> ip \<noteq> []"
  shows "GetClientIP g r \<noteq> []"
  using assms by (auto simp: GetClientIP_def Let_def split: sum.splits)

definition add_header :: "string \<times> string \<Rightarrow> http_response \<Rightarrow> http_response" where
  "add_header h w = w\<lparr>w_Headers := h # w_Headers w\<rparr>"

text \<open>\<open>now3\<close> is the clock reading of the \<open>X-RateLimit-Reset\<close> header.\<close>

definition too_many_requests :: "int \<Rightarrow> time \<Rightarrow> http_response" where
  "too_many_requests limit now3 =
     fold add_header
       [(''Retry-After'', ''1''),
        (''X-RateLimit-Reset'', fmt_d (unix_seconds (now3 + second))),
        (''X-RateLimit-Remaining'', ''0''),
        (''X-RateLimit-Limit'', fmt_d limit)]
       (http_Error ''Rate limit exceeded. Please try again later.'' StatusTooManyRequests)"

definition MiddlewareFunc :: "'l rate_lib \<Rightarrow> map_order \<Rightarrow> 'a go_lib_scheme \<Rightarrow>
    time \<Rightarrow> time \<Rightarrow> time \<Rightarrow> (http_request \<Rightarrow> 's \<Rightarrow> http_response \<times> 's) \<Rightarrow>
    http_request \<Rightarrow> 'l rate_limiter \<times> 's \<Rightarrow> http_response \<times> 'l rate_limiter \<times> 's" where
  "MiddlewareFunc lib ord g now now' now3 next r st =
     (case st of (rl, s) \<Rightarrow>
       case Allow lib ord (GetClientIP g r) now now' rl of
         (False, rl') \<Rightarrow> (too_many_requests (rl_limit rl') now3, rl', s)
       | (True, rl') \<Rightarrow>
           (case next r s of
              (w, s') \<Rightarrow> (add_header (''X-RateLimit-Limit'', fmt_d (rl_limit rl')) w, rl', s')))"

text \<open>The same for an \<open>http.Handler\<close>.\<close>

definition Middleware :: "'l rate_lib \<Rightarrow> map_order \<Rightarrow> 'a go_lib_scheme \<Rightarrow>
    time \<Rightarrow> time \<Rightarrow> time \<Rightarrow> (http_request \<Rightarrow> 's \<Rightarrow> http_response \<times> 's) \<Rightarrow>
    http_request \<Rightarrow> 'l rate_limiter \<times> 's \<Rightarrow> http_response \<times> 'l rate_limiter \<times> 's" where
  "Middleware lib ord g now now' now3 ServeHTTP r st =
     (case Allow lib ord (GetClientIP g r) now now' (fst st) of
        (allowed, rl) \<Rightarrow>
          if \<not> allowed then (too_many_requests (rl_limit rl) now3, rl, snd st)
          else (case ServeHTTP r (snd st) of
                  (w, s) \<Rightarrow> (add_header (''X-RateLimit-Limit'', fmt_d (rl_limit rl)) w, rl, s)))"

lemma Middleware_eq: "Middleware = MiddlewareFunc"
  by (intro ext) (auto simp: Middleware_def MiddlewareFunc_def split: prod.splits bool.splits)

lemmas rl_op_defs [model_defs] = rl_lookup_def rl_touch_def rl_bucket_def rl_delete_def
  evictOldest_def rl_create_def rl_slow_def Allow_def cleanup_tick_def

section \<open>The loops\<close>

lemma evict_scan_min:
  "\<exists>u. (evict_scan es i t False, u) \<in> set ((i, t) # es) \<and>
     (\<forall>e \<in> set ((i, t) # es). u \<le> snd e)"
proof (induction es arbitrary: i t)
  case (Cons e es)
  obtain j v where e: "e = (j, v)" by (cases e)
  show ?case
  proof (cases "v < t")
    case True
    obtain u where "(evict_scan es j v False, u) \<in> set ((j, v) # es)"
      and "\<forall>e \<in> set ((j, v) # es). u \<le> snd e"
      using Cons.IH by blast
    then show ?thesis using True e by (intro exI [of _ u]) auto
  next
    case False
    obtain u where "(evict_scan es i t False, u) \<in> set ((i, t) # es)"
      and "\<forall>e \<in> set ((i, t) # es). u \<le> snd e"
      using Cons.IH by blast
    then show ?thesis using False e by (intro exI [of _ u]) auto
  qed
qed simp

lemma evict_scan_first:
  assumes "es \<noteq> []"
  shows "\<exists>u. (evict_scan es i t True, u) \<in> set es \<and> (\<forall>e \<in> set es. u \<le> snd e)"
proof -
  obtain j v fs where "es = (j, v) # fs" using assms by (cases es) auto
  then show ?thesis using evict_scan_min [of fs j v] by simp
qed

lemma collect_stale_filter:
  "collect_stale now ttl es acc = acc @ map fst (filter (\<lambda>e. time_sub now (snd e) > ttl) es)"
proof (induction es arbitrary: acc)
  case (Cons e es)
  then show ?case by (cases e) simp
qed simp

lemma fold_rl_delete:
  "fold rl_delete ks rl =
     rl\<lparr>rl_limiters := fold AList.delete ks (rl_limiters rl),
        rl_lastSeen := fold AList.delete ks (rl_lastSeen rl)\<rparr>"
  by (induction ks arbitrary: rl) (simp_all add: rl_delete_def)

section \<open>What each section does to the maps\<close>

abbreviation known :: "'l rate_limiter \<Rightarrow> string set" where
  "known rl \<equiv> dom (map_of (rl_limiters rl))"

abbreviation seen :: "'l rate_limiter \<Rightarrow> string set" where
  "seen rl \<equiv> dom (map_of (rl_lastSeen rl))"

definition heap_ok :: "'l rate_limiter \<Rightarrow> bool" where
  "heap_ok rl \<longleftrightarrow> gm_ok (rl_limiters rl) \<and> gm_ok (rl_lastSeen rl) \<and>
     (\<forall>r \<in> ran (map_of (rl_limiters rl)). r < length (rl_heap rl)) \<and>
     inj_on (map_of (rl_limiters rl)) (known rl)"

definition rl_weak :: "'l rate_limiter \<Rightarrow> bool" where
  "rl_weak rl \<longleftrightarrow> heap_ok rl \<and> known rl \<subseteq> seen rl"

definition rl_ok :: "'l rate_limiter \<Rightarrow> bool" where
  "rl_ok rl \<longleftrightarrow> heap_ok rl \<and> known rl = seen rl"

lemma rl_ok_weak: "rl_ok rl \<Longrightarrow> rl_weak rl"
  by (simp add: rl_ok_def rl_weak_def)

lemma heap_ok_ref: "heap_ok rl \<Longrightarrow> map_of (rl_limiters rl) i = Some r \<Longrightarrow> r < length (rl_heap rl)"
  by (auto simp: heap_ok_def ran_def)

lemma rl_touch_sel [simp]:
  "rl_limiters (rl_touch i now rl) = rl_limiters rl" "rl_heap (rl_touch i now rl) = rl_heap rl"
  "rl_maxSize (rl_touch i now rl) = rl_maxSize rl" "rl_limit (rl_touch i now rl) = rl_limit rl"
  "rl_burst (rl_touch i now rl) = rl_burst rl" "rl_ttl (rl_touch i now rl) = rl_ttl rl"
  "map_of (rl_lastSeen (rl_touch i now rl)) = (map_of (rl_lastSeen rl))(i \<mapsto> now)"
  by (simp_all add: rl_touch_def gm.get_put)

lemma rl_bucket_sel [simp]:
  "rl_limiters (snd (rl_bucket lib now r rl)) = rl_limiters rl"
  "rl_lastSeen (snd (rl_bucket lib now r rl)) = rl_lastSeen rl"
  "rl_maxSize (snd (rl_bucket lib now r rl)) = rl_maxSize rl"
  "rl_limit (snd (rl_bucket lib now r rl)) = rl_limit rl"
  "rl_burst (snd (rl_bucket lib now r rl)) = rl_burst rl"
  "rl_ttl (snd (rl_bucket lib now r rl)) = rl_ttl rl"
  "rl_heap (snd (rl_bucket lib now r rl)) =
     (rl_heap rl)[r := snd (LimiterAllow lib now (rl_heap rl ! r))]"
  "fst (rl_bucket lib now r rl) = fst (LimiterAllow lib now (rl_heap rl ! r))"
  by (simp_all add: rl_bucket_def split: prod.splits)

lemma rl_delete_sel [simp]:
  "map_of (rl_limiters (rl_delete i rl)) = (map_of (rl_limiters rl))(i := None)"
  "map_of (rl_lastSeen (rl_delete i rl)) = (map_of (rl_lastSeen rl))(i := None)"
  "rl_heap (rl_delete i rl) = rl_heap rl" "rl_maxSize (rl_delete i rl) = rl_maxSize rl"
  "rl_limit (rl_delete i rl) = rl_limit rl" "rl_burst (rl_delete i rl) = rl_burst rl"
  "rl_ttl (rl_delete i rl) = rl_ttl rl"
  by (simp_all add: rl_delete_def gm.get_del)

lemma heap_ok_touch: "heap_ok rl \<Longrightarrow> heap_ok (rl_touch i now rl)"
  by (simp add: heap_ok_def) (simp add: rl_touch_def gm.ok_put)

lemma heap_ok_bucket: "heap_ok rl \<Longrightarrow> heap_ok (snd (rl_bucket lib now r rl))"
  by (simp add: heap_ok_def)

lemma heap_ok_delete: "heap_ok rl \<Longrightarrow> heap_ok (rl_delete i rl)"
  unfolding heap_ok_def rl_delete_sel
  by (auto simp: rl_delete_def gm.ok_del ran_def inj_on_def)

definition rl_insert :: "string \<Rightarrow> 'l \<Rightarrow> 'l rate_limiter \<Rightarrow> 'l rate_limiter" where
  "rl_insert i l rl =
     rl\<lparr>rl_heap := rl_heap rl @ [l],
        rl_limiters := AList.update i (length (rl_heap rl)) (rl_limiters rl)\<rparr>"

lemma rl_insert_sel [simp]:
  "map_of (rl_limiters (rl_insert i l rl)) = (map_of (rl_limiters rl))(i \<mapsto> length (rl_heap rl))"
  "rl_lastSeen (rl_insert i l rl) = rl_lastSeen rl" "rl_heap (rl_insert i l rl) = rl_heap rl @ [l]"
  "rl_maxSize (rl_insert i l rl) = rl_maxSize rl" "rl_limit (rl_insert i l rl) = rl_limit rl"
  "rl_burst (rl_insert i l rl) = rl_burst rl" "rl_ttl (rl_insert i l rl) = rl_ttl rl"
  by (simp_all add: rl_insert_def gm.get_put)

lemma heap_ok_insert:
  assumes "heap_ok rl" shows "heap_ok (rl_insert i l rl)"
proof -
  have "inj_on ((map_of (rl_limiters rl))(i \<mapsto> length (rl_heap rl))) (insert i (known rl))"
    using assms by (auto simp: heap_ok_def inj_on_def ran_def dest: less_not_refl2)
  then show ?thesis
    using assms unfolding heap_ok_def rl_insert_sel
    by (auto simp: rl_insert_def gm.ok_put less_Suc_eq ran_def split: if_splits)
qed

definition rl_evicted :: "map_order \<Rightarrow> 'l rate_limiter \<Rightarrow> 'l rate_limiter" where
  "rl_evicted ord rl =
     (if length (rl_limiters rl) \<ge> rl_maxSize rl then evictOldest ord rl else rl)"

lemma rl_create_insert:
  "rl_create lib ord i rl =
     (length (rl_heap (rl_evicted ord rl)),
      rl_insert i (NewLimiter lib (rl_limit rl) (rl_burst rl)) (rl_evicted ord rl))"
  by (simp add: rl_create_def rl_evicted_def rl_insert_def Let_def evictOldest_def rl_delete_def)

lemma evictOldest_cases:
  obtains "evictOldest ord rl = rl" | j where "evictOldest ord rl = rl_delete j rl"
proof (cases "evict_scan (ord (rl_lastSeen rl)) [] 0 True = []")
  case True
  then show thesis by (intro that(1)) (simp add: evictOldest_def Let_def)
next
  case False
  then show thesis by (intro that(2)) (simp add: evictOldest_def Let_def)
qed

lemma rl_evicted_sel [simp]:
  "rl_heap (rl_evicted ord rl) = rl_heap rl" "rl_maxSize (rl_evicted ord rl) = rl_maxSize rl"
  "rl_limit (rl_evicted ord rl) = rl_limit rl" "rl_burst (rl_evicted ord rl) = rl_burst rl"
  "rl_ttl (rl_evicted ord rl) = rl_ttl rl"
  by (simp_all add: rl_evicted_def evictOldest_def Let_def)

lemma heap_ok_evicted: "heap_ok rl \<Longrightarrow> heap_ok (rl_evicted ord rl)"
  by (cases rule: evictOldest_cases [of ord rl]) (simp_all add: rl_evicted_def heap_ok_delete)

lemma rl_weak_evicted: "rl_weak rl \<Longrightarrow> rl_weak (rl_evicted ord rl)"
  by (cases rule: evictOldest_cases [of ord rl])
    (auto simp: rl_evicted_def rl_weak_def heap_ok_delete)

lemma rl_ok_evicted: "rl_ok rl \<Longrightarrow> rl_ok (rl_evicted ord rl)"
  by (cases rule: evictOldest_cases [of ord rl])
    (auto simp: rl_evicted_def rl_ok_def heap_ok_delete)

text \<open>
  What a call of \<open>Allow\<close> amounts to: the limiter is prepared for the client (\<open>rl_prepare\<close>:
  found, or created after an eviction), the client is marked as seen, its bucket is asked.
\<close>

definition rl_prepare :: "'l rate_lib \<Rightarrow> map_order \<Rightarrow> string \<Rightarrow> 'l rate_limiter \<Rightarrow>
    nat \<times> 'l rate_limiter" where
  "rl_prepare lib ord i rl =
     (case rl_lookup i rl of Some r \<Rightarrow> (r, rl) | None \<Rightarrow> rl_create lib ord i rl)"

lemma rl_slow_prepare:
  "rl_slow lib ord i now now' rl =
     (case rl_prepare lib ord i rl of (r, rl') \<Rightarrow> rl_bucket lib now' r (rl_touch i now rl'))"
  by (simp add: rl_slow_def rl_prepare_def)

lemma Allow_slow: "Allow lib ord i now now' rl = rl_slow lib ord i now now' rl"
  by (simp add: Allow_def rl_slow_def split: option.splits)

lemma rl_prepare_known:
  "map_of (rl_limiters rl) i = Some r \<Longrightarrow> rl_prepare lib ord i rl = (r, rl)"
  by (simp add: rl_prepare_def rl_lookup_def)

lemma rl_prepare_new:
  "map_of (rl_limiters rl) i = None \<Longrightarrow>
     rl_prepare lib ord i rl =
       (length (rl_heap rl),
        rl_insert i (NewLimiter lib (rl_limit rl) (rl_burst rl)) (rl_evicted ord rl))"
  by (simp add: rl_prepare_def rl_lookup_def rl_create_insert)

lemma heap_ok_prepare:
  "heap_ok rl \<Longrightarrow> heap_ok (snd (rl_prepare lib ord i rl))"
  by (cases "map_of (rl_limiters rl) i")
    (simp_all add: rl_prepare_new rl_prepare_known heap_ok_insert heap_ok_evicted)

lemma rl_slow_weak:
  assumes "rl_weak rl" shows "rl_weak (snd (rl_slow lib ord i now now' rl))"
proof (cases "map_of (rl_limiters rl) i")
  case (Some r)
  then show ?thesis using assms
    by (auto simp: rl_slow_prepare rl_prepare_known rl_weak_def heap_ok_bucket heap_ok_touch)
next
  case None
  then show ?thesis using rl_weak_evicted [OF assms, of ord]
    by (auto simp: rl_slow_prepare rl_prepare_new rl_weak_def heap_ok_bucket heap_ok_touch
        heap_ok_insert)
qed

lemma rl_slow_ok:
  assumes "rl_ok rl" shows "rl_ok (snd (rl_slow lib ord i now now' rl))"
proof (cases "map_of (rl_limiters rl) i")
  case (Some r)
  then show ?thesis using assms
    by (auto simp: rl_slow_prepare rl_prepare_known rl_ok_def heap_ok_bucket heap_ok_touch
        insert_absorb)
next
  case None
  then show ?thesis using rl_ok_evicted [OF assms, of ord]
    by (simp add: rl_slow_prepare rl_prepare_new rl_ok_def heap_ok_bucket heap_ok_touch
        heap_ok_insert)
qed

lemma rl_delete_ok: "rl_ok rl \<Longrightarrow> rl_ok (rl_delete i rl)"
  by (auto simp: rl_ok_def heap_ok_delete)

lemma rl_delete_weak: "rl_weak rl \<Longrightarrow> rl_weak (rl_delete i rl)"
  by (auto simp: rl_weak_def heap_ok_delete)

lemma rl_fold_delete_ok: "rl_ok rl \<Longrightarrow> rl_ok (fold rl_delete ks rl)"
  by (induction ks arbitrary: rl) (simp_all add: rl_delete_ok)

lemma rl_fold_delete_weak: "rl_weak rl \<Longrightarrow> rl_weak (fold rl_delete ks rl)"
  by (induction ks arbitrary: rl) (simp_all add: rl_delete_weak)

lemma rl_size_delete: "heap_ok rl \<Longrightarrow> length (rl_limiters (fold rl_delete ks rl)) \<le> length (rl_limiters rl)"
  by (simp add: fold_rl_delete heap_ok_def gm.len_fold_del_le)

text \<open>What the scan finds, for any non-empty map and any iteration order: a least recently seen client.\<close>

lemma evict_scan_lru:
  assumes gok: "gm_ok m" and ord: "range_order ord" and ne: "m \<noteq> []"
  shows "\<exists>t. map_of m (evict_scan (ord m) [] 0 True) = Some t \<and>
    (\<forall>k u. map_of m k = Some u \<longrightarrow> t \<le> u)"
proof -
  note gm = gm_mem [of m, OF gok]
  have set: "set (ord m) = set m" by (rule set_range_order [OF ord])
  then have "ord m \<noteq> []" using ne by (metis set_empty)
  from evict_scan_first [OF this, of "[]" 0] obtain t where
    t: "(evict_scan (ord m) [] 0 True, t) \<in> set m" and min: "\<forall>e \<in> set m. t \<le> snd e"
    unfolding set by blast
  then show ?thesis using gm by (intro exI [of _ t]) fastforce
qed

text \<open>Eviction in the sequential invariant: the entry that goes is a least recently seen one.\<close>

lemma evictOldest_lru:
  assumes ok: "rl_ok rl" and ord: "range_order ord" and ne: "rl_limiters rl \<noteq> []"
    and no_empty: "[] \<notin> known rl"
  shows "\<exists>j. evictOldest ord rl = rl_delete j rl \<and> j \<in> known rl"
proof -
  let ?m = "rl_lastSeen rl" and ?j = "evict_scan (ord (rl_lastSeen rl)) [] 0 True"
  have gok: "gm_ok ?m" and dom: "known rl = seen rl" using ok by (auto simp: rl_ok_def heap_ok_def)
  have "known rl \<noteq> {}" using ne by (cases "rl_limiters rl") auto
  then have "?m \<noteq> []" using dom by auto
  then have "?j \<in> known rl" unfolding dom using evict_scan_lru [OF gok ord] by blast
  moreover from this have "?j \<noteq> []" using no_empty by metis
  ultimately show ?thesis by (intro exI [of _ ?j]) (simp add: evictOldest_def Let_def)
qed

lemma evictOldest_only:
  assumes "gm_ok (rl_lastSeen rl)" and "range_order ord" and "map_of (rl_lastSeen rl) j = Some t"
    and first: "\<And>k u. map_of (rl_lastSeen rl) k = Some u \<Longrightarrow> k \<noteq> j \<Longrightarrow> t < u"
  shows "evictOldest ord rl = (if j = [] then rl else rl_delete j rl)"
proof -
  let ?j = "evict_scan (ord (rl_lastSeen rl)) [] 0 True"
  have "rl_lastSeen rl \<noteq> []" using assms(3) by auto
  then obtain u where "map_of (rl_lastSeen rl) ?j = Some u" "u \<le> t"
    using evict_scan_lru [OF assms(1,2)] assms(3) by blast
  then have "?j = j" using first [of ?j u] by fastforce
  then show ?thesis by (simp add: evictOldest_def Let_def)
qed

lemma slow_adds:
  assumes new: "map_of (rl_limiters rl) i = None" and keep: "rl_evicted ord rl = rl"
    and ok: "heap_ok rl"
  shows "length (rl_limiters (snd (rl_slow lib ord i now now' rl))) = Suc (length (rl_limiters rl))"
    and "map_of (rl_lastSeen (snd (rl_slow lib ord i now now' rl))) = (map_of (rl_lastSeen rl))(i \<mapsto> now)"
    and "known (snd (rl_slow lib ord i now now' rl)) = insert i (known rl)"
    and "heap_ok (snd (rl_slow lib ord i now now' rl))"
proof -
  have g: "gm_ok (rl_limiters rl)" using ok by (simp add: heap_ok_def)
  have "i \<notin> known rl" using new by (simp add: domIff)
  then show "length (rl_limiters (snd (rl_slow lib ord i now now' rl))) = Suc (length (rl_limiters rl))"
    using new keep by (simp add: rl_slow_prepare rl_prepare_new) (simp add: rl_insert_def gm.len_put [OF g])
qed (use new keep ok in \<open>simp_all add: rl_slow_prepare rl_prepare_new heap_ok_bucket heap_ok_touch
  heap_ok_insert\<close>)

lemma rl_size_slow:
  assumes ok: "rl_ok rl" and ord: "range_order ord" and no_empty: "[] \<notin> known rl"
    and le: "length (rl_limiters rl) \<le> rl_maxSize rl" and pos: "0 < rl_maxSize rl"
  shows "length (rl_limiters (snd (rl_slow lib ord i now now' rl))) \<le> rl_maxSize rl"
proof (cases "map_of (rl_limiters rl) i")
  case (Some r)
  then show ?thesis using le by (simp add: rl_slow_prepare rl_prepare_known)
next
  case None
  have gok: "gm_ok (rl_limiters rl)" using ok by (simp add: rl_ok_def heap_ok_def)
  have "length (rl_limiters (rl_evicted ord rl)) < rl_maxSize rl"
  proof (cases "length (rl_limiters rl) \<ge> rl_maxSize rl")
    case True
    then have "rl_limiters rl \<noteq> []" using pos by auto
    from evictOldest_lru [OF ok ord this no_empty] obtain j where
      "evictOldest ord rl = rl_delete j rl" "j \<in> known rl" by blast
    then show ?thesis using True le pos gm.len_del [OF gok, of j]
      by (simp add: rl_evicted_def rl_delete_def)
  qed (simp add: rl_evicted_def)
  moreover have "gm_ok (rl_limiters (rl_evicted ord rl))"
    using rl_ok_evicted [OF ok] by (simp add: rl_ok_def heap_ok_def)
  ultimately show ?thesis using None
    by (simp add: rl_slow_prepare rl_prepare_new) (simp add: rl_insert_def gm.len_put)
qed

lemma known_slow: "known (snd (rl_slow lib ord i now now' rl)) \<subseteq> insert i (known rl)"
proof (cases "map_of (rl_limiters rl) i")
  case (Some r)
  then show ?thesis by (auto simp: rl_slow_prepare rl_prepare_known)
next
  case None
  then show ?thesis
    by (cases rule: evictOldest_cases [of ord rl])
      (auto simp: rl_slow_prepare rl_prepare_new rl_evicted_def split: if_splits)
qed

lemma maxSize_slow [simp]:
  "rl_maxSize (snd (rl_slow lib ord i now now' rl)) = rl_maxSize rl"
  by (cases "map_of (rl_limiters rl) i")
    (simp_all add: rl_slow_prepare rl_prepare_known rl_prepare_new)

section \<open>Sequences of calls\<close>

datatype rl_op = OpAllow string time time | OpTick time

fun rl_exec :: "'l rate_lib \<Rightarrow> map_order \<Rightarrow> rl_op \<Rightarrow> 'l rate_limiter \<Rightarrow> 'l rate_limiter" where
  "rl_exec lib ord (OpAllow i now now') rl = snd (Allow lib ord i now now' rl)"
| "rl_exec lib ord (OpTick now) rl = cleanup_tick ord now rl"

definition rl_bounded :: "'l rate_limiter \<Rightarrow> bool" where
  "rl_bounded rl \<longleftrightarrow> rl_ok rl \<and> [] \<notin> known rl \<and> length (rl_limiters rl) \<le> rl_maxSize rl \<and>
     0 < rl_maxSize rl"

lemma rl_bounded_new: "rl_bounded (NewRateLimiter cfg)"
  by (simp add: rl_bounded_def rl_ok_def heap_ok_def NewRateLimiter_def)

lemma maxSize_exec [simp]: "rl_maxSize (rl_exec lib ord opn rl) = rl_maxSize rl"
  by (cases opn) (simp_all add: Allow_slow cleanup_tick_def fold_rl_delete)

lemma rl_bounded_exec:
  assumes b: "rl_bounded rl" and ord: "range_order ord"
    and ne: "\<And>i t u. opn = OpAllow i t u \<Longrightarrow> i \<noteq> []"
  shows "rl_bounded (rl_exec lib ord opn rl)"
proof (cases opn)
  case (OpAllow i t u)
  then have "[] \<notin> known (snd (rl_slow lib ord i t u rl))"
    using known_slow [of lib ord i t u rl] ne b by (auto simp: rl_bounded_def)
  then show ?thesis
    using b OpAllow rl_size_slow [of rl ord lib i t u] ord
    by (simp add: rl_bounded_def Allow_slow rl_slow_ok)
next
  case (OpTick t)
  let ?ks = "collect_stale t (rl_ttl rl) (ord (rl_lastSeen rl)) []"
  have "known (fold rl_delete ?ks rl) \<subseteq> known rl"
    by (auto simp: fold_rl_delete gm.get_fold_del restrict_map_def split: if_splits)
  moreover have "rl_maxSize (fold rl_delete ?ks rl) = rl_maxSize rl"
    by (simp add: fold_rl_delete)
  ultimately show ?thesis
    using b OpTick rl_size_delete [of rl ?ks] rl_fold_delete_ok [of rl ?ks] rl_ok_weak [of rl]
    by (auto simp: rl_bounded_def cleanup_tick_def rl_weak_def)
qed

lemma rl_bounded_run:
  assumes "range_order ord" and "\<And>i t u. OpAllow i t u \<in> set ops \<Longrightarrow> i \<noteq> []"
  shows "rl_bounded rl \<Longrightarrow> rl_bounded (fold (rl_exec lib ord) ops rl)"
  using assms(2)
proof (induction ops arbitrary: rl)
  case (Cons opn ops)
  have "rl_bounded (rl_exec lib ord opn rl)"
    by (rule rl_bounded_exec [OF Cons.prems(1) assms(1)]) (use Cons.prems(2) in auto)
  moreover have "i \<noteq> []" if "OpAllow i t u \<in> set ops" for i t u
    by (rule Cons.prems(2) [of i t u]) (use that in simp)
  ultimately show ?case by (simp add: Cons.IH)
qed simp

lemma maxSize_run [simp]: "rl_maxSize (fold (rl_exec lib ord) ops rl) = rl_maxSize rl"
  by (induction ops arbitrary: rl) simp_all

section \<open>Concurrent calls\<close>

text \<open>
  A request in flight: it has found its limiter without the write lock (\<open>FastHit\<close>), has
  updated \<open>lastSeen\<close> and is about to ask the bucket (\<open>FastTouched\<close>), or has missed and waits
  for the write lock (\<open>SlowMiss\<close>).
\<close>

datatype rl_thread = FastHit string nat | FastTouched string nat | SlowMiss string

record 'l rl_sys =
  rs_rl :: "'l rate_limiter"
  rs_threads :: "rl_thread multiset"

definition rl_init :: "'l rl_sys \<Rightarrow> bool" where
  "rl_init s \<longleftrightarrow> (\<exists>cfg. s = \<lparr>rs_rl = NewRateLimiter cfg, rs_threads = {#}\<rparr>)"

inductive rl_step :: "'l rate_lib \<Rightarrow> 'l rl_sys \<Rightarrow> 'l rl_sys \<Rightarrow> bool" for lib where
  allow_hits:
  "rl_lookup i (rs_rl s) = Some r \<Longrightarrow>
   rl_step lib s (s\<lparr>rs_threads := add_mset (FastHit i r) (rs_threads s)\<rparr>)"
| allow_misses:
  "rl_lookup i (rs_rl s) = None \<Longrightarrow>
   rl_step lib s (s\<lparr>rs_threads := add_mset (SlowMiss i) (rs_threads s)\<rparr>)"
| fast_touches:
  "FastHit i r \<in># rs_threads s \<Longrightarrow>
   rl_step lib s (s\<lparr>rs_rl := rl_touch i now (rs_rl s),
     rs_threads := add_mset (FastTouched i r) (rs_threads s - {#FastHit i r#})\<rparr>)"
| fast_asks:
  "FastTouched i r \<in># rs_threads s \<Longrightarrow>
   rl_step lib s (s\<lparr>rs_rl := snd (rl_bucket lib now r (rs_rl s)),
     rs_threads := rs_threads s - {#FastTouched i r#}\<rparr>)"
| slow_runs:
  "SlowMiss i \<in># rs_threads s \<Longrightarrow> range_order ord \<Longrightarrow>
   rl_step lib s (s\<lparr>rs_rl := snd (rl_slow lib ord i now now' (rs_rl s)),
     rs_threads := rs_threads s - {#SlowMiss i#}\<rparr>)"
| cleanup_ticks:
  "range_order ord \<Longrightarrow> rl_step lib s (s\<lparr>rs_rl := cleanup_tick ord now (rs_rl s)\<rparr>)"

definition rl_conc_inv :: "'l rl_sys \<Rightarrow> bool" where
  "rl_conc_inv s \<longleftrightarrow> rl_weak (rs_rl s)"

lemma rl_conc_init: "rl_init s \<Longrightarrow> rl_conc_inv s"
  by (auto simp: rl_init_def rl_conc_inv_def rl_weak_def heap_ok_def NewRateLimiter_def)

lemma rl_conc_step:
  assumes inv: "rl_conc_inv s" and st: "rl_step lib s t"
  shows "rl_conc_inv t"
  using st
proof cases
  case (fast_touches i r now)
  then show ?thesis using inv by (auto simp: rl_conc_inv_def rl_weak_def heap_ok_touch)
next
  case (fast_asks i r now)
  then show ?thesis using inv by (simp add: rl_conc_inv_def rl_weak_def heap_ok_bucket)
qed (use inv in \<open>simp_all add: rl_conc_inv_def rl_slow_weak cleanup_tick_def rl_fold_delete_weak\<close>)

interpretation rl_system: inv_system rl_init "rl_step lib" rl_conc_inv
  by unfold_locales (auto intro: rl_conc_init rl_conc_step)

section \<open>Properties\<close>

text \<open>
  C14: the memory of the rate limiter is bounded as long as every client has a name. Whatever
  sequence of calls of \<open>Allow\<close> with non-empty identifiers and of cleanups it serves, one at a
  time, and in whatever order the runtime iterates over maps, there are never more than 10000
  clients in it, and both of its maps know exactly the same clients. The hypothesis is needed:
  \<open>evictOldest\<close> uses the empty identifier as its "none" value (\<open>empty_identifier_unbounded\<close>);
  the middleware fulfils it when the server gives requests an address with a host
  (\<open>GetClientIP_named\<close>).
\<close>

theorem limiter_bounded:
  assumes "range_order ord" and "\<And>i t u. OpAllow i t u \<in> set ops \<Longrightarrow> i \<noteq> []"
  shows "length (rl_limiters (fold (rl_exec lib ord) ops (NewRateLimiter cfg))) \<le> 10000 \<and>
    known (fold (rl_exec lib ord) ops (NewRateLimiter cfg)) =
    seen (fold (rl_exec lib ord) ops (NewRateLimiter cfg))"
  using rl_bounded_run [OF assms rl_bounded_new [of cfg], where lib = lib]
  by (simp add: rl_bounded_def rl_ok_def NewRateLimiter_def)

text \<open>A token bucket that counts: every limiter starts with its burst and never refills.\<close>

definition counting_lib :: "int rate_lib" where
  "counting_lib = \<lparr>NewLimiter = (\<lambda>limit burst. burst),
     LimiterAllow = (\<lambda>now n. if 0 < n then (True, n - 1) else (False, n))\<rparr>"

theorem limiter_bounded_witness:
  "length (rl_limiters (fold (rl_exec counting_lib rev)
     [OpAllow ''10.0.0.1'' 1 1, OpTick 2] (NewRateLimiter DefaultConfig))) \<le> 10000"
  using limiter_bounded [OF range_order_rev, of "[OpAllow ''10.0.0.1'' 1 1, OpTick 2]"
      counting_lib DefaultConfig] by auto

text \<open>The client with the empty name, once it is the oldest, protects everybody from eviction.\<close>

definition empty_is_oldest :: "time \<Rightarrow> 'l rate_limiter \<Rightarrow> bool" where
  "empty_is_oldest t rl \<longleftrightarrow> heap_ok rl \<and> map_of (rl_lastSeen rl) [] = Some t \<and>
     (\<forall>k u. map_of (rl_lastSeen rl) k = Some u \<longrightarrow> k \<noteq> [] \<longrightarrow> t < u)"

lemma empty_is_oldest_adds:
  assumes "range_order ord" and "t < u"
  shows "empty_is_oldest t rl \<Longrightarrow> distinct ids \<Longrightarrow> [] \<notin> set ids \<Longrightarrow> set ids \<inter> known rl = {} \<Longrightarrow>
    length (rl_limiters (fold (rl_exec lib ord) (map (\<lambda>i. OpAllow i u u) ids) rl)) =
      length ids + length (rl_limiters rl)"
proof (induction ids arbitrary: rl)
  case (Cons i ids)
  let ?rl = "snd (rl_slow lib ord i u u rl)"
  have "evictOldest ord rl = rl"
    using evictOldest_only [of rl ord "[]" t] Cons.prems(1) assms(1)
    by (simp add: empty_is_oldest_def heap_ok_def)
  then have keep: "rl_evicted ord rl = rl" by (simp add: rl_evicted_def)
  have new: "map_of (rl_limiters rl) i = None" using Cons.prems(4) by auto
  have ok: "heap_ok rl" using Cons.prems(1) by (simp add: empty_is_oldest_def)
  note adds = slow_adds [OF new keep ok, of lib u u]
  have e: "empty_is_oldest t ?rl" using Cons.prems(1,3) assms(2)
    unfolding empty_is_oldest_def adds(2) by (auto simp: adds(4))
  have "set ids \<inter> known ?rl = {}" using Cons.prems(2,4) unfolding adds(3) by auto
  then show ?case using Cons.IH [OF e] Cons.prems by (simp add: Allow_slow adds(1))
qed simp

text \<open>
  The bound of the limiter needs clients with names. Once a request with the empty
  identifier has been seen, and as long as it is the oldest entry, \<open>evictOldest\<close> takes its
  name for "nothing found" and evicts nobody: any number of new clients, however far above
  10000, all stay in the maps.
\<close>

theorem empty_identifier_unbounded:
  assumes ord: "range_order ord" and "t < u" and "distinct ids" and "[] \<notin> set ids"
  shows "length (rl_limiters (fold (rl_exec lib ord)
     (OpAllow [] t t # map (\<lambda>i. OpAllow i u u) ids) (NewRateLimiter cfg))) = Suc (length ids)"
proof -
  let ?new = "NewRateLimiter cfg" and ?rl = "snd (rl_slow lib ord [] t t (NewRateLimiter cfg))"
  have new: "map_of (rl_limiters ?new) [] = None" and keep: "rl_evicted ord ?new = ?new"
    and ok: "heap_ok ?new"
    using rl_bounded_new [of cfg]
    by (simp_all add: NewRateLimiter_def rl_evicted_def rl_bounded_def rl_ok_def)
  note adds = slow_adds [OF new keep ok, of lib t t]
  have "empty_is_oldest t ?rl"
    unfolding empty_is_oldest_def adds(2) using adds(4) by (auto simp: NewRateLimiter_def)
  moreover have "set ids \<inter> known ?rl = {}"
    unfolding adds(3) using assms(4) by (auto simp: NewRateLimiter_def)
  ultimately show ?thesis
    using empty_is_oldest_adds [OF ord \<open>t < u\<close>, of ?rl ids lib] assms(3,4)
    by (simp add: Allow_slow adds(1)) (simp add: NewRateLimiter_def)
qed

definition client_name :: "nat \<Rightarrow> string" where
  "client_name n = CHR ''c'' # replicate n CHR ''x''"

lemma client_name_inj: "inj_on client_name S"
  by (rule inj_onI) (simp add: client_name_def replicate_eq_replicate)

lemma client_names: "distinct (map client_name [0..<n])" "[] \<notin> set (map client_name [0..<n])"
  "''a'' \<notin> set (map client_name [0..<n])"
  by (auto simp: distinct_map client_name_inj) (auto simp: client_name_def)

theorem empty_identifier_unbounded_witness:
  "length (rl_limiters (fold (rl_exec counting_lib rev)
     (OpAllow [] 0 0 # map (\<lambda>i. OpAllow i 1 1) (map client_name [0..<12000]))
     (NewRateLimiter DefaultConfig))) = 12001"
  using empty_identifier_unbounded [OF range_order_rev _ client_names(1,2), of 0 1 counting_lib 12000 DefaultConfig]
  by simp

lemma reach_slow:
  assumes "reach rl_init (rl_step lib) s" and "rl_lookup i (rs_rl s) = None" and "range_order ord"
  shows "reach rl_init (rl_step lib) (s\<lparr>rs_threads := add_mset (SlowMiss i) (rs_threads s)\<rparr>)"
    and "rl_step lib (s\<lparr>rs_threads := add_mset (SlowMiss i) (rs_threads s)\<rparr>)
      (s\<lparr>rs_rl := snd (rl_slow lib ord i now now' (rs_rl s))\<rparr>)"
proof -
  let ?s = "s\<lparr>rs_threads := add_mset (SlowMiss i) (rs_threads s)\<rparr>"
  show "reach rl_init (rl_step lib) ?s"
    using assms(1) allow_misses [OF assms(2)] by (rule reach_step)
  show "rl_step lib ?s (s\<lparr>rs_rl := snd (rl_slow lib ord i now now' (rs_rl s))\<rparr>)"
    using slow_runs [of i ?s ord lib now now'] assms(3) by simp
qed

text \<open>
  C24: eviction is LRU. In every state that requests and cleanups, interleaved however, bring
  the limiter to, and in whatever order the runtime iterates, \<open>evictOldest\<close> on a limiter that
  has seen anybody picks a client that nobody was seen before. It removes that client from
  both maps and touches nothing else of them, the buckets of the others included; except that,
  when the client picked is the one with the empty identifier, it removes nobody.
\<close>

theorem eviction_is_lru:
  assumes reach: "reach rl_init (rl_step lib) s" and ord: "range_order ord"
    and some: "rl_lastSeen (rs_rl s) \<noteq> []"
  shows "\<exists>j t. map_of (rl_lastSeen (rs_rl s)) j = Some t \<and>
    (\<forall>u \<in> ran (map_of (rl_lastSeen (rs_rl s))). t \<le> u) \<and>
    (if j = [] then evictOldest ord (rs_rl s) = rs_rl s
     else map_of (rl_limiters (evictOldest ord (rs_rl s))) = (map_of (rl_limiters (rs_rl s)))(j := None) \<and>
       map_of (rl_lastSeen (evictOldest ord (rs_rl s))) = (map_of (rl_lastSeen (rs_rl s)))(j := None) \<and>
       rl_heap (evictOldest ord (rs_rl s)) = rl_heap (rs_rl s))"
proof -
  let ?m = "rl_lastSeen (rs_rl s)" and ?j = "evict_scan (ord (rl_lastSeen (rs_rl s))) [] 0 True"
  have "gm_ok ?m"
    using rl_system.inv_reach [OF reach] by (simp add: rl_conc_inv_def rl_weak_def heap_ok_def)
  from evict_scan_lru [OF this ord some] obtain t where
    "map_of ?m ?j = Some t" and "\<forall>k u. map_of ?m k = Some u \<longrightarrow> t \<le> u" by blast
  then show ?thesis
    by (intro exI [of _ ?j] exI [of _ t]) (auto simp: ran_def evictOldest_def Let_def)
qed

definition two_clients :: "int rate_limiter" where
  "two_clients = fold (rl_exec counting_lib rev)
     [OpAllow ''a'' 5 5, OpAllow ''b'' 3 3] (NewRateLimiter DefaultConfig)"

lemma two_clients_bounded: "rl_bounded two_clients"
  unfolding two_clients_def by (rule rl_bounded_run [OF range_order_rev _ rl_bounded_new]) auto

lemma two_clients_eval:
  "rl_limiters two_clients = [(''a'', 0), (''b'', 1)]"
  "rl_lastSeen two_clients = [(''a'', 5), (''b'', 3)]" "rl_heap two_clients = [19, 19]"
  "rl_maxSize two_clients = 10000"
  by (simp_all add: two_clients_def Allow_slow rl_slow_def rl_lookup_def rl_create_def rl_touch_def
      rl_bucket_def counting_lib_def NewRateLimiter_def DefaultConfig_def Let_def)

definition two_clients_sys :: "int rl_sys" where
  "two_clients_sys = \<lparr>rs_rl = two_clients, rs_threads = {#}\<rparr>"

definition one_client :: "int rate_limiter" where
  "one_client = snd (rl_slow counting_lib rev ''a'' 5 5 (NewRateLimiter DefaultConfig))"

lemma one_client_knows: "rl_lookup ''b'' one_client = None"
  by (simp add: one_client_def rl_lookup_def rl_slow_prepare rl_prepare_new NewRateLimiter_def
      rl_evicted_def)

lemma two_clients_slow: "two_clients = snd (rl_slow counting_lib rev ''b'' 3 3 one_client)"
  by (simp only: two_clients_def one_client_def Allow_slow rl_exec.simps fold_simps)

lemma reach_slow_alone:
  assumes r: "reach rl_init (rl_step lib) \<lparr>rs_rl = rl, rs_threads = {#}\<rparr>"
    and "rl_lookup i rl = None" and ord: "range_order ord"
  shows "reach rl_init (rl_step lib)
    \<lparr>rs_rl = snd (rl_slow lib ord i now now' rl), rs_threads = {#}\<rparr>"
proof -
  have "rl_lookup i (rs_rl \<lparr>rs_rl = rl, rs_threads = {#}\<rparr>) = None" using assms(2) by simp
  from reach_step [OF reach_slow(1) [OF r this ord]
      reach_slow(2) [OF r this ord, where now = now and now' = now']]
  show ?thesis by simp
qed

lemma reach_two_clients: "reach rl_init (rl_step counting_lib) two_clients_sys"
  unfolding two_clients_sys_def two_clients_slow
proof (rule reach_slow_alone [OF _ one_client_knows range_order_rev])
  show "reach rl_init (rl_step counting_lib) \<lparr>rs_rl = one_client, rs_threads = {#}\<rparr>"
    unfolding one_client_def
  proof (rule reach_slow_alone [OF reach_init _ range_order_rev])
    show "rl_init \<lparr>rs_rl = NewRateLimiter DefaultConfig :: int rate_limiter, rs_threads = {#}\<rparr>"
      by (auto simp: rl_init_def)
    show "rl_lookup ''a'' (NewRateLimiter DefaultConfig) = None"
      by (simp add: rl_lookup_def NewRateLimiter_def)
  qed
qed

theorem eviction_is_lru_witness:
  "\<exists>j t. map_of (rl_lastSeen two_clients) j = Some t \<and>
     (\<forall>u \<in> ran (map_of (rl_lastSeen two_clients)). t \<le> u) \<and>
     evictOldest rev two_clients = rl_delete ''b'' two_clients"
proof -
  have "rl_lastSeen (rs_rl two_clients_sys) \<noteq> []"
    by (simp add: two_clients_sys_def two_clients_eval)
  from eviction_is_lru [OF reach_two_clients range_order_rev this] obtain j t where
    "map_of (rl_lastSeen two_clients) j = Some t"
    "\<forall>u \<in> ran (map_of (rl_lastSeen two_clients)). t \<le> u"
    by (auto simp: two_clients_sys_def)
  moreover have "evictOldest rev two_clients = rl_delete ''b'' two_clients"
    by (simp add: evictOldest_def two_clients_eval)
  ultimately show ?thesis by blast
qed

text \<open>
  Clients do not share buckets. Below the size limit, a request of one client leaves the
  limiter of every other known client, its tokens included, as it was.
\<close>

theorem clients_isolated:
  assumes ok: "rl_ok rl" and ji: "j \<noteq> i" and j: "map_of (rl_limiters rl) j = Some r"
    and room: "length (rl_limiters rl) < rl_maxSize rl"
  shows "map_of (rl_limiters (snd (Allow lib ord i now now' rl))) j = Some r \<and>
    rl_heap (snd (Allow lib ord i now now' rl)) ! r = rl_heap rl ! r"
proof (cases "map_of (rl_limiters rl) i")
  case (Some q)
  then have "q \<noteq> r" using ok j ji by (metis domI heap_ok_def inj_onD rl_ok_def)
  then show ?thesis using Some j by (simp add: Allow_slow rl_slow_prepare rl_prepare_known)
next
  case None
  have "rl_evicted ord rl = rl" using room by (simp add: rl_evicted_def)
  moreover have "r < length (rl_heap rl)"
    using heap_ok_ref j ok by (auto simp: rl_ok_def)
  ultimately show ?thesis using None j ji
    by (simp add: Allow_slow rl_slow_prepare rl_prepare_new nth_append)
qed

theorem clients_isolated_witness:
  "rl_heap (snd (Allow counting_lib rev ''b'' 9 9 two_clients)) ! 0 = rl_heap two_clients ! 0"
  using clients_isolated [of two_clients "''a''" "''b''" 0 counting_lib rev 9 9] two_clients_bounded
  by (simp add: rl_bounded_def two_clients_eval)

text \<open>
  A cleanup tick forgets exactly the clients that were last seen more than the TTL ago,
  and keeps the limiters of all others.
\<close>

theorem cleanup_exact:
  assumes ok: "rl_ok rl" and ord: "range_order ord"
  shows "map_of (rl_limiters (cleanup_tick ord now rl)) =
    map_of (rl_limiters rl) |` {i. \<exists>t. map_of (rl_lastSeen rl) i = Some t \<and> time_sub now t \<le> rl_ttl rl}"
proof -
  let ?es = "filter (\<lambda>e. time_sub now (snd e) > rl_ttl rl) (ord (rl_lastSeen rl))"
  have gok: "gm_ok (rl_lastSeen rl)" and dom: "known rl = seen rl"
    using ok by (auto simp: rl_ok_def heap_ok_def)
  have stale: "i \<in> set (map fst ?es) \<longleftrightarrow>
      (\<exists>t. map_of (rl_lastSeen rl) i = Some t \<and> time_sub now t > rl_ttl rl)" for i
    using gm_mem [OF gok] set_range_order [OF ord] by (force simp: image_iff)
  have "map_of (rl_limiters rl) |` (- set (map fst ?es)) =
      map_of (rl_limiters rl) |` {i. \<exists>t. map_of (rl_lastSeen rl) i = Some t \<and> time_sub now t \<le> rl_ttl rl}"
    using dom by (intro ext) (auto simp: restrict_map_def stale domIff simp del: set_map; fastforce)
  then show ?thesis
    by (simp add: cleanup_tick_def fold_rl_delete gm.get_fold_del collect_stale_filter)
qed

theorem cleanup_exact_witness:
  "map_of (rl_limiters (cleanup_tick rev (15 * minute + 4) two_clients)) = [''a'' \<mapsto> 0]"
proof -
  have "rl_ttl two_clients = 15 * minute"
    by (simp add: two_clients_def Allow_slow rl_slow_def rl_lookup_def rl_create_def rl_touch_def
      rl_bucket_def counting_lib_def NewRateLimiter_def DefaultConfig_def Let_def)
  then show ?thesis
    using cleanup_exact [OF _ range_order_rev, of two_clients "15 * minute + 4"] two_clients_bounded
    by (auto simp: rl_bounded_def two_clients_eval restrict_map_def fun_eq_iff time_sub_def
        min_duration_def max_duration_def)
qed

text \<open>
  No interleaving of requests and cleanups leaks a limiter. In every reachable state each
  client that has a limiter also has a last-seen time, so the cleanup will find it, and no
  two clients share a limiter.
\<close>

theorem no_leak_concurrent:
  assumes "reach rl_init (rl_step lib) s"
  shows "known (rs_rl s) \<subseteq> seen (rs_rl s) \<and> inj_on (map_of (rl_limiters (rs_rl s))) (known (rs_rl s))"
  using rl_system.inv_reach [OF assms]
  by (simp add: rl_conc_inv_def rl_weak_def heap_ok_def)

text \<open>
  A client that was removed by a cleanup between the two critical sections of the fast path:
  seen at time 0, its request finds the limiter, the cleanup runs at hour 1, the request
  touches \<open>lastSeen\<close>.
\<close>

definition orphan_states :: "int rl_sys list" where
  "orphan_states =
    (let new = NewRateLimiter DefaultConfig;
         one = new\<lparr>rl_limiters := [(''a'', 0)], rl_heap := [19], rl_lastSeen := [(''a'', 0)]\<rparr>;
         gone = new\<lparr>rl_heap := [19]\<rparr>
     in [\<lparr>rs_rl = new, rs_threads = {#}\<rparr>,
         \<lparr>rs_rl = new, rs_threads = {#SlowMiss ''a''#}\<rparr>,
         \<lparr>rs_rl = one, rs_threads = {#}\<rparr>,
         \<lparr>rs_rl = one, rs_threads = {#FastHit ''a'' 0#}\<rparr>,
         \<lparr>rs_rl = gone, rs_threads = {#FastHit ''a'' 0#}\<rparr>,
         \<lparr>rs_rl = rl_touch ''a'' hour gone, rs_threads = {#FastTouched ''a'' 0#}\<rparr>])"

definition orphan_state :: "int rl_sys" where
  "orphan_state = last orphan_states"

lemma orphan_slow:
  "snd (rl_slow counting_lib rev ''a'' 0 0 (NewRateLimiter DefaultConfig)) =
     (NewRateLimiter DefaultConfig)\<lparr>rl_limiters := [(''a'', 0)], rl_heap := [19],
       rl_lastSeen := [(''a'', 0)]\<rparr>"
  by (simp add: rl_slow_def rl_lookup_def rl_create_def rl_touch_def rl_bucket_def
      counting_lib_def NewRateLimiter_def DefaultConfig_def Let_def)

lemma orphan_tick:
  "cleanup_tick rev hour ((NewRateLimiter DefaultConfig)\<lparr>rl_limiters := [(''a'', 0)],
       rl_heap := [19], rl_lastSeen := [(''a'', 0)]\<rparr>) =
     (NewRateLimiter DefaultConfig)\<lparr>rl_heap := [19]\<rparr>"
  by (simp add: cleanup_tick_def rl_delete_def NewRateLimiter_def DefaultConfig_def time_sub_def
      min_duration_def max_duration_def)

lemma reach_orphan: "reach rl_init (rl_step counting_lib) orphan_state"
proof -
  let ?R = "reach rl_init (rl_step counting_lib)"
  let ?S = "\<lambda>n. orphan_states ! n"
  have "?R (?S 0)"
    by (rule reach_init) (auto simp: rl_init_def orphan_states_def Let_def)
  moreover have "rl_step counting_lib (?S 0) (?S 1)"
    using allow_misses [of "''a''" "?S 0" counting_lib]
    by (simp add: orphan_states_def Let_def rl_lookup_def NewRateLimiter_def)
  moreover have "rl_step counting_lib (?S 1) (?S 2)"
    using slow_runs [of "''a''" "?S 1" rev counting_lib 0 0]
    by (simp add: orphan_states_def Let_def range_order_rev orphan_slow)
  moreover have "rl_step counting_lib (?S 2) (?S 3)"
    using allow_hits [of "''a''" "?S 2" 0 counting_lib]
    by (simp add: orphan_states_def Let_def rl_lookup_def)
  moreover have "rl_step counting_lib (?S 3) (?S 4)"
    using cleanup_ticks [OF range_order_rev, of counting_lib "?S 3" hour]
    by (simp add: orphan_states_def Let_def orphan_tick [simplified])
  moreover have "rl_step counting_lib (?S 4) (?S 5)"
    using fast_touches [of "''a''" 0 "?S 4" counting_lib hour]
    by (simp add: orphan_states_def Let_def)
  ultimately have "?R (?S 5)" by (meson reach_step)
  then show ?thesis by (simp add: orphan_state_def orphan_states_def Let_def)
qed

lemma orphan_state_maps:
  "rl_limiters (rs_rl orphan_state) = []" "seen (rs_rl orphan_state) = {''a''}"
  by (simp_all add: orphan_state_def orphan_states_def NewRateLimiter_def rl_touch_def Let_def)

theorem no_leak_concurrent_witness:
  "known (rs_rl orphan_state) \<subseteq> seen (rs_rl orphan_state) \<and> seen (rs_rl orphan_state) = {''a''}"
  using no_leak_concurrent [OF reach_orphan] by (simp add: orphan_state_maps)

definition orphan_runs :: "nat \<Rightarrow> int rl_sys" where
  "orphan_runs n = orphan_state\<lparr>rs_rl := fold (\<lambda>i rl. snd (rl_slow counting_lib rev i (2 * hour) (2 * hour) rl))
     (map client_name [0..<n]) (rs_rl orphan_state)\<rparr>"

lemma orphan_runs_Suc:
  "orphan_runs (Suc n) = (orphan_runs n)\<lparr>rs_rl := snd (rl_slow counting_lib rev (client_name n)
     (2 * hour) (2 * hour) (rs_rl (orphan_runs n)))\<rparr>"
  by (simp add: orphan_runs_def)

lemma client_name_eq [simp]: "client_name m = client_name n \<longleftrightarrow> m = n" "client_name n \<noteq> ''a''"
  "''a'' \<noteq> client_name n"
  by (auto simp: client_name_def replicate_eq_replicate)

definition orphan_oldest :: "time \<Rightarrow> nat \<Rightarrow> int rate_limiter \<Rightarrow> bool" where
  "orphan_oldest u n rl \<longleftrightarrow> heap_ok rl \<and> rl_maxSize rl = 10000 \<and> length (rl_limiters rl) = n \<and>
     known rl = client_name ` {0..<n} \<and>
     map_of (rl_lastSeen rl) = (\<lambda>k. if k \<in> client_name ` {0..<n} then Some u
       else if k = ''a'' then Some hour else None)"

lemma orphan_new:
  assumes "orphan_oldest u n rl" shows "map_of (rl_limiters rl) (client_name n) = None"
proof -
  have "client_name n \<notin> known rl" using assms unfolding orphan_oldest_def by auto
  then show ?thesis by (simp add: domIff)
qed

lemma orphan_oldest_slow:
  assumes o: "orphan_oldest u n rl" and "n < 10000"
  shows "orphan_oldest u (Suc n) (snd (rl_slow counting_lib rev (client_name n) u u rl))"
proof -
  have keep: "rl_evicted rev rl = rl" and ok: "heap_ok rl"
    using assms by (simp_all add: orphan_oldest_def rl_evicted_def)
  note adds = slow_adds [OF orphan_new [OF o] keep ok, of counting_lib u u]
  show ?thesis
    unfolding orphan_oldest_def adds(1,2,3)
    using o adds(4) by (simp add: orphan_oldest_def atLeast0_lessThan_Suc fun_eq_iff)
qed

lemma orphan_runs_oldest: "n \<le> 10000 \<Longrightarrow> orphan_oldest (2 * hour) n (rs_rl (orphan_runs n))"
proof (induction n)
  case 0
  have "heap_ok (rs_rl orphan_state)"
    using rl_system.inv_reach [OF reach_orphan] by (simp add: rl_conc_inv_def rl_weak_def)
  then show ?case
    by (auto simp: orphan_oldest_def orphan_runs_def orphan_state_def orphan_states_def
        NewRateLimiter_def rl_touch_def Let_def)
next
  case (Suc n)
  have "orphan_oldest (2 * hour) n (rs_rl (orphan_runs n))" using Suc by simp
  from orphan_oldest_slow [OF this] Suc.prems show ?case
    unfolding orphan_runs_Suc by (simp del: mult_numeral_1)
qed

lemma reach_orphan_runs: "n \<le> 10000 \<Longrightarrow> reach rl_init (rl_step counting_lib) (orphan_runs n)"
proof (induction n)
  case 0
  then show ?case using reach_orphan by (simp add: orphan_runs_def)
next
  case (Suc n)
  have "rl_lookup (client_name n) (rs_rl (orphan_runs n)) = None"
    using orphan_new [OF orphan_runs_oldest [of n]] Suc.prems by (simp add: rl_lookup_def)
  from reach_slow [OF _ this range_order_rev] Suc show ?case
    unfolding orphan_runs_Suc by (meson Suc_leD reach_step)
qed

text \<open>
  C40: under interleaving the bound does not hold. A cleanup between the lookup and the touch
  of the fast path leaves an orphan, a client that is in \<open>lastSeen\<close> and has no limiter any
  more. Reachable from it is a state with 10000 limiters in which the orphan is the oldest
  entry: the next new client makes \<open>evictOldest\<close> remove the orphan, which frees no limiter,
  and the number of limiters becomes 10001, above \<open>maxSize\<close>.
\<close>

theorem orphan_reachable_and_breaks_bound:
  "\<exists>s t :: int rl_sys. reach rl_init (rl_step counting_lib) s \<and>
     seen (rs_rl s) - known (rs_rl s) = {''a''} \<and> length (rl_limiters (rs_rl s)) = 10000 \<and>
     rl_step counting_lib s t \<and> seen (rs_rl t) = known (rs_rl t) \<and>
     length (rl_limiters (rs_rl t)) = 10001 \<and> rl_maxSize (rs_rl t) = 10000"
proof -
  let ?i = "client_name 10000" and ?s = "orphan_runs 10000"
  let ?rl = "rs_rl ?s"
  let ?t = "?s\<lparr>rs_rl := snd (rl_slow counting_lib rev ?i (2 * hour) (2 * hour) ?rl)\<rparr>"
  let ?s' = "?s\<lparr>rs_threads := add_mset (SlowMiss ?i) (rs_threads ?s)\<rparr>"
  have o: "orphan_oldest (2 * hour) 10000 ?rl" by (rule orphan_runs_oldest) simp
  have new: "map_of (rl_limiters ?rl) ?i = None"
    by (rule orphan_new [OF o])
  then have "rl_lookup ?i ?rl = None" by (simp add: rl_lookup_def)
  note st = reach_slow(1) [OF reach_orphan_runs [OF order_refl] this range_order_rev]
    reach_slow(2) [OF reach_orphan_runs [OF order_refl] this range_order_rev, of "2 * hour" "2 * hour"]
  have evict: "rl_evicted rev ?rl = rl_delete ''a'' ?rl"
  proof -
    have "evictOldest rev ?rl = (if ''a'' = [] then ?rl else rl_delete ''a'' ?rl)"
      by (rule evictOldest_only [where t = hour]; use o in \<open>auto simp: orphan_oldest_def heap_ok_def range_order_rev split: if_splits\<close>)
    then show ?thesis using o by (simp add: rl_evicted_def orphan_oldest_def)
  qed
  have len: "length (rl_limiters (rl_delete ''a'' ?rl)) = 10000"
  proof -
    have "''a'' \<notin> known ?rl" using o unfolding orphan_oldest_def by auto
    then show ?thesis using o gm.len_del [of "rl_limiters ?rl" "''a''"]
      unfolding orphan_oldest_def heap_ok_def by (simp add: rl_delete_def)
  qed
  have ok: "heap_ok (rl_delete ''a'' ?rl)" using o by (simp add: orphan_oldest_def heap_ok_delete)
  show ?thesis
  proof (intro exI conjI)
    show "reach rl_init (rl_step counting_lib) ?s'" "rl_step counting_lib ?s' ?t" by (rule st)+
    show "seen (rs_rl ?s') - known (rs_rl ?s') = {''a''}" "length (rl_limiters (rs_rl ?s')) = 10000"
      using o by (auto simp: orphan_oldest_def split: if_splits)
    show "rl_maxSize (rs_rl ?t) = 10000" using o by (simp add: orphan_oldest_def)
    show "length (rl_limiters (rs_rl ?t)) = 10001" 
      using new len ok
      by (simp add: rl_slow_prepare rl_prepare_new evict rl_insert_def gm.len_put heap_ok_def domIff)
    show "seen (rs_rl ?t) = known (rs_rl ?t)"
      using new o by (auto simp: rl_slow_prepare rl_prepare_new evict orphan_oldest_def split: if_splits)
  qed
qed

text \<open>
  The middleware is a gate. A request whose client's bucket is empty gets status 429 with
  a retry time and the next handler is not run at all; any other request is answered by the
  next handler, with one header more. In both cases the limiter is updated once.
\<close>

theorem middleware_gate:
  "MiddlewareFunc lib ord g now now' now3 next r (rl, s) =
     (let (ok, rl') = Allow lib ord (GetClientIP g r) now now' rl;
          (w, s') = next r s;
          limit = (''X-RateLimit-Limit'', fmt_d (rl_limit rl))
      in if ok then (add_header limit w, rl', s')
         else (too_many_requests (rl_limit rl) now3, rl', s)) \<and>
   w_Status (too_many_requests (rl_limit rl) now3) = 429"
proof -
  have "rl_limit (snd (Allow lib ord i now now' rl)) = rl_limit rl" for i
    by (cases "map_of (rl_limiters rl) i")
      (simp_all add: Allow_slow rl_slow_prepare rl_prepare_known rl_prepare_new)
  from this [of "GetClientIP g r"] show ?thesis
    by (auto simp: MiddlewareFunc_def too_many_requests_def add_header_def
        split: prod.splits bool.splits)
qed

fun serve_all :: "'l rate_lib \<Rightarrow> map_order \<Rightarrow> 'a go_lib_scheme \<Rightarrow> http_request list \<Rightarrow>
    'l rate_limiter \<Rightarrow> bool list" where
  "serve_all lib ord g [] rl = []"
| "serve_all lib ord g (r # rs) rl =
     (case Allow lib ord (GetClientIP g r) 0 0 rl of (b, rl') \<Rightarrow> b # serve_all lib ord g rs rl')"

definition forwarded_as :: "'a go_lib_scheme \<Rightarrow> string \<Rightarrow> http_request \<Rightarrow> bool" where
  "forwarded_as g ip r \<longleftrightarrow> r_Header r ''X-Forwarded-For'' = ip \<and> ip \<noteq> [] \<and> CHR '','' \<notin> set ip \<and>
     TrimSpace g ip = ip \<and> parse_ip g ip"

lemma takeWhile_absent: "c \<notin> set s \<Longrightarrow> takeWhile (\<lambda>x. x \<noteq> c) s = s"
  by (induction s) auto

lemma forwarded_as_IP: "forwarded_as g ip r \<Longrightarrow> GetClientIP g r = ip"
  by (simp add: forwarded_as_def GetClientIP_def hd_str_split Let_def takeWhile_absent)

lemma new_client_allowed:
  assumes "fst (LimiterAllow lib now' (NewLimiter lib (rl_limit rl) (rl_burst rl)))"
    and "map_of (rl_limiters rl) i = None"
  shows "fst (Allow lib ord i now now' rl)"
  using assms by (simp add: Allow_slow rl_slow_prepare rl_prepare_new)

lemma Allow_limits:
  "rl_limit (snd (Allow lib ord i now now' rl)) = rl_limit rl"
  "rl_burst (snd (Allow lib ord i now now' rl)) = rl_burst rl"
  by (cases "map_of (rl_limiters rl) i";
      simp add: Allow_slow rl_slow_prepare rl_prepare_known rl_prepare_new)+

text \<open>
  Behind no proxy the limiter does not limit. A client that sends a different valid
  address in \<open>X-Forwarded-For\<close> with each request is let through every time, from whatever
  address it really connects, because each address gets a new bucket. Assumed of the token
  bucket is that a new one allows its first event.
\<close>

theorem spoofed_addresses_allowed:
  assumes new: "\<And>t. fst (LimiterAllow lib t (NewLimiter lib (rl_limit rl) (rl_burst rl)))"
    and fw: "list_all2 (forwarded_as g) ips rs" and "distinct ips" and "set ips \<inter> known rl = {}"
  shows "serve_all lib ord g rs rl = replicate (length rs) True"
  using fw assms(3,4) new
proof (induction ips rs arbitrary: rl rule: list_all2_induct)
  case (Cons ip ips r rs)
  let ?a = "Allow lib ord ip 0 0 rl"
  have i: "GetClientIP g r = ip" by (rule forwarded_as_IP [OF Cons.hyps(1)])
  have "fst ?a" using Cons.prems by (intro new_client_allowed) auto
  moreover have "serve_all lib ord g rs (snd ?a) = replicate (length rs) True"
    using Cons.prems known_slow [of lib ord ip 0 0 rl]
    by (intro Cons.IH) (auto simp: Allow_limits Allow_slow [symmetric] dest: subsetD)
  ultimately show ?case by (simp add: i split_beta)
qed simp

definition spoof_request :: "string \<Rightarrow> http_request" where
  "spoof_request ip = \<lparr>r_Method = ''POST'', r_Header = (\<lambda>k. if k = ''X-Forwarded-For'' then ip else []),
     r_Query = (\<lambda>_. []), r_Body = [], r_BodyFails = False, r_RemoteAddr = ''10.0.0.1:80''\<rparr>"

theorem spoofed_addresses_allowed_witness:
  "serve_all counting_lib rev \<lparr>uni_lower = (\<lambda>s. s), uni_trim = (\<lambda>s. s), uni_quote = (\<lambda>s. s),
     parse_ip = (\<lambda>s. True)\<rparr>
     (map spoof_request [''1.1.1.1'', ''1.1.1.2'', ''1.1.1.3''])
     (NewRateLimiter \<lparr>RequestsPerSecond = 1, Burst = 1, TTL = minute\<rparr>) = [True, True, True]"
proof -
  let ?g = "\<lparr>uni_lower = (\<lambda>s. s), uni_trim = (\<lambda>s. s), uni_quote = (\<lambda>s. s),
     parse_ip = (\<lambda>s. True)\<rparr>"
  have "list_all2 (forwarded_as ?g) [''1.1.1.1'', ''1.1.1.2'', ''1.1.1.3'']
      (map spoof_request [''1.1.1.1'', ''1.1.1.2'', ''1.1.1.3''])"
    by (simp add: forwarded_as_def spoof_request_def TrimSpace_def trim_ascii_def is_space_def)
  from spoofed_addresses_allowed [OF _ this, of counting_lib
      "NewRateLimiter \<lparr>RequestsPerSecond = 1, Burst = 1, TTL = minute\<rparr>" rev]
  show ?thesis by (simp add: counting_lib_def NewRateLimiter_def numeral_eq_Suc)
qed

end
