(* ===== verification/Files.thy ===== *)
theory Files
  imports Go_Text "HOL-Library.Char_ord" "HOL-Library.List_Lexorder"
begin

text \<open>
  The file system behind the log files: \<open>path/filepath\<close> as the code uses it, and the calls of
  \<open>os\<close> on a state of directories, names, inodes and open files. A name leads to an inode and an
  open file keeps its inode, so renaming a file under its writer behaves as on Unix. There are no
  links, and the working directory does not change. Any call may also fail for a reason outside the
  model: the function \<open>sys\<close> decides, and a call that fails this way changes nothing.

  Lemmas: what a path denotes after \<open>Clean\<close>, \<open>Dir\<close> and \<open>Join\<close>, and the effect of each call.
\<close>

section \<open>Paths\<close>

text \<open>Where a path leads: whether it is absolute, and its components without \<open>.\<close>, \<open>..\<close> and \<open>//\<close>.\<close>

type_synonym loc = "bool \<times> string list"

definition clean_step :: "bool \<Rightarrow> string list \<Rightarrow> string \<Rightarrow> string list" where
  "clean_step rooted out c =
     (if c = [] \<or> c = ''.'' then out
      else if c = ''..'' then
        (if out \<noteq> [] \<and> last out \<noteq> ''..'' then butlast out
         else if rooted then out else out @ [c])
      else out @ [c])"

definition rooted :: "string \<Rightarrow> bool" where
  "rooted p \<longleftrightarrow> p \<noteq> [] \<and> hd p = CHR ''/''"

definition loc_of :: "string \<Rightarrow> loc" where
  "loc_of p = (rooted p, foldl (clean_step (rooted p)) [] (str_split CHR ''/'' p))"

definition Clean :: "string \<Rightarrow> string" where
  "Clean p =
     (case loc_of p of (r, cs) \<Rightarrow>
        if r then CHR ''/'' # str_join ''/'' cs
        else if cs = [] then ''.'' else str_join ''/'' cs)"

definition dir_part :: "string \<Rightarrow> string" where
  "dir_part p = rev (dropWhile (\<lambda>c. c \<noteq> CHR ''/'') (rev p))"

definition Dir :: "string \<Rightarrow> string" where
  "Dir p = Clean (dir_part p)"

definition Base :: "string \<Rightarrow> string" where
  "Base p =
     (if p = [] then ''.''
      else let q = rev (dropWhile (\<lambda>c. c = CHR ''/'') (rev p));
               b = rev (takeWhile (\<lambda>c. c \<noteq> CHR ''/'') (rev q))
           in if b = [] then ''/'' else b)"

definition Join :: "string list \<Rightarrow> string" where
  "Join es =
     (case dropWhile (\<lambda>e. e = []) es of
        [] \<Rightarrow> [] | e # es \<Rightarrow> Clean (str_join ''/'' (e # es)))"

lemma paths_eval:
  "Clean ''/var/log//app/../x.log'' = ''/var/log/x.log''" "Clean ''../../a/..'' = ''../..''"
  "Dir ''/var/log/x.log'' = ''/var/log''" "Dir ''x.log'' = ''.''" "Dir ''/x.log'' = ''/''"
  "Base ''/var/log/x.log'' = ''x.log''" "Base ''/a/b/'' = ''b''" "Base ''//'' = ''/''"
  "Join [[], ''a'', ''b''] = ''a/b''"
  by (simp_all add: Clean_def loc_of_def rooted_def clean_step_def Dir_def dir_part_def Base_def Join_def)

subsection \<open>Splitting and joining\<close>

lemma str_split_append_sep:
  "str_split c (xs @ c # ys) = str_split c xs @ str_split c ys"
proof (induction xs)
  case (Cons x xs)
  then show ?case by (cases "str_split c xs") (auto split: list.splits)
qed simp

lemma str_split_no_sep: "c \<notin> set xs \<Longrightarrow> str_split c xs = [xs]"
  by (induction xs) auto

lemma str_split_join:
  "cs \<noteq> [] \<Longrightarrow> (\<And>x. x \<in> set cs \<Longrightarrow> c \<notin> set x) \<Longrightarrow> str_split c (str_join [c] cs) = cs"
proof (induction cs rule: induct_list012)
  case (3 x y zs)
  then show ?case by (simp add: str_split_append_sep str_split_no_sep)
qed (simp_all add: str_split_no_sep)

lemma str_split_parts: "x \<in> set (str_split c xs) \<Longrightarrow> c \<notin> set x"
proof (induction xs arbitrary: x)
  case (Cons y ys)
  then show ?case by (cases "str_split c ys") (auto split: if_splits)
qed simp

lemma str_join_nonempty: "cs \<noteq> [] \<Longrightarrow> [] \<notin> set cs \<Longrightarrow> str_join sep cs \<noteq> []"
  by (cases cs rule: remdups_adj.cases) auto

text \<open>The components that can be left after cleaning: \<open>..\<close> only at the front of a relative path.\<close>

definition clean_comps :: "bool \<Rightarrow> string list \<Rightarrow> bool" where
  "clean_comps r cs \<longleftrightarrow>
     (\<exists>n ds. cs = replicate n ''..'' @ ds \<and> (r \<longrightarrow> n = 0) \<and> ''..'' \<notin> set ds \<and>
        (\<forall>d \<in> set cs. d \<noteq> [] \<and> d \<noteq> ''.'' \<and> CHR ''/'' \<notin> set d))"

lemma clean_comps_Nil [simp]: "clean_comps r []"
  by (simp add: clean_comps_def)

lemma clean_comps_step:
  assumes cs: "clean_comps r cs" and c: "CHR ''/'' \<notin> set c"
  shows "clean_comps r (clean_step r cs c)"
proof -
  obtain n ds where nd: "cs = replicate n ''..'' @ ds" "r \<longrightarrow> n = 0" "''..'' \<notin> set ds"
    and ok: "\<forall>d \<in> set cs. d \<noteq> [] \<and> d \<noteq> ''.'' \<and> CHR ''/'' \<notin> set d"
    using cs unfolding clean_comps_def by blast
  consider "c = [] \<or> c = ''.''" | "c = ''..''" "ds = []" | "c = ''..''" "ds \<noteq> []"
    | "c \<noteq> []" "c \<noteq> ''.''" "c \<noteq> ''..''" by blast
  then show ?thesis
  proof cases
    case 1
    then show ?thesis using cs by (auto simp: clean_step_def)
  next
    case 2
    have "clean_comps False (replicate (Suc n) ''..'')"
      unfolding clean_comps_def by (intro exI [of _ "Suc n"] exI [of _ "[]"]) auto
    then show ?thesis
      using 2 nd cs by (auto simp: clean_step_def replicate_append_same)
  next
    case 3
    have "clean_comps r (replicate n ''..'' @ butlast ds)"
      unfolding clean_comps_def using nd ok
      by (intro exI [of _ n] exI [of _ "butlast ds"]) (auto dest: in_set_butlastD)
    moreover have "last ds \<noteq> ''..''" using 3 nd(3) last_in_set by metis
    ultimately show ?thesis
      using 3 nd by (simp add: clean_step_def butlast_append)
  next
    case 4
    have "clean_comps r (replicate n ''..'' @ (ds @ [c]))"
      unfolding clean_comps_def using nd ok 4 c
      by (intro exI [of _ n] exI [of _ "ds @ [c]"]) auto
    then show ?thesis using 4 nd by (simp add: clean_step_def)
  qed
qed

lemma clean_comps_foldl:
  "clean_comps r cs \<Longrightarrow> (\<And>x. x \<in> set xs \<Longrightarrow> CHR ''/'' \<notin> set x) \<Longrightarrow>
   clean_comps r (foldl (clean_step r) cs xs)"
  by (induction xs arbitrary: cs) (simp_all add: clean_comps_step)

lemma clean_comps_loc: "clean_comps (fst (loc_of p)) (snd (loc_of p))"
  by (simp add: loc_of_def clean_comps_foldl str_split_parts)

text \<open>Cleaning again changes nothing.\<close>

lemma foldl_clean_dots:
  "foldl (clean_step False) (replicate k ''..'') (replicate n ''..'') = replicate (k + n) ''..''"
proof (induction n arbitrary: k)
  case (Suc n)
  have "clean_step False (replicate k ''..'') ''..'' = replicate (Suc k) ''..''"
    by (auto simp: clean_step_def replicate_append_same)
  with Suc [of "Suc k"] show ?case by simp
qed simp

lemma foldl_clean_plain:
  "(\<And>d. d \<in> set ds \<Longrightarrow> d \<noteq> [] \<and> d \<noteq> ''.'' \<and> d \<noteq> ''..'') \<Longrightarrow>
   foldl (clean_step r) out ds = out @ ds"
  by (induction ds arbitrary: out) (simp_all add: clean_step_def)

lemma foldl_clean_comps:
  assumes "clean_comps r cs" shows "foldl (clean_step r) [] cs = cs"
proof -
  obtain n ds where nd: "cs = replicate n ''..'' @ ds" "r \<longrightarrow> n = 0" "''..'' \<notin> set ds"
    and ok: "\<forall>d \<in> set cs. d \<noteq> [] \<and> d \<noteq> ''.'' \<and> CHR ''/'' \<notin> set d"
    using assms unfolding clean_comps_def by blast
  have plain: "foldl (clean_step q) out ds = out @ ds" for out q
    by (rule foldl_clean_plain) (use nd ok in auto)
  show ?thesis
    using foldl_clean_dots [of 0 n] nd by (cases r) (simp_all add: plain)
qed


lemma loc_of_join:
  assumes "clean_comps r cs"
  shows "loc_of (if r then CHR ''/'' # str_join ''/'' cs
                 else if cs = [] then ''.'' else str_join ''/'' cs) = (r, cs)"
proof -
  have part: "CHR ''/'' \<notin> set x" "x \<noteq> []" if "x \<in> set cs" for x
    using assms that by (auto simp: clean_comps_def)
  have sj: "str_split CHR ''/'' (str_join ''/'' cs) = cs" if "cs \<noteq> []"
    using str_split_join [OF that part(1)] by simp
  show ?thesis
  proof (cases "cs = []")
    case True
    then show ?thesis by (simp add: loc_of_def rooted_def clean_step_def)
  next
    case False
    then obtain c ds where c: "cs = c # ds" by (cases cs) auto
    then obtain x xs where x: "c = x # xs" "x \<noteq> CHR ''/''" using part [of c] by (cases c) auto
    have "str_join ''/'' cs \<noteq> [] \<and> hd (str_join ''/'' cs) = x"
      using c x by (cases ds) auto
    then show ?thesis
      using False sj x foldl_clean_comps [OF assms]
      by (cases r) (simp_all add: loc_of_def rooted_def clean_step_def [of _ _ "[]"])
  qed
qed

lemma loc_of_Clean [simp]: "loc_of (Clean p) = loc_of p"
proof -
  obtain r cs where "loc_of p = (r, cs)" by fastforce
  then show ?thesis using loc_of_join [of r cs] clean_comps_loc [of p] by (simp add: Clean_def)
qed

lemma Clean_nonempty [simp]: "Clean p \<noteq> []"
proof -
  have "clean_comps (fst (loc_of p)) (snd (loc_of p))" by (rule clean_comps_loc)
  then have "[] \<notin> set (snd (loc_of p))" by (auto simp: clean_comps_def)
  then show ?thesis by (auto simp: Clean_def str_join_nonempty split: prod.splits)
qed

text \<open>Below a directory: a plain name is one more component.\<close>

definition plain_name :: "string \<Rightarrow> bool" where
  "plain_name n \<longleftrightarrow> n \<noteq> [] \<and> n \<noteq> ''.'' \<and> n \<noteq> ''..'' \<and> CHR ''/'' \<notin> set n"

lemma loc_of_slash:
  assumes "d \<noteq> []" and "plain_name n"
  shows "loc_of (d @ ''/'' @ n) = (fst (loc_of d), snd (loc_of d) @ [n])"
  using assms
  by (simp add: loc_of_def rooted_def str_split_append_sep str_split_no_sep plain_name_def
      clean_step_def [of _ _ n])

lemma loc_of_name: "plain_name n \<Longrightarrow> loc_of n = (False, [n])"
  by (cases n) (auto simp: loc_of_def rooted_def str_split_no_sep plain_name_def clean_step_def)

lemma loc_of_Join:
  assumes "d \<noteq> []" and "plain_name n"
  shows "loc_of (Join [d, n]) = (fst (loc_of d), snd (loc_of d) @ [n])"
  using loc_of_slash [OF assms] assms by (simp add: Join_def plain_name_def)

text \<open>A path is its directory part and its last component.\<close>

definition file_path :: "string \<Rightarrow> bool" where
  "file_path p \<longleftrightarrow> p \<noteq> [] \<and> last p \<noteq> CHR ''/'' \<and> Base p \<noteq> ''.'' \<and> Base p \<noteq> ''..''"

lemma dir_part_append: "p = dir_part p @ rev (takeWhile (\<lambda>c. c \<noteq> CHR ''/'') (rev p))"
  unfolding dir_part_def rev_append [symmetric] takeWhile_dropWhile_id by simp

lemma Base_file:
  assumes "p \<noteq> []" and "last p \<noteq> CHR ''/''"
  shows "Base p = rev (takeWhile (\<lambda>c. c \<noteq> CHR ''/'') (rev p))" and "Base p \<noteq> []"
    and "CHR ''/'' \<notin> set (Base p)"
proof -
  obtain y ys where p: "p = ys @ [y]" "y \<noteq> CHR ''/''"
    using assms by (metis append_butlast_last_id)
  show b: "Base p = rev (takeWhile (\<lambda>c. c \<noteq> CHR ''/'') (rev p))"
    using p by (simp add: Base_def)
  show "Base p \<noteq> []" unfolding b using p by simp
  show "CHR ''/'' \<notin> set (Base p)"
    unfolding b set_rev using set_takeWhileD by metis
qed

lemma file_path_plain: "file_path p \<Longrightarrow> plain_name (Base p)"
  using Base_file [of p] by (simp add: file_path_def plain_name_def)

lemma loc_of_file:
  assumes "file_path p"
  shows "loc_of p = (fst (loc_of (Dir p)), snd (loc_of (Dir p)) @ [Base p])"
proof -
  have p: "p = dir_part p @ Base p"
    using dir_part_append [of p] Base_file(1) [of p] assms by (simp add: file_path_def)
  have D: "loc_of (Dir p) = loc_of (dir_part p)" by (simp add: Dir_def)
  note n = file_path_plain [OF assms]
  show ?thesis
  proof (cases "dir_part p")
    case Nil
    have "loc_of [] = (False, [])" by (simp add: loc_of_def rooted_def clean_step_def)
    then show ?thesis using Nil p D loc_of_name [OF n] by (metis append_Nil fst_conv snd_conv)
  next
    case (Cons x xs)
    have "dropWhile (\<lambda>c. c \<noteq> CHR ''/'') (rev p) \<noteq> []"
      using Cons by (auto simp: dir_part_def)
    then have "last (dir_part p) = CHR ''/''"
      using hd_dropWhile [of "\<lambda>c. c \<noteq> CHR ''/''" "rev p"] by (simp add: dir_part_def last_rev)
    then obtain d where d: "dir_part p = d @ ''/''"
      using Cons by (metis append_butlast_last_id list.distinct(1))
    have eq: "p = d @ ''/'' @ Base p" using p d by simp
    show ?thesis
    proof (cases "d = []")
      case True
      then have "loc_of (dir_part p) = (True, [])"
        using d by (simp add: loc_of_def rooted_def clean_step_def)
      moreover have "loc_of (''/'' @ Base p) = (True, [Base p])"
        using n by (simp add: loc_of_def rooted_def str_split_no_sep plain_name_def clean_step_def)
      ultimately show ?thesis using eq True D by (metis append_Nil fst_conv snd_conv)
    next
      case False
      have "loc_of (d @ ''/'') = loc_of d"
        using False by (simp add: loc_of_def rooted_def str_split_append_sep clean_step_def)
      then show ?thesis using loc_of_slash [OF False n] eq d D by (metis append.assoc)
    qed
  qed
qed

section \<open>The state\<close>

text \<open>
  \<open>fs_dirs\<close> holds the directories with their permission bits, \<open>fs_files\<close> the name of each file
  with its inode. An \<open>*os.File\<close> is an index into \<open>fs_handles\<close>, which only grows. The permission
  bits of a new file are those asked for (the umask clears bits of group and others only).
\<close>

record file_handle =
  fh_name :: string
  fh_inode :: nat
  fh_open :: bool

record file_system =
  fs_dirs :: "(loc, nat) gomap"
  fs_files :: "(loc, nat) gomap"
  fs_data :: "nat \<Rightarrow> string"
  fs_mode :: "nat \<Rightarrow> nat"
  fs_next :: nat
  fs_handles :: "file_handle list"

type_synonym handle = nat

datatype fs_call =
  MkdirAllCall string nat | OpenCall string nat | CloseCall handle | StatCall handle
| WriteCall handle string | RenameCall string string | ReadDirCall string | RemoveCall string

text \<open>\<open>None\<close> lets the call through.\<close>

type_synonym sys = "file_system \<Rightarrow> fs_call \<Rightarrow> string go_error"

definition no_fault :: sys where "no_fault s c = None"

definition is_dir :: "file_system \<Rightarrow> loc \<Rightarrow> bool" where
  "is_dir s l \<longleftrightarrow> snd l = [] \<or> map_of (fs_dirs s) l \<noteq> None"

definition parent :: "loc \<Rightarrow> loc" where
  "parent l = (fst l, butlast (snd l))"

definition inode_at :: "file_system \<Rightarrow> loc \<Rightarrow> nat option" where
  "inode_at s l = map_of (fs_files s) l"

definition handle_open :: "file_system \<Rightarrow> handle \<Rightarrow> bool" where
  "handle_open s h \<longleftrightarrow> h < length (fs_handles s) \<and> fh_open (fs_handles s ! h)"

section \<open>The calls\<close>

definition add_dir :: "nat \<Rightarrow> loc \<Rightarrow> file_system \<Rightarrow> file_system" where
  "add_dir mode l s =
     (if is_dir s l then s else s\<lparr>fs_dirs := AList.update l mode (fs_dirs s)\<rparr>)"

definition path_prefixes :: "loc \<Rightarrow> loc list" where
  "path_prefixes l = map (\<lambda>n. (fst l, take n (snd l))) [1..<Suc (length (snd l))]"

definition os_MkdirAll :: "sys \<Rightarrow> string \<Rightarrow> nat \<Rightarrow> file_system \<Rightarrow> string go_error \<times> file_system" where
  "os_MkdirAll sys p mode s =
     (case sys s (MkdirAllCall p mode) of
        Some e \<Rightarrow> (Some e, s)
      | None \<Rightarrow>
          if list_ex (\<lambda>l. inode_at s l \<noteq> None) (path_prefixes (loc_of p))
          then (Some (''mkdir '' @ p @ '': not a directory''), s)
          else (None, fold (add_dir mode) (path_prefixes (loc_of p)) s))"

text \<open>\<open>os.OpenFile(p, O_CREATE|O_WRONLY|O_APPEND, mode)\<close>.\<close>

definition new_handle :: "string \<Rightarrow> nat \<Rightarrow> file_system \<Rightarrow> (string + handle) \<times> file_system" where
  "new_handle p i s =
     (Inr (length (fs_handles s)),
      s\<lparr>fs_handles := fs_handles s @ [\<lparr>fh_name = p, fh_inode = i, fh_open = True\<rparr>]\<rparr>)"

definition new_file :: "loc \<Rightarrow> nat \<Rightarrow> file_system \<Rightarrow> file_system" where
  "new_file l mode s =
     s\<lparr>fs_files := AList.update l (fs_next s) (fs_files s),
       fs_data := (fs_data s)(fs_next s := []), fs_mode := (fs_mode s)(fs_next s := mode),
       fs_next := Suc (fs_next s)\<rparr>"

definition os_OpenAppend :: "sys \<Rightarrow> string \<Rightarrow> nat \<Rightarrow> file_system \<Rightarrow>
    (string + handle) \<times> file_system" where
  "os_OpenAppend sys p mode s =
     (case sys s (OpenCall p mode) of
        Some e \<Rightarrow> (Inl e, s)
      | None \<Rightarrow>
          let l = loc_of p in
          if p = [] then (Inl ''open : no such file or directory'', s)
          else if is_dir s l \<or> last p = CHR ''/'' then (Inl (''open '' @ p @ '': is a directory''), s)
          else if \<not> is_dir s (parent l)
          then (Inl (''open '' @ p @ '': no such file or directory''), s)
          else (case inode_at s l of
                  Some i \<Rightarrow> new_handle p i s
                | None \<Rightarrow> new_handle p (fs_next s) (new_file l mode s)))"

text \<open>\<open>Close\<close> ends the use of the handle even where it reports an error.\<close>

definition file_Close :: "sys \<Rightarrow> handle \<Rightarrow> file_system \<Rightarrow> string go_error \<times> file_system" where
  "file_Close sys h s =
     (if \<not> handle_open s h then (Some ''file already closed'', s)
      else (sys s (CloseCall h),
            s\<lparr>fs_handles := (fs_handles s)[h := (fs_handles s ! h)\<lparr>fh_open := False\<rparr>]\<rparr>))"

definition file_Size :: "sys \<Rightarrow> handle \<Rightarrow> file_system \<Rightarrow> string + int" where
  "file_Size sys h s =
     (if \<not> handle_open s h then Inl ''use of closed file''
      else case sys s (StatCall h) of
             Some e \<Rightarrow> Inl e
           | None \<Rightarrow> Inr (int (length (fs_data s (fh_inode (fs_handles s ! h))))))"

definition file_Write :: "sys \<Rightarrow> handle \<Rightarrow> string \<Rightarrow> file_system \<Rightarrow> string go_error \<times> file_system" where
  "file_Write sys h d s =
     (if \<not> handle_open s h then (Some ''file already closed'', s)
      else case sys s (WriteCall h d) of
             Some e \<Rightarrow> (Some e, s)
           | None \<Rightarrow>
               let i = fh_inode (fs_handles s ! h)
               in (None, s\<lparr>fs_data := (fs_data s)(i := fs_data s i @ d)\<rparr>))"

text \<open>A file in the way of the new name is replaced. Directories are not renamed by the code.\<close>

definition os_Rename :: "sys \<Rightarrow> string \<Rightarrow> string \<Rightarrow> file_system \<Rightarrow> string go_error \<times> file_system" where
  "os_Rename sys p q s =
     (case sys s (RenameCall p q) of
        Some e \<Rightarrow> (Some e, s)
      | None \<Rightarrow>
          (case inode_at s (loc_of p) of
             None \<Rightarrow> (Some (''rename '' @ p @ '': no such file or directory''), s)
           | Some i \<Rightarrow>
               if is_dir s (loc_of q) \<or> \<not> is_dir s (parent (loc_of q))
               then (Some (''rename '' @ p @ '' '' @ q @ '': file exists''), s)
               else (None, s\<lparr>fs_files :=
                      AList.update (loc_of q) i (AList.delete (loc_of p) (fs_files s))\<rparr>)))"

text \<open>The names in a directory, in the order of their bytes.\<close>

definition children :: "file_system \<Rightarrow> loc \<Rightarrow> loc list" where
  "children s d =
     filter (\<lambda>l. snd l \<noteq> [] \<and> parent l = d) (map fst (fs_files s) @ map fst (fs_dirs s))"

definition os_ReadDir :: "sys \<Rightarrow> string \<Rightarrow> file_system \<Rightarrow> string + string list" where
  "os_ReadDir sys p s =
     (case sys s (ReadDirCall p) of
        Some e \<Rightarrow> Inl e
      | None \<Rightarrow>
          if is_dir s (loc_of p) then Inr (sort (map (\<lambda>l. last (snd l)) (children s (loc_of p))))
          else Inl (''open '' @ p @ '': no such file or directory''))"

text \<open>\<open>os.Remove\<close> removes a file, or a directory that is empty.\<close>

definition os_Remove :: "sys \<Rightarrow> string \<Rightarrow> file_system \<Rightarrow> string go_error \<times> file_system" where
  "os_Remove sys p s =
     (case sys s (RemoveCall p) of
        Some e \<Rightarrow> (Some e, s)
      | None \<Rightarrow>
          let l = loc_of p in
          if inode_at s l \<noteq> None then (None, s\<lparr>fs_files := AList.delete l (fs_files s)\<rparr>)
          else if snd l \<noteq> [] \<and> is_dir s l \<and> children s l = []
          then (None, s\<lparr>fs_dirs := AList.delete l (fs_dirs s)\<rparr>)
          else (Some (''remove '' @ p @ '': no such file or directory''), s))"

section \<open>Facts about the calls\<close>

definition below :: "loc \<Rightarrow> string \<Rightarrow> loc" where
  "below d n = (fst d, snd d @ [n])"

lemma below_simps [simp]:
  "parent (below d n) = d" "snd (below d n) \<noteq> []" "last (snd (below d n)) = n"
  "below d n = below d m \<longleftrightarrow> n = m"
  by (simp_all add: below_def parent_def)

lemma below_image [simp]: "below d n \<in> below d ` N \<longleftrightarrow> n \<in> N"
  by auto

lemma below_parent: "snd l \<noteq> [] \<Longrightarrow> below (parent l) (last (snd l)) = l"
  by (cases l) (simp add: below_def parent_def)

lemma loc_of_Join_below: "d \<noteq> [] \<Longrightarrow> plain_name n \<Longrightarrow> loc_of (Join [d, n]) = below (loc_of d) n"
  by (simp add: loc_of_Join below_def)

lemma loc_of_file_below: "file_path p \<Longrightarrow> loc_of p = below (loc_of (Dir p)) (Base p)"
  using loc_of_file [of p] by (simp add: below_def)

text \<open>
  Well-formed file systems: names are unique, a file is in a directory and no directory itself,
  each inode has one name, and inodes and open files are allocated.
\<close>

definition fs_ok :: "file_system \<Rightarrow> bool" where
  "fs_ok s \<longleftrightarrow> gm_ok (fs_files s) \<and> gm_ok (fs_dirs s) \<and>
     (\<forall>l i. inode_at s l = Some i \<longrightarrow>
        i < fs_next s \<and> \<not> is_dir s l \<and> is_dir s (parent l) \<and> plain_name (last (snd l))) \<and>
     (\<forall>l l' i. inode_at s l = Some i \<longrightarrow> inode_at s l' = Some i \<longrightarrow> l = l') \<and>
     (\<forall>h \<in> set (fs_handles s). fh_inode h < fs_next s) \<and>
     (\<forall>l m. map_of (fs_dirs s) l = Some m \<longrightarrow> CHR ''/'' \<notin> set (last (snd l)))"

lemma fs_okD:
  assumes "fs_ok s"
  shows "gm_ok (fs_files s)" "gm_ok (fs_dirs s)"
    and "inode_at s l = Some i \<Longrightarrow> i < fs_next s" "inode_at s l = Some i \<Longrightarrow> \<not> is_dir s l"
    and "inode_at s l = Some i \<Longrightarrow> is_dir s (parent l)"
    and "inode_at s l = Some i \<Longrightarrow> plain_name (last (snd l))"
    and "inode_at s l = Some i \<Longrightarrow> inode_at s l' = Some i \<Longrightarrow> l = l'"
    and "h \<in> set (fs_handles s) \<Longrightarrow> fh_inode h < fs_next s"
    and "map_of (fs_dirs s) l = Some m \<Longrightarrow> CHR ''/'' \<notin> set (last (snd l))"
  using assms unfolding fs_ok_def by blast+

lemmas inode_not_dir = fs_okD(4)

lemma fs_okI:
  assumes "gm_ok (fs_files s)" "gm_ok (fs_dirs s)"
    and "\<And>l i. inode_at s l = Some i \<Longrightarrow>
      i < fs_next s \<and> \<not> is_dir s l \<and> is_dir s (parent l) \<and> plain_name (last (snd l))"
    and "\<And>l l' i. inode_at s l = Some i \<Longrightarrow> inode_at s l' = Some i \<Longrightarrow> l = l'"
    and "\<And>h. h \<in> set (fs_handles s) \<Longrightarrow> fh_inode h < fs_next s"
    and "\<And>l m. map_of (fs_dirs s) l = Some m \<Longrightarrow> CHR ''/'' \<notin> set (last (snd l))"
  shows "fs_ok s"
  using assms unfolding fs_ok_def by blast

lemma inode_nonempty: "fs_ok s \<Longrightarrow> inode_at s l = Some i \<Longrightarrow> snd l \<noteq> []"
  using inode_not_dir [of s l i] by (auto simp: is_dir_def)

definition dir_names :: "file_system \<Rightarrow> loc \<Rightarrow> string set" where
  "dir_names s d = {n. inode_at s (below d n) \<noteq> None \<or> map_of (fs_dirs s) (below d n) \<noteq> None}"

lemma children_iff:
  "l \<in> set (children s d) \<longleftrightarrow>
     (inode_at s l \<noteq> None \<or> map_of (fs_dirs s) l \<noteq> None) \<and> snd l \<noteq> [] \<and> parent l = d"
  by (auto simp: children_def inode_at_def map_of_eq_None_iff)

lemma children_names: "(\<lambda>l. last (snd l)) ` set (children s d) = dir_names s d"
proof
  show "(\<lambda>l. last (snd l)) ` set (children s d) \<subseteq> dir_names s d"
    using below_parent by (fastforce simp: children_iff dir_names_def)
  show "dir_names s d \<subseteq> (\<lambda>l. last (snd l)) ` set (children s d)"
  proof
    fix n assume "n \<in> dir_names s d"
    then have "below d n \<in> set (children s d)" by (simp add: children_iff dir_names_def)
    then show "n \<in> (\<lambda>l. last (snd l)) ` set (children s d)" by (rule rev_image_eqI) simp
  qed
qed

lemma finite_dir_names [simp]: "finite (dir_names s d)"
  unfolding children_names [symmetric] by simp

lemma distinct_children:
  assumes "fs_ok s" shows "distinct (map (\<lambda>l. last (snd l)) (children s d))"
proof -
  have "l \<notin> set (map fst (fs_dirs s))" if mem: "l \<in> set (map fst (fs_files s))" for l
  proof -
    obtain i where "inode_at s l = Some i"
      using mem map_of_eq_None_iff [of "fs_files s" l]
      by (cases "map_of (fs_files s) l") (simp_all add: inode_at_def)
    then have "map_of (fs_dirs s) l = None" using fs_okD(4) [OF assms] by (auto simp: is_dir_def)
    then show ?thesis by (simp add: map_of_eq_None_iff)
  qed
  then have "distinct (map fst (fs_files s) @ map fst (fs_dirs s))"
    using fs_okD(1,2) [OF assms] unfolding gm_ok_def distinct_append by blast
  then have "distinct (children s d)" unfolding children_def by (rule distinct_filter)
  moreover have "inj_on (\<lambda>l. last (snd l)) (set (children s d))"
    by (rule inj_onI) (metis below_parent children_iff)
  ultimately show ?thesis by (simp add: distinct_map)
qed

lemma ReadDir_ok:
  assumes "fs_ok s" and "is_dir s (loc_of p)"
  shows "os_ReadDir no_fault p s = Inr (sorted_list_of_set (dir_names s (loc_of p)))"
  using assms distinct_children [of s "loc_of p"]
  by (simp add: os_ReadDir_def no_fault_def sorted_list_of_set_sort_remdups distinct_remdups_id
      flip: children_names set_map)

text \<open>Opening, renaming and removing without faults.\<close>

lemma is_dir_upd [simp]:
  "is_dir (s\<lparr>fs_files := f\<rparr>) l = is_dir s l" "is_dir (s\<lparr>fs_data := d\<rparr>) l = is_dir s l"
  "is_dir (s\<lparr>fs_handles := h\<rparr>) l = is_dir s l" "is_dir (s\<lparr>fs_mode := m\<rparr>) l = is_dir s l"
  "is_dir (s\<lparr>fs_next := n\<rparr>) l = is_dir s l"
  by (simp_all add: is_dir_def)

lemma inode_at_upd [simp]:
  "inode_at (s\<lparr>fs_data := d\<rparr>) l = inode_at s l" "inode_at (s\<lparr>fs_handles := h\<rparr>) l = inode_at s l"
  "inode_at (s\<lparr>fs_mode := m\<rparr>) l = inode_at s l" "inode_at (s\<lparr>fs_next := n\<rparr>) l = inode_at s l"
  "inode_at (s\<lparr>fs_dirs := d'\<rparr>) l = inode_at s l"
  by (simp_all add: inode_at_def)

definition content :: "file_system \<Rightarrow> loc \<Rightarrow> string" where
  "content s l = (case inode_at s l of Some i \<Rightarrow> fs_data s i | None \<Rightarrow> [])"

lemma gm_ok_files:
  "gm_ok (fs_files s) \<Longrightarrow> gm_ok (AList.update l i (fs_files s))"
  "gm_ok (fs_files s) \<Longrightarrow> gm_ok (AList.delete l (fs_files s))"
  by (simp_all add: gm.ok_put gm.ok_del)

text \<open>\<open>Rename\<close> of a file to a name in a directory.\<close>

definition renamed :: "loc \<Rightarrow> loc \<Rightarrow> nat \<Rightarrow> file_system \<Rightarrow> file_system" where
  "renamed l l' i s = s\<lparr>fs_files := AList.update l' i (AList.delete l (fs_files s))\<rparr>"

lemma os_Rename_ok:
  assumes "inode_at s (loc_of p) = Some i"
    and "\<not> is_dir s (loc_of q)" and "is_dir s (parent (loc_of q))"
  shows "os_Rename no_fault p q s = (None, renamed (loc_of p) (loc_of q) i s)"
  using assms by (simp add: os_Rename_def no_fault_def renamed_def)

lemma renamed_sel [simp]:
  "fs_dirs (renamed l l' i s) = fs_dirs s" "fs_data (renamed l l' i s) = fs_data s"
  "fs_mode (renamed l l' i s) = fs_mode s"
  "fs_next (renamed l l' i s) = fs_next s" "fs_handles (renamed l l' i s) = fs_handles s"
  "is_dir (renamed l l' i s) = is_dir s"
  by (simp_all add: renamed_def is_dir_def fun_eq_iff)

lemma inode_at_renamed:
  "inode_at (renamed l l' i s) k = (if k = l' then Some i else if k = l then None else inode_at s k)"
  by (simp add: renamed_def inode_at_def update_conv' delete_conv')

lemma fs_ok_renamed:
  assumes "fs_ok s" and "inode_at s l = Some i"
    and "\<not> is_dir s l'" "is_dir s (parent l')" "plain_name (last (snd l'))"
  shows "fs_ok (renamed l l' i s)"
proof (rule fs_okI)
  show "gm_ok (fs_files (renamed l l' i s))" "gm_ok (fs_dirs (renamed l l' i s))"
    using fs_okD(1,2) [OF assms(1)] by (simp_all add: renamed_def gm.ok_put gm.ok_del)
next
  fix k j assume k: "inode_at (renamed l l' i s) k = Some j"
  then show "j < fs_next (renamed l l' i s) \<and> \<not> is_dir (renamed l l' i s) k \<and>
      is_dir (renamed l l' i s) (parent k) \<and> plain_name (last (snd k))"
    using assms fs_okD(3-6) [OF assms(1), of k j] fs_okD(3) [OF assms(1,2)]
    by (auto simp: inode_at_renamed split: if_splits)
next
  fix k k' j
  assume "inode_at (renamed l l' i s) k = Some j" "inode_at (renamed l l' i s) k' = Some j"
  then show "k = k'"
    using fs_okD(7) [OF assms(1), of k j k'] fs_okD(7) [OF assms(1,2)]
    by (auto simp: inode_at_renamed split: if_splits)
qed (auto simp: fs_okD(8) [OF assms(1)] dest: fs_okD(9) [OF assms(1)])

text \<open>A new file under a free name.\<close>

lemma os_OpenAppend_new:
  assumes "p \<noteq> []" "last p \<noteq> CHR ''/''" "\<not> is_dir s (loc_of p)" "is_dir s (parent (loc_of p))"
    and "inode_at s (loc_of p) = None"
  shows "os_OpenAppend no_fault p m s = new_handle p (fs_next s) (new_file (loc_of p) m s)"
  using assms by (simp add: os_OpenAppend_def no_fault_def)

lemma os_OpenAppend_old:
  assumes "p \<noteq> []" "last p \<noteq> CHR ''/''" "\<not> is_dir s (loc_of p)" "is_dir s (parent (loc_of p))"
    and "inode_at s (loc_of p) = Some i"
  shows "os_OpenAppend no_fault p m s = new_handle p i s"
  using assms by (simp add: os_OpenAppend_def no_fault_def)

lemma inode_at_new_file:
  "inode_at (new_file l m s) k = (if k = l then Some (fs_next s) else inode_at s k)"
  by (simp add: new_file_def inode_at_def update_conv')

lemma new_file_sel [simp]:
  "fs_dirs (new_file l m s) = fs_dirs s" "fs_next (new_file l m s) = Suc (fs_next s)"
  "fs_data (new_file l m s) = (fs_data s)(fs_next s := [])" "is_dir (new_file l m s) = is_dir s"
  "fs_mode (new_file l m s) = (fs_mode s)(fs_next s := m)"
  "fs_handles (new_file l m s) = fs_handles s"
  by (simp_all add: new_file_def is_dir_def fun_eq_iff)

lemma fs_ok_new_file:
  assumes ok: "fs_ok s" and "\<not> is_dir s l" "is_dir s (parent l)" "plain_name (last (snd l))"
  shows "fs_ok (new_file l m s)"
proof (rule fs_okI)
  show "gm_ok (fs_files (new_file l m s))" "gm_ok (fs_dirs (new_file l m s))"
    using fs_okD(1,2) [OF ok] by (simp_all add: new_file_def gm.ok_put)
next
  fix k i assume k: "inode_at (new_file l m s) k = Some i"
  show "i < fs_next (new_file l m s) \<and> \<not> is_dir (new_file l m s) k \<and>
      is_dir (new_file l m s) (parent k) \<and> plain_name (last (snd k))"
  proof (cases "k = l")
    case False
    then show ?thesis using k fs_okD(3-6) [OF ok, of k i] by (simp add: inode_at_new_file)
  qed (use k assms in \<open>simp add: inode_at_new_file\<close>)
next
  fix k k' i
  assume k: "inode_at (new_file l m s) k = Some i" "inode_at (new_file l m s) k' = Some i"
  have "inode_at s j \<noteq> Some (fs_next s)" for j using fs_okD(3) [OF ok, of j "fs_next s"] by auto
  then show "k = k'"
    using k fs_okD(7) [OF ok, of k i k'] by (auto simp: inode_at_new_file split: if_splits)
next
  fix h assume "h \<in> set (fs_handles (new_file l m s))"
  then show "fh_inode h < fs_next (new_file l m s)" using fs_okD(8) [OF ok, of h] by simp
qed (auto dest: fs_okD(9) [OF ok])

text \<open>Changes that keep names and inodes.\<close>

lemma fs_ok_same:
  assumes "fs_ok s" and "fs_files t = fs_files s" "fs_dirs t = fs_dirs s" "fs_next t = fs_next s"
    and "fh_inode ` set (fs_handles t) \<subseteq> {..< fs_next s}"
  shows "fs_ok t"
proof -
  have "inode_at t = inode_at s" "is_dir t = is_dir s"
    using assms by (simp_all add: fun_eq_iff inode_at_def is_dir_def)
  then show ?thesis using assms unfolding fs_ok_def by auto
qed

text \<open>Removing a file.\<close>

lemma os_Remove_file:
  "inode_at s (loc_of p) = Some i \<Longrightarrow>
   os_Remove no_fault p s = (None, s\<lparr>fs_files := AList.delete (loc_of p) (fs_files s)\<rparr>)"
  by (simp add: os_Remove_def no_fault_def)

lemma inode_at_deleted:
  "inode_at (s\<lparr>fs_files := AList.delete l (fs_files s)\<rparr>) k = (if k = l then None else inode_at s k)"
  by (simp add: inode_at_def delete_conv')

lemma fs_ok_deleted: "fs_ok s \<Longrightarrow> fs_ok (s\<lparr>fs_files := AList.delete l (fs_files s)\<rparr>)"
  by (rule fs_okI) (auto simp: inode_at_deleted gm.ok_del dest: fs_okD split: if_splits)

text \<open>Making directories.\<close>

lemma add_dir_sel [simp]:
  "fs_files (add_dir m l s) = fs_files s" "fs_data (add_dir m l s) = fs_data s"
  "fs_mode (add_dir m l s) = fs_mode s" "fs_next (add_dir m l s) = fs_next s"
  "fs_handles (add_dir m l s) = fs_handles s"
  by (simp_all add: add_dir_def)

lemma is_dir_add_dir: "is_dir (add_dir m l s) k \<longleftrightarrow> k = l \<or> is_dir s k"
  by (auto simp: add_dir_def is_dir_def update_conv')

lemma fold_add_dir:
  shows "fs_files (fold (add_dir m) ls s) = fs_files s" "fs_data (fold (add_dir m) ls s) = fs_data s"
    "fs_mode (fold (add_dir m) ls s) = fs_mode s" "fs_next (fold (add_dir m) ls s) = fs_next s"
    "fs_handles (fold (add_dir m) ls s) = fs_handles s"
    "is_dir (fold (add_dir m) ls s) k \<longleftrightarrow> k \<in> set ls \<or> is_dir s k"
  by (induction ls arbitrary: s) (auto simp: is_dir_add_dir)

lemma gm_ok_add_dir: "gm_ok (fs_dirs s) \<Longrightarrow> gm_ok (fs_dirs (add_dir m l s))"
  by (simp add: add_dir_def gm.ok_put)

lemma gm_ok_add_dirs: "gm_ok (fs_dirs s) \<Longrightarrow> gm_ok (fs_dirs (fold (add_dir m) ls s))"
  by (induction ls arbitrary: s) (simp_all add: gm_ok_add_dir)

lemma fold_add_dir_new:
  "map_of (fs_dirs (fold (add_dir m) ls s)) k = Some m' \<Longrightarrow> k \<in> set ls \<or> map_of (fs_dirs s) k = Some m'"
proof (induction ls arbitrary: s)
  case (Cons l ls)
  then have "k \<in> set ls \<or> map_of (fs_dirs (add_dir m l s)) k = Some m'" by simp
  then show ?case by (auto simp: add_dir_def update_conv' split: if_splits)
qed simp

lemma path_prefixes_iff: "k \<in> set (path_prefixes l) \<longleftrightarrow> fst k = fst l \<and> snd k \<noteq> [] \<and> prefix (snd k) (snd l)"
proof
  assume "fst k = fst l \<and> snd k \<noteq> [] \<and> prefix (snd k) (snd l)"
  then have "k = (fst l, take (length (snd k)) (snd l))"
    and "length (snd k) \<in> set [1..<Suc (length (snd l))]"
    by (auto simp: prefix_def prod_eq_iff Suc_le_eq)
  then show "k \<in> set (path_prefixes l)" unfolding path_prefixes_def set_map by (rule image_eqI)
qed (auto simp: path_prefixes_def take_is_prefix)

text \<open>Where a directory can be made: no part of the path is a file.\<close>

definition no_file_on :: "file_system \<Rightarrow> loc \<Rightarrow> bool" where
  "no_file_on s l \<longleftrightarrow> list_all (\<lambda>k. inode_at s k = None) (path_prefixes l)"

lemma os_MkdirAll_ok:
  assumes ok: "fs_ok s" and free: "no_file_on s (loc_of p)"
  obtains t where "os_MkdirAll no_fault p m s = (None, t)" and "fs_ok t"
    and "inode_at t = inode_at s" and "fs_data t = fs_data s" and "fs_handles t = fs_handles s"
    and "\<And>k. is_dir t k \<longleftrightarrow> k \<in> set (path_prefixes (loc_of p)) \<or> is_dir s k" and "is_dir t (loc_of p)"
proof -
  let ?t = "fold (add_dir m) (path_prefixes (loc_of p)) s"
  note D = fold_add_dir [where m = m and ls = "path_prefixes (loc_of p)" and s = s]
  have ino: "inode_at ?t = inode_at s" by (simp add: fun_eq_iff inode_at_def D)
  have "os_MkdirAll no_fault p m s = (None, ?t)"
    using free by (auto simp: os_MkdirAll_def no_fault_def no_file_on_def list_all_iff list_ex_iff)
  moreover have "fs_ok ?t"
  proof (rule fs_okI)
    fix l i assume i: "inode_at ?t l = Some i"
    then have "l \<notin> set (path_prefixes (loc_of p))"
      using free by (auto simp: ino no_file_on_def list_all_iff)
    then show "i < fs_next ?t \<and> \<not> is_dir ?t l \<and> is_dir ?t (parent l) \<and> plain_name (last (snd l))"
      using i fs_okD(3-6) [OF ok, of l i] by (simp add: ino D)
  next
    fix l m' assume "map_of (fs_dirs ?t) l = Some m'"
    then consider "l \<in> set (path_prefixes (loc_of p))" | "map_of (fs_dirs s) l = Some m'"
      using fold_add_dir_new by blast
    then show "CHR ''/'' \<notin> set (last (snd l))"
    proof cases
      case 1
      then have "last (snd l) \<in> set (snd (loc_of p))"
        by (metis path_prefixes_iff last_in_set set_mono_prefix subsetD)
      then show ?thesis using clean_comps_loc [of p] by (auto simp: clean_comps_def)
    qed (rule fs_okD(9) [OF ok])
  qed (use fs_okD [OF ok] gm_ok_add_dirs in \<open>auto simp: ino D\<close>)
  moreover have "is_dir ?t (loc_of p)"
    by (cases "snd (loc_of p) = []") (simp add: is_dir_def, simp add: D path_prefixes_iff)
  ultimately show ?thesis using that [of ?t] ino D by simp
qed

text \<open>
  What may change under any faults: \<open>leaves L s t\<close> says that from \<open>s\<close> to \<open>t\<close> the names outside
  \<open>L\<close> kept their files, and the files that existed kept their text.
\<close>

definition leaves :: "loc set \<Rightarrow> file_system \<Rightarrow> file_system \<Rightarrow> bool" where
  "leaves L s t \<longleftrightarrow> fs_ok t \<and> fs_next s \<le> fs_next t \<and>
     (\<forall>l. l \<notin> L \<longrightarrow> inode_at t l = inode_at s l) \<and> (\<forall>i < fs_next s. fs_data t i = fs_data s i)"

lemma leaves_fs_ok: "leaves L s t \<Longrightarrow> fs_ok t"
  by (simp add: leaves_def)

lemma leaves_inode: "leaves L s t \<Longrightarrow> l \<notin> L \<Longrightarrow> inode_at t l = inode_at s l"
  unfolding leaves_def by blast

lemma leaves_refl: "fs_ok s \<Longrightarrow> leaves L s s"
  by (simp add: leaves_def)

lemma leaves_trans: "leaves L s t \<Longrightarrow> leaves L t u \<Longrightarrow> leaves L s u"
  unfolding leaves_def by (metis order_less_le_trans order_trans)

lemma leaves_content: "leaves L s t \<Longrightarrow> fs_ok s \<Longrightarrow> l \<notin> L \<Longrightarrow> content t l = content s l"
proof -
  assume "leaves L s t" and ok: "fs_ok s" and "l \<notin> L"
  then have "inode_at t l = inode_at s l" and "\<forall>i < fs_next s. fs_data t i = fs_data s i"
    unfolding leaves_def by blast+
  then show ?thesis using fs_okD(3) [OF ok, of l] by (simp add: content_def split: option.split)
qed

lemma leaves_Close: "fs_ok s \<Longrightarrow> leaves L s (snd (file_Close sys h s))"
proof -
  assume ok: "fs_ok s"
  let ?t = "s\<lparr>fs_handles := (fs_handles s)[h := (fs_handles s ! h)\<lparr>fh_open := False\<rparr>]\<rparr>"
  have "leaves L s ?t" if "handle_open s h"
  proof -
    have "fs_ok ?t"
      by (rule fs_ok_same [OF ok])
        (use that fs_okD(8) [OF ok] set_update_subset_insert [of "fs_handles s" h] in
          \<open>fastforce simp: handle_open_def\<close>)+
    then show ?thesis by (simp add: leaves_def)
  qed
  then show ?thesis using leaves_refl [OF ok] by (simp add: file_Close_def)
qed

lemma leaves_Rename:
  assumes ok: "fs_ok s" and "loc_of p \<in> L" "loc_of q \<in> L" and "plain_name (last (snd (loc_of q)))"
  shows "leaves L s (snd (os_Rename sys p q s))"
proof -
  have "leaves L s (renamed (loc_of p) (loc_of q) i s)"
    if "inode_at s (loc_of p) = Some i" "\<not> is_dir s (loc_of q)" "is_dir s (parent (loc_of q))" for i
    using fs_ok_renamed [OF ok that assms(4)] assms(2,3) by (auto simp: leaves_def inode_at_renamed)
  then show ?thesis using leaves_refl [OF ok]
    by (auto simp: os_Rename_def renamed_def split: option.split)
qed

lemma leaves_new_handle:
  assumes "leaves L s t" and "i < fs_next t"
  shows "leaves L s (snd (new_handle p i t))"
proof -
  have "fs_ok (snd (new_handle p i t))"
    by (rule fs_ok_same [of t]) (use assms fs_okD(8) [of t] in \<open>auto simp: new_handle_def leaves_def\<close>)
  then show ?thesis using assms by (simp add: leaves_def new_handle_def)
qed

lemma leaves_OpenAppend:
  assumes ok: "fs_ok s" and "loc_of p \<in> L" and "plain_name (last (snd (loc_of p)))"
  shows "leaves L s (snd (os_OpenAppend sys p m s))"
proof -
  have "leaves L s (new_file (loc_of p) m s)"
    if "\<not> is_dir s (loc_of p)" "is_dir s (parent (loc_of p))"
    using fs_ok_new_file [OF ok that assms(3)] assms(2) by (auto simp: leaves_def inode_at_new_file)
  moreover have "leaves L s (snd (new_handle p i s))" if "inode_at s (loc_of p) = Some i" for i
    by (rule leaves_new_handle [OF leaves_refl [OF ok] fs_okD(3) [OF ok that]])
  ultimately show ?thesis using leaves_refl [OF ok]
    by (auto simp: os_OpenAppend_def Let_def intro: leaves_new_handle split: option.split)
qed

lemma leaves_Remove:
  assumes ok: "fs_ok s" and "loc_of p \<in> L"
  shows "leaves L s (snd (os_Remove sys p s))"
proof -
  have "leaves L s (s\<lparr>fs_files := AList.delete (loc_of p) (fs_files s)\<rparr>)"
    using fs_ok_deleted [OF ok, of "loc_of p"] assms(2) by (auto simp: leaves_def inode_at_deleted)
  moreover have "leaves L s (s\<lparr>fs_dirs := AList.delete (loc_of p) (fs_dirs s)\<rparr>)"
    if empty: "children s (loc_of p) = []"
  proof -
    let ?t = "s\<lparr>fs_dirs := AList.delete (loc_of p) (fs_dirs s)\<rparr>"
    have dir: "is_dir ?t k \<longleftrightarrow> is_dir s k \<and> (k \<noteq> loc_of p \<or> snd k = [])" for k
      by (auto simp: is_dir_def delete_conv')
    have "parent l \<noteq> loc_of p" if "inode_at s l = Some i" for l i
      using empty that fs_okD(4) [OF ok that] children_iff [of l s "loc_of p"] by (auto simp: is_dir_def)
    then have "fs_ok ?t"
      by (intro fs_okI) (use fs_okD [OF ok] in \<open>auto simp: dir gm.ok_del delete_conv' split: if_splits\<close>)
    then show ?thesis by (simp add: leaves_def)
  qed
  ultimately show ?thesis using leaves_refl [OF ok]
    by (auto simp: os_Remove_def Let_def split: option.split)
qed

end
