(* ===== verification/Logger.thy ===== *)
theory Logger
  imports Files Go_Time
begin

text \<open>
  \<open>internal/infrastructure/logger/logger.go\<close>: the package state of the logger, its set-up, the
  log file with its rotation and the removal of old backups. \<open>logrus\<close> is a parameter: how it reads
  a level, which levels pass, and the line it renders for an entry; its output is what the code
  sets, or the one a new logger has (\<open>DefaultOut\<close>). The environment of a call is a record: the
  faults of the system, whether standard output fails, the time zone.

  What the functions do to the log as a whole is in \<open>Log_File\<close>; their interleaving is in
  \<open>Log_System\<close>.
\<close>

section \<open>The package state\<close>

record log_config =
  Level :: string
  FilePath :: string
  MaxSize :: int
  MaxBackups :: int

datatype log_out = DefaultOut | Stdout | StdoutAnd handle

datatype log_format = DefaultFormat | JSONFormat string bool

record 'v logrus =
  lr_level :: 'v
  lr_format :: log_format
  lr_out :: log_out

record 'v logrus_lib =
  ParseLevel :: "string \<Rightarrow> 'v option"
  DebugLevel :: 'v
  InfoLevel :: 'v
  WarnLevel :: 'v
  ErrorLevel :: 'v
  FatalLevel :: 'v
  level_enabled :: "'v \<Rightarrow> 'v \<Rightarrow> bool"
  render :: "log_format \<Rightarrow> 'v \<Rightarrow> string \<Rightarrow> string"

definition logrus_New :: "'v logrus_lib \<Rightarrow> 'v logrus" where
  "logrus_New lib = \<lparr>lr_level = InfoLevel lib, lr_format = DefaultFormat, lr_out = DefaultOut\<rparr>"

text \<open>
  \<open>lg_stop\<close>: \<open>stopChan\<close> is not \<open>nil\<close>. \<open>lg_monitors\<close>: the goroutines that run
  \<open>monitorLogRotation\<close>, with their configuration. The two last fields hold what was written to
  standard output and to the default output of \<open>logrus\<close>.
\<close>

record 'v log_state =
  lg_instance :: "'v logrus option"
  lg_once :: bool
  lg_file :: "handle option"
  lg_stop :: bool
  lg_monitors :: "log_config list"
  lg_fs :: file_system
  lg_stdout :: string
  lg_default :: string

definition log_start :: "file_system \<Rightarrow> 'v log_state" where
  "log_start s = \<lparr>lg_instance = None, lg_once = False, lg_file = None, lg_stop = False,
     lg_monitors = [], lg_fs = s, lg_stdout = [], lg_default = []\<rparr>"

record log_env =
  le_sys :: sys
  le_stdout :: "string go_error"
  le_zone :: "time \<Rightarrow> int"
  le_test :: bool

definition set_out :: "log_out \<Rightarrow> 'v log_state \<Rightarrow> 'v log_state" where
  "set_out out st = st\<lparr>lg_instance := map_option (lr_out_update (\<lambda>_. out)) (lg_instance st)\<rparr>"

section \<open>Setting up\<close>

definition isRunningInTest :: "string list \<Rightarrow> (string \<Rightarrow> string) \<Rightarrow> bool" where
  "isRunningInTest args E \<longleftrightarrow>
     list_ex (\<lambda>arg. str_contains ''.test'' arg \<or> str_contains ''go-build'' arg \<or>
       str_contains ''_test'' arg \<or> str_contains ''bazel-out'' arg) args \<or>
     E ''GO_TEST_DISABLE_MONITORING'' = ''1''"

definition openLogFile :: "sys \<Rightarrow> string \<Rightarrow> file_system \<Rightarrow> (string + handle) \<times> file_system" where
  "openLogFile sys p s =
     (case os_OpenAppend sys p (octal 6 0 0) s of
        (Inl e, s) \<Rightarrow> (Inl (''failed to open log file: '' @ e), s)
      | (Inr h, s) \<Rightarrow> (Inr h, s))"

definition setupFileOutput :: "log_env \<Rightarrow> log_config \<Rightarrow> 'v log_state \<Rightarrow>
    string go_error \<times> 'v log_state" where
  "setupFileOutput env cfg st =
     (case os_MkdirAll (le_sys env) (Dir (FilePath cfg)) (octal 7 5 0) (lg_fs st) of
        (Some e, s) \<Rightarrow> (Some (''failed to create log directory: '' @ e), st\<lparr>lg_fs := s\<rparr>)
      | (None, s) \<Rightarrow>
          (case openLogFile (le_sys env) (FilePath cfg) s of
             (Inl e, s) \<Rightarrow>
               (Some (''failed to open log file: '' @ e), st\<lparr>lg_fs := s, lg_file := None\<rparr>)
           | (Inr h, s) \<Rightarrow>
               (None,
                let st = st\<lparr>lg_fs := s, lg_file := Some h\<rparr>
                in if MaxSize cfg > 0 \<and> \<not> le_test env
                   then st\<lparr>lg_stop := True, lg_monitors := cfg # lg_monitors st\<rparr> else st)))"

definition parse_level :: "'v logrus_lib \<Rightarrow> string \<Rightarrow> 'v" where
  "parse_level lib s = (case ParseLevel lib s of Some v \<Rightarrow> v | None \<Rightarrow> InfoLevel lib)"

definition json_format :: log_format where
  "json_format = JSONFormat ''2006-01-02T15:04:05Z07:00'' False"

definition Initialize :: "'v logrus_lib \<Rightarrow> log_env \<Rightarrow> log_config \<Rightarrow> 'v log_state \<Rightarrow>
    string go_error \<times> 'v log_state" where
  "Initialize lib env cfg st =
     (if lg_once st then (None, st)
      else
        let inst = (logrus_New lib)\<lparr>lr_level := parse_level lib (Level cfg), lr_format := json_format\<rparr>;
            st = st\<lparr>lg_once := True, lg_instance := Some inst\<rparr>
        in if FilePath cfg \<noteq> [] then
             (case setupFileOutput env cfg st of
                (None, st) \<Rightarrow>
                  (None, case lg_file st of Some h \<Rightarrow> set_out (StdoutAnd h) st | None \<Rightarrow> st)
              | (Some e, st) \<Rightarrow> (Some e, st))
           else (None, set_out Stdout st))"

definition fallback_config :: log_config where
  "fallback_config = \<lparr>Level = ''info'', FilePath = [], MaxSize = 10 * 1024 * 1024, MaxBackups = 5\<rparr>"

definition Get :: "'v logrus_lib \<Rightarrow> log_env \<Rightarrow> 'v log_state \<Rightarrow> 'v log_state" where
  "Get lib env st =
     (if lg_instance st = None then
        (case Initialize lib env fallback_config st of
           (None, st) \<Rightarrow> st
         | (Some e, st) \<Rightarrow> st\<lparr>lg_instance := Some (logrus_New lib)\<rparr>)
      else st)"

section \<open>Logging\<close>

text \<open>
  One \<open>Write\<close> to the logger's output. \<open>io.MultiWriter\<close> stops at the first writer that fails;
  what \<open>logrus\<close> does with the error (a line on standard error) is not modelled.
\<close>

definition out_write :: "log_env \<Rightarrow> handle option \<Rightarrow> string \<Rightarrow> file_system \<Rightarrow>
    string go_error \<times> string \<times> file_system" where
  "out_write env f d s =
     (case le_stdout env of
        Some e \<Rightarrow> (Some e, [], s)
      | None \<Rightarrow>
          (case f of
             None \<Rightarrow> (None, d, s)
           | Some h \<Rightarrow> (case file_Write (le_sys env) h d s of (e, s) \<Rightarrow> (e, d, s))))"

fun out_file :: "log_out \<Rightarrow> handle option" where
  "out_file (StdoutAnd h) = Some h"
| "out_file out = None"

definition write_out :: "log_env \<Rightarrow> log_out \<Rightarrow> string \<Rightarrow> 'v log_state \<Rightarrow>
    string go_error \<times> 'v log_state" where
  "write_out env out d st =
     (if out = DefaultOut then (None, st\<lparr>lg_default := lg_default st @ d\<rparr>)
      else (case out_write env (out_file out) d (lg_fs st) of
              (e, x, s) \<Rightarrow> (e, st\<lparr>lg_stdout := lg_stdout st @ x, lg_fs := s\<rparr>)))"

datatype log_call = DebugCall | InfoCall | WarnCall | ErrorCall | FatalCall

primrec call_level :: "'v logrus_lib \<Rightarrow> log_call \<Rightarrow> 'v" where
  "call_level lib DebugCall = DebugLevel lib"
| "call_level lib InfoCall = InfoLevel lib"
| "call_level lib WarnCall = WarnLevel lib"
| "call_level lib ErrorCall = ErrorLevel lib"
| "call_level lib FatalCall = FatalLevel lib"

text \<open>
  \<open>Debug(args...)\<close> to \<open>Fatalf(format, args...)\<close>, with the text of the message; the result says
  whether the program exits.
\<close>

definition log_message :: "'v logrus_lib \<Rightarrow> log_env \<Rightarrow> log_call \<Rightarrow> string \<Rightarrow> 'v log_state \<Rightarrow>
    bool \<times> 'v log_state" where
  "log_message lib env c msg st =
     (let st = Get lib env st in
      case lg_instance st of
        None \<Rightarrow> (False, st)
      | Some lr \<Rightarrow>
          let lvl = call_level lib c in
          (c = FatalCall,
           if level_enabled lib (lr_level lr) lvl
           then snd (write_out env (lr_out lr) (render lib (lr_format lr) lvl msg) st) else st))"

text \<open>An entry of \<open>logrus\<close>: the fields it was made with, for the logger of the package.\<close>

type_synonym log_fields = "(string, string) gomap"

definition WithFields :: "'v logrus_lib \<Rightarrow> log_env \<Rightarrow> log_fields \<Rightarrow> 'v log_state \<Rightarrow>
    log_fields \<times> 'v log_state" where
  "WithFields lib env fs st = (fs, Get lib env st)"

definition WithField :: "'v logrus_lib \<Rightarrow> log_env \<Rightarrow> string \<Rightarrow> string \<Rightarrow> 'v log_state \<Rightarrow>
    log_fields \<times> 'v log_state" where
  "WithField lib env key val st = WithFields lib env [(key, val)] st"

section \<open>Rotation\<close>

text \<open>\<open>Inl\<close> is a panic: an index out of range.\<close>

datatype log_panic = IndexOutOfRange

definition is_backup :: "string \<Rightarrow> string \<Rightarrow> bool" where
  "is_backup base n \<longleftrightarrow>
     length n > length base \<and> take (length base) n = base \<and> n \<noteq> base"

definition remove_names :: "sys \<Rightarrow> string \<Rightarrow> string list \<Rightarrow> file_system \<Rightarrow> file_system" where
  "remove_names sys dir ns s = fold (\<lambda>n s. snd (os_Remove sys (Join [dir, n]) s)) ns s"

definition cleanOldBackups :: "sys \<Rightarrow> log_config \<Rightarrow> file_system \<Rightarrow> log_panic + file_system" where
  "cleanOldBackups sys cfg s =
     (let dir = Dir (FilePath cfg); base = Base (FilePath cfg) in
      case os_ReadDir sys dir s of
        Inl e \<Rightarrow> Inr s
      | Inr files \<Rightarrow>
          let backups = filter (is_backup base) files in
          if int (length backups) > MaxBackups cfg then
            (if MaxBackups cfg < 0 then Inl IndexOutOfRange
             else Inr (remove_names sys dir (take (length backups - nat (MaxBackups cfg)) backups) s))
          else Inr s)"

definition backup_path :: "log_config \<Rightarrow> string \<Rightarrow> string" where
  "backup_path cfg stamp = FilePath cfg @ ''.'' @ stamp"

text \<open>The four parts of \<open>rotateLog\<close>; a line logged by another goroutine can fall between them.\<close>

definition rot_close :: "log_env \<Rightarrow> handle \<Rightarrow> 'v log_state \<Rightarrow> 'v log_state" where
  "rot_close env h st = st\<lparr>lg_fs := snd (file_Close (le_sys env) h (lg_fs st))\<rparr>"

definition rot_rename :: "log_env \<Rightarrow> log_config \<Rightarrow> time \<Rightarrow> 'v log_state \<Rightarrow> 'v log_state" where
  "rot_rename env cfg now st =
     st\<lparr>lg_fs := snd (os_Rename (le_sys env) (FilePath cfg)
          (backup_path cfg (time_stamp (le_zone env) now)) (lg_fs st))\<rparr>"

definition rot_reopen :: "log_env \<Rightarrow> log_config \<Rightarrow> 'v log_state \<Rightarrow> 'v log_state" where
  "rot_reopen env cfg st =
     (case openLogFile (le_sys env) (FilePath cfg) (lg_fs st) of
        (Inr h, s) \<Rightarrow> set_out (StdoutAnd h) (st\<lparr>lg_fs := s, lg_file := Some h\<rparr>)
      | (Inl e, s) \<Rightarrow> set_out Stdout (st\<lparr>lg_fs := s, lg_file := None\<rparr>))"

definition rot_clean :: "log_env \<Rightarrow> log_config \<Rightarrow> 'v log_state \<Rightarrow> log_panic + 'v log_state" where
  "rot_clean env cfg st =
     (case cleanOldBackups (le_sys env) cfg (lg_fs st) of
        Inl p \<Rightarrow> Inl p
      | Inr s \<Rightarrow> Inr (st\<lparr>lg_fs := s\<rparr>))"

definition rotateLog :: "log_env \<Rightarrow> log_config \<Rightarrow> time \<Rightarrow> 'v log_state \<Rightarrow>
    log_panic + 'v log_state" where
  "rotateLog env cfg now st =
     (case lg_file st of
        None \<Rightarrow> Inr st
      | Some h \<Rightarrow> rot_clean env cfg (rot_reopen env cfg (rot_rename env cfg now (rot_close env h st))))"

text \<open>What one tick of \<open>monitorLogRotation\<close> does under the lock.\<close>

definition monitor_tick :: "log_env \<Rightarrow> log_config \<Rightarrow> time \<Rightarrow> 'v log_state \<Rightarrow>
    log_panic + 'v log_state" where
  "monitor_tick env cfg now st =
     (case lg_file st of
        None \<Rightarrow> Inr st
      | Some h \<Rightarrow>
          (case file_Size (le_sys env) h (lg_fs st) of
             Inl e \<Rightarrow> Inr st
           | Inr n \<Rightarrow> if n > MaxSize cfg then rotateLog env cfg now st else Inr st))"

text \<open>\<open>Close\<close>: stop the monitor and wait for it, then close the file.\<close>

definition close_stop :: "'v log_state \<Rightarrow> 'v log_state" where
  "close_stop st = (if lg_stop st then st\<lparr>lg_monitors := []\<rparr> else st)"

definition close_file :: "log_env \<Rightarrow> 'v log_state \<Rightarrow> 'v log_state" where
  "close_file env st =
     (let st = (case lg_file st of
                  None \<Rightarrow> st
                | Some h \<Rightarrow>
                    let st = set_out Stdout st
                    in st\<lparr>lg_fs := snd (file_Close (le_sys env) h (lg_fs st)), lg_file := None\<rparr>)
      in st\<lparr>lg_stop := False, lg_once := False\<rparr>)"

definition Close :: "log_env \<Rightarrow> 'v log_state \<Rightarrow> 'v log_state" where
  "Close env st = close_file env (close_stop st)"

end
