(* ===== verification/Server.thy ===== *)
theory Server
  imports Webhook_Handler Rate_Limiter Setup Logger
begin

text \<open>
  How the service starts and what it serves: \<open>internal/infrastructure/config\<close> (\<open>config.go\<close>,
  \<open>tls.go\<close>) and \<open>cmd/cloud-update/main.go\<close>. The environment is a function from names to values
  (empty where unset). \<open>main_run\<close> ends where the server starts to listen, with the lines it
  has logged about it; \<open>serve\<close> is one request to the routes it registered.

  Lemmas: what holds whenever the service listens, and what its TLS settings come to.
\<close>

section \<open>Configuration (config.go)\<close>

type_synonym getenv = "string \<Rightarrow> string"

record config =
  Port :: string
  Secret :: string
  LogLevel :: string
  LogFilePath :: string

definition getEnvOrDefault :: "getenv \<Rightarrow> string \<Rightarrow> string \<Rightarrow> string" where
  "getEnvOrDefault E key defaultValue = (if E key \<noteq> [] then E key else defaultValue)"

text \<open>\<open>Inl\<close> is \<open>log.Fatal\<close>.\<close>

definition Load :: "getenv \<Rightarrow> string + config" where
  "Load E =
     (let config =
        \<lparr>Port = getEnvOrDefault E ''CLOUD_UPDATE_PORT'' ''9999'',
         Secret = getEnvOrDefault E ''CLOUD_UPDATE_SECRET'' [],
         LogLevel = getEnvOrDefault E ''CLOUD_UPDATE_LOG_LEVEL'' ''info'',
         LogFilePath = getEnvOrDefault E ''CLOUD_UPDATE_LOG_FILE''
           ''/var/log/cloud-update/cloud-update.log''\<rparr>
      in if Secret config = [] then Inl ''CLOUD_UPDATE_SECRET environment variable is required''
         else Inr config)"

section \<open>TLS (tls.go)\<close>

record TLSConfig =
  Enabled :: bool
  CertFile :: string
  KeyFile :: string
  Auto :: bool
  Domain :: string

definition LoadTLSConfig :: "getenv \<Rightarrow> TLSConfig" where
  "LoadTLSConfig E =
     (let cfg = \<lparr>Enabled = (E ''CLOUD_UPDATE_TLS_ENABLED'' = ''true''),
                 CertFile = E ''CLOUD_UPDATE_TLS_CERT'', KeyFile = E ''CLOUD_UPDATE_TLS_KEY'',
                 Auto = (E ''CLOUD_UPDATE_TLS_AUTO'' = ''true''), Domain = E ''CLOUD_UPDATE_DOMAIN''\<rparr>;
          cfg = (if Enabled cfg \<and> \<not> Auto cfg
                 then cfg\<lparr>CertFile := (if CertFile cfg = [] then ''/etc/cloud-update/tls/cert.pem''
                                       else CertFile cfg),
                          KeyFile := (if KeyFile cfg = [] then ''/etc/cloud-update/tls/key.pem''
                                      else KeyFile cfg)\<rparr>
                 else cfg)
      in if Enabled cfg \<and> Auto cfg then cfg\<lparr>CertFile := [], KeyFile := []\<rparr> else cfg)"

text \<open>
  The files: whether \<open>os.Stat\<close> succeeds, and what \<open>tls.LoadX509KeyPair\<close> makes of two of them.
\<close>

record 'c tls_files =
  stat_ok :: "string \<Rightarrow> bool"
  LoadX509KeyPair :: "string \<Rightarrow> string \<Rightarrow> string + 'c"

definition Validate :: "'c tls_files \<Rightarrow> TLSConfig \<Rightarrow> string go_error" where
  "Validate files c =
     (if \<not> Enabled c then None
      else if Auto c then
        (if Domain c = [] then Some ''domain required for automatic TLS certificates'' else None)
      else if CertFile c = [] \<or> KeyFile c = []
      then Some ''cert and key files required when TLS is enabled''
      else if \<not> stat_ok files (CertFile c) then Some (''certificate file not found: '' @ CertFile c)
      else if \<not> stat_ok files (KeyFile c) then Some (''key file not found: '' @ KeyFile c)
      else None)"

record 'c server_tls =
  Certificate :: 'c
  MinVersion :: "16 word"
  CipherSuites :: "16 word list"
  PreferServerCipherSuites :: bool
  CurvePreferences :: "16 word list"

definition VersionTLS12 :: "16 word" where "VersionTLS12 = 0x0303"

text \<open>The cipher suites by their numbers, in the order of the source; X25519 and P-256.\<close>

definition GetTLSConfig :: "'c tls_files \<Rightarrow> TLSConfig \<Rightarrow> string + 'c server_tls option" where
  "GetTLSConfig files c =
     (if \<not> Enabled c \<or> Auto c then Inr None
      else (case LoadX509KeyPair files (CertFile c) (KeyFile c) of
              Inl e \<Rightarrow> Inl (''failed to load TLS certificates: '' @ e)
            | Inr cert \<Rightarrow> Inr (Some
                \<lparr>Certificate = cert, MinVersion = VersionTLS12,
                 CipherSuites = [0xc030, 0xcca8, 0xc02c, 0xcca9, 0xc02f, 0xc02b],
                 PreferServerCipherSuites = True, CurvePreferences = [29, 23]\<rparr>)))"

section \<open>The command line (console.go, version.go)\<close>

text \<open>
  \<open>fmt.Print\<close>, \<open>Println\<close> and \<open>Printf\<close> on strings; in a format, the verbs \<open>%s\<close>, \<open>%v\<close> and \<open>%%\<close>
  without flags, and what \<open>fmt\<close> prints for a wrong verb or number of operands.
\<close>

definition console_Print :: "string list \<Rightarrow> string" where
  "console_Print args = concat args"

definition console_Println :: "string list \<Rightarrow> string" where
  "console_Println args = str_join '' '' args @ [CHR 0x0A]"

fun console_Printf :: "string \<Rightarrow> string list \<Rightarrow> string" where
  "console_Printf [] [] = []"
| "console_Printf [] (a # args) =
     ''%!(EXTRA '' @ str_join '', '' (map (\<lambda>x. ''string='' @ x) (a # args)) @ '')''"
| "console_Printf [c] args = (if c = CHR ''%'' then ''%!(NOVERB)'' else [c]) @ console_Printf [] args"
| "console_Printf (c # v # fmt) args =
     (if c \<noteq> CHR ''%'' then c # console_Printf (v # fmt) args
      else if v = CHR ''%'' then CHR ''%'' # console_Printf fmt args
      else (case args of
              [] \<Rightarrow> ''%!'' @ [v] @ ''(MISSING)'' @ console_Printf fmt []
            | a # args \<Rightarrow>
                (if v = CHR ''s'' \<or> v = CHR ''v'' then a else ''%!'' @ [v] @ ''(string='' @ a @ '')'') @
                console_Printf fmt args))"

lemma console_Printf_sample:
  "console_Printf ''%s is 100%%, %v'' [''it'', ''yes''] = ''it is 100%, yes''"
  "console_Printf ''%s'' [] = ''%!s(MISSING)''"
  by simp_all

text \<open>What is known of the build: the variables of the package and of Go's \<open>runtime\<close>.\<close>

record build_info =
  Version :: string
  Commit :: string
  Date :: string
  runtime_Version :: string
  runtime_GOOS :: string
  runtime_GOARCH :: string

definition GetFullVersion :: "build_info \<Rightarrow> string" where
  "GetFullVersion v =
     ''cloud-update '' @ Version v @ '' ('' @ Commit v @ '') built on '' @ Date v @ '' with '' @
     runtime_Version v @ '' for '' @ runtime_GOOS v @ ''/'' @ runtime_GOARCH v"

definition GetShortVersion :: "build_info \<Rightarrow> string" where
  "GetShortVersion v = Version v"

definition printHelp :: string where
  "printHelp = concat (map (\<lambda>l. console_Println (if l = [] then [] else [l]))
     [''Cloud Update Service'', [], ''Usage:'', ''  cloud-update [options]'', [], ''Options:'',
      ''  --version     Show version information'', ''  --help        Show this help message'',
      ''  --setup       Install service on the system'',
      ''  --uninstall   Uninstall service from the system'', [], ''Environment Variables:'',
      ''  CLOUD_UPDATE_PORT       Port to listen on (default: 9999)'',
      ''  CLOUD_UPDATE_SECRET     HMAC secret for webhook authentication (required)'',
      ''  CLOUD_UPDATE_LOG_LEVEL  Log level: debug, info, warn, error (default: info)'', [],
      ''Service Control:'', ''  systemctl start cloud-update    # Start service'',
      ''  systemctl stop cloud-update     # Stop service'',
      ''  systemctl status cloud-update   # Check status'',
      ''  journalctl -u cloud-update -f   # View logs''])"

section \<open>The directory for certificates (tls.go)\<close>

definition GenerateSelfSignedCert :: "string \<Rightarrow> string \<Rightarrow> string list \<Rightarrow> string go_error" where
  "GenerateSelfSignedCert c k hosts =
     Some ''use 'openssl' or 'mkcert' to generate self-signed certificates for development''"

definition tls_readme :: string where
  "tls_readme = str_join [CHR 0x0A]
     [''# TLS Certificate Directory'', [], ''Place your TLS certificates in this directory:'', [],
      ''- cert.pem: The server certificate'', ''- key.pem: The private key'', [],
      ''## Generate Self-Signed Certificate (Development)'', [],
      [CHR 0x60, CHR 0x60, CHR 0x60] @ ''bash'',
      ''openssl req -x509 -newkey rsa:4096 -keyout key.pem -out cert.pem -days 365 -nodes '' @ [CHR 0x5C],
      ''  -subj '' @ [CHR 0x22] @ ''/C=US/ST=State/L=City/O=Organization/CN=localhost'' @ [CHR 0x22],
      [CHR 0x60, CHR 0x60, CHR 0x60], [], ''## Production Certificates'', [],
      ''For production, use certificates from a trusted CA or Let's Encrypt.'', [],
      ''Enable automatic certificates with:'', ''- CLOUD_UPDATE_TLS_AUTO=true'',
      ''- CLOUD_UPDATE_DOMAIN=your-domain.com'', []]"

definition SetupCertificateDirectory :: "inst_env \<Rightarrow> inst_result" where
  "SetupCertificateDirectory os =
     (let tlsDir = ''/etc/cloud-update/tls'' in
      or_return
        (wrap_err (\<lambda>e. ''failed to create TLS directory: '' @ e)
           (step_err os (MkdirAll tlsDir (octal 7 0 0))))
        (wrap_err (\<lambda>e. ''failed to create README: '' @ e)
           (step_err os (WriteFile (path_join tlsDir ''README.md'') tls_readme (octal 6 0 0)))))"

section \<open>Starting (main.go)\<close>

record flags =
  showVersion :: bool
  showHelp :: bool
  runSetup :: bool
  runUninstall :: bool

text \<open>
  The end of \<open>main\<close>, or the call in which it serves: with the address, and for HTTPS the
  certificate and key files.
\<close>

datatype main_outcome =
  Exit int | Fatal string | ListenAndServe string | ListenAndServeTLS string string string

definition announce :: "config \<Rightarrow> TLSConfig \<Rightarrow> string" where
  "announce cfg tls =
     ''Starting Cloud Update service on :'' @ Port cfg @ '' ('' @
     (if Enabled tls then ''HTTPS'' else ''HTTP'') @ '')''"

definition startup_lines :: "build_info \<Rightarrow> config \<Rightarrow> TLSConfig \<Rightarrow> string list" where
  "startup_lines v cfg tls =
     [announce cfg tls, ''Version: '' @ GetFullVersion v, ''Log level: '' @ LogLevel cfg,
      ''Log file: /var/log/cloud-update/cloud-update.log'', ''Rate limiting: 10 req/s, burst: 20'',
      ''Worker pool: 10 workers, 100 task backlog'']"

fun auth_error_text :: "auth_error \<Rightarrow> string" where
  "auth_error_text SecretEmpty = ''HMAC secret cannot be empty''"
| "auth_error_text SecretTooShort = ''HMAC secret must be at least 32 characters long for security''"

definition tls_warnings :: "'c tls_files \<Rightarrow> TLSConfig \<Rightarrow> string list" where
  "tls_warnings files tls =
     (case Validate files tls of
        None \<Rightarrow> []
      | Some e \<Rightarrow> [''TLS configuration error: '' @ e, ''Starting without TLS (HTTP only)''])"

definition configure_tls :: "'c tls_files \<Rightarrow> TLSConfig \<Rightarrow> string + 'c server_tls option" where
  "configure_tls files tls =
     (if Enabled tls \<and> \<not> Auto tls
      then (case GetTLSConfig files tls of
              Inl e \<Rightarrow> Inl (''Failed to configure TLS: '' @ e)
            | Inr c \<Rightarrow> Inr c)
      else Inr None)"

text \<open>The HTTP server that \<open>main\<close> builds.\<close>

record 'c http_server =
  hs_Addr :: string
  hs_ReadTimeout :: duration
  hs_WriteTimeout :: duration
  hs_IdleTimeout :: duration
  hs_ReadHeaderTimeout :: duration
  hs_MaxHeaderBytes :: int
  hs_TLSConfig :: "'c server_tls option"

definition make_server :: "config \<Rightarrow> 'c server_tls option \<Rightarrow> 'c http_server" where
  "make_server cfg tls =
     \<lparr>hs_Addr = '':'' @ Port cfg, hs_ReadTimeout = 15 * second, hs_WriteTimeout = 15 * second,
      hs_IdleTimeout = 60 * second, hs_ReadHeaderTimeout = 5 * second, hs_MaxHeaderBytes = 2 ^ 16,
      hs_TLSConfig = tls\<rparr>"

definition start_server :: "build_info \<Rightarrow> 'c tls_files \<Rightarrow> config \<Rightarrow> TLSConfig \<Rightarrow>
    string list \<times> main_outcome" where
  "start_server v files cfg tls =
     (let log = tls_warnings files tls @ startup_lines v cfg tls
      in case configure_tls files tls of
           Inl e \<Rightarrow> (log, Fatal e)
         | Inr tc \<Rightarrow>
             let server = make_server cfg tc in
             if Enabled tls then
               (if Auto tls
                then (log @ [''Automatic TLS certificate management not yet implemented'',
                             ''Starting with HTTP only''], ListenAndServe (hs_Addr server))
                else (log @ [''Starting HTTPS server with certificates from '' @ CertFile tls],
                      ListenAndServeTLS (hs_Addr server) (CertFile tls) (KeyFile tls)))
             else (log, ListenAndServe (hs_Addr server)))"

text \<open>
  What \<open>main\<close> starts with, and what it has done when it listens or ends: the text on standard
  output and error, the configuration it set the logger up with, and the lines it logged.
  \<open>me_setup\<close>, \<open>me_uninstall\<close> and \<open>me_logger\<close> are the results of \<open>Setup\<close>, \<open>Uninstall\<close> and
  \<open>logger.Initialize\<close>.
\<close>

record 'c main_env =
  me_flags :: flags
  me_build :: build_info
  me_setup :: "string go_error"
  me_uninstall :: "string go_error"
  me_logger :: "string go_error"
  me_files :: "'c tls_files"
  me_env :: getenv

record main_trace =
  mt_stdout :: string
  mt_stderr :: string
  mt_logger :: "log_config option"
  mt_log :: "string list"
  mt_end :: main_outcome

definition ended :: "string \<Rightarrow> string \<Rightarrow> main_outcome \<Rightarrow> main_trace" where
  "ended out err e =
     \<lparr>mt_stdout = out, mt_stderr = err, mt_logger = None, mt_log = [], mt_end = e\<rparr>"

definition installer_exit :: "string \<Rightarrow> string go_error \<Rightarrow> main_trace" where
  "installer_exit what res =
     (case res of
        None \<Rightarrow> ended [] [] (Exit 0)
      | Some e \<Rightarrow> ended [] (what @ '' failed: '' @ e @ [CHR 0x0A]) (Exit 1))"

definition main_log_config :: "config \<Rightarrow> log_config" where
  "main_log_config cfg =
     \<lparr>Level = LogLevel cfg, FilePath = LogFilePath cfg, MaxSize = 10 * 1024 * 1024, MaxBackups = 5\<rparr>"

definition main_run :: "'c main_env \<Rightarrow> main_trace" where
  "main_run m =
     (if showHelp (me_flags m) then ended printHelp [] (Exit 0)
      else if showVersion (me_flags m)
      then ended (console_Println [GetFullVersion (me_build m)]) [] (Exit 0)
      else if runSetup (me_flags m) then installer_exit ''Setup'' (me_setup m)
      else if runUninstall (me_flags m) then installer_exit ''Uninstall'' (me_uninstall m)
      else (case Load (me_env m) of
              Inl e \<Rightarrow> ended [] [] (Fatal e)
            | Inr cfg \<Rightarrow>
                let err = (case me_logger m of
                             None \<Rightarrow> []
                           | Some e \<Rightarrow> ''Failed to initialize logger: '' @ e @ [CHR 0x0A]);
                    started = (\<lambda>log fin. \<lparr>mt_stdout = [], mt_stderr = err,
                                 mt_logger = Some (main_log_config cfg), mt_log = log, mt_end = fin\<rparr>)
                in (case NewHMACAuthenticator (Secret cfg) of
                      Inl e \<Rightarrow>
                        started [] (Fatal (''Failed to initialize authenticator: '' @ auth_error_text e))
                    | Inr secret \<Rightarrow>
                        (case start_server (me_build m) (me_files m) cfg (LoadTLSConfig (me_env m)) of
                           (log, fin) \<Rightarrow> started log fin))))"

section \<open>Serving (main.go)\<close>

text \<open>
  The state behind the routes. A panic of a handler is caught by \<open>net/http\<close>, which drops the
  connection: there is no response then, the panic is recorded, and what the handler had done
  before it stays done.
\<close>

record 'l service =
  sv_limiter :: "'l rate_limiter"
  sv_handler :: webhook_handler
  sv_panics :: "go_panic list"

definition new_service :: "'l service" where
  "new_service = \<lparr>sv_limiter = NewRateLimiter DefaultConfig,
     sv_handler = NewWebhookHandlerWithPool (NewPool 10 100), sv_panics = []\<rparr>"

definition no_response :: http_response where
  "no_response = \<lparr>w_Status = 0, w_Headers = [], w_Body = Text []\<rparr>"

text \<open>The handler below the middleware; its state is the webhook handler and the panics.\<close>

definition webhook_next :: "webhook_env \<Rightarrow> http_request \<Rightarrow> webhook_handler \<times> go_panic list \<Rightarrow>
    http_response \<times> webhook_handler \<times> go_panic list" where
  "webhook_next env r st =
     (case st of (h, ps) \<Rightarrow>
        case HandleWebhook env r h of
          Inl (p, h') \<Rightarrow> (no_response, h', ps @ [p])
        | Inr (w, h') \<Rightarrow> (w, h', ps))"

record 'l request_env =
  re_lib :: "'l rate_lib"
  re_order :: map_order
  re_text :: go_lib
  re_now :: time
  re_now' :: time
  re_now3 :: time
  re_webhook :: webhook_env

text \<open>
  One request to a (cleaned) path: the three routes of \<open>main\<close>, of which only the webhook is
  rate limited; the default multiplexer answers 404 for any other path.
\<close>

definition serve :: "'l request_env \<Rightarrow> string \<Rightarrow> http_request \<Rightarrow> 'l service \<Rightarrow>
    http_response \<times> 'l service" where
  "serve e path r sv =
     (if path = ''/health'' then (HandleHealth (re_now e) r, sv)
      else if path = ''/webhook'' then
        (case MiddlewareFunc (re_lib e) (re_order e) (re_text e) (re_now e) (re_now' e) (re_now3 e)
                (webhook_next (re_webhook e)) r (sv_limiter sv, sv_handler sv, sv_panics sv) of
           (w, rl, h, ps) \<Rightarrow> (w, \<lparr>sv_limiter = rl, sv_handler = h, sv_panics = ps\<rparr>))
      else if path = ''/job/status'' then (HandleJobStatus r (h_jobStore (sv_handler sv)), sv)
      else (http_Error ''404 page not found'' StatusNotFound, sv))"

section \<open>Properties\<close>

text \<open>
  The service never listens without a proper secret. Whenever \<open>main\<close> gets to serve, by
  HTTP or HTTPS, no flag asked for something else and the secret has at least 32 bytes.
\<close>

theorem listening_needs_secret:
  assumes "mt_end (main_run m) \<in> range ListenAndServe \<or>
    (\<exists>a c k. mt_end (main_run m) = ListenAndServeTLS a c k)"
  shows "32 \<le> length (me_env m ''CLOUD_UPDATE_SECRET'') \<and> \<not> showHelp (me_flags m) \<and>
    \<not> showVersion (me_flags m) \<and> \<not> runSetup (me_flags m) \<and> \<not> runUninstall (me_flags m)"
  using assms
  by (auto simp: main_run_def ended_def installer_exit_def Load_def NewHMACAuthenticator_def
      getEnvOrDefault_def Let_def split: if_splits option.splits)

definition set_env :: "(string \<times> string) list \<Rightarrow> getenv" where
  "set_env kvs k = (case map_of kvs k of Some v \<Rightarrow> v | None \<Rightarrow> [])"

definition no_flags :: flags where
  "no_flags = \<lparr>showVersion = False, showHelp = False, runSetup = False, runUninstall = False\<rparr>"

definition no_certs :: "unit tls_files" where
  "no_certs = \<lparr>stat_ok = (\<lambda>p. False), LoadX509KeyPair = (\<lambda>c k. Inl ''no such file'')\<rparr>"

definition dev_build :: build_info where
  "dev_build = \<lparr>Version = ''dev'', Commit = ''unknown'', Date = ''unknown'',
     runtime_Version = ''go1.24'', runtime_GOOS = ''linux'', runtime_GOARCH = ''amd64''\<rparr>"

definition plain_main :: "getenv \<Rightarrow> unit main_env" where
  "plain_main E = \<lparr>me_flags = no_flags, me_build = dev_build, me_setup = None, me_uninstall = None,
     me_logger = None, me_files = no_certs, me_env = E\<rparr>"

lemmas start_eval = main_run_def Load_def NewHMACAuthenticator_def getEnvOrDefault_def
  set_env_def no_flags_def no_certs_def plain_main_def start_server_def configure_tls_def tls_warnings_def
  LoadTLSConfig_def Validate_def GetTLSConfig_def make_server_def Let_def

theorem listening_needs_secret_witness:
  "mt_end (main_run (plain_main (set_env [(''CLOUD_UPDATE_SECRET'', replicate 32 CHR ''x'')]))) =
     ListenAndServe '':9999''"
proof -
  let ?m = "plain_main (set_env [(''CLOUD_UPDATE_SECRET'', replicate 32 CHR ''x'')])"
  have run: "mt_end (main_run ?m) = ListenAndServe '':9999''"
    by (simp add: start_eval)
  moreover have "32 \<le> length (me_env ?m ''CLOUD_UPDATE_SECRET'')"
    using listening_needs_secret [of ?m] run by blast
  ultimately show ?thesis by blast
qed

text \<open>
  A wrong TLS setting does not fall back to HTTP. With TLS enabled and no automatic
  certificates, if the certificate or key is missing, the log says that the service starts
  without TLS, but it ends with a fatal error; it never listens in plain HTTP.
\<close>

theorem no_http_fallback:
  assumes tls: "E ''CLOUD_UPDATE_TLS_ENABLED'' = ''true''" "E ''CLOUD_UPDATE_TLS_AUTO'' \<noteq> ''true''"
    and cfg: "Load E = Inr cfg"
    and missing: "\<not> stat_ok files (CertFile (LoadTLSConfig E)) \<or> \<not> stat_ok files (KeyFile (LoadTLSConfig E))"
    and load: "\<And>c k. \<not> stat_ok files c \<or> \<not> stat_ok files k \<Longrightarrow> \<exists>e. LoadX509KeyPair files c k = Inl e"
  shows "\<exists>log e. start_server v files cfg (LoadTLSConfig E) = (log, Fatal e) \<and>
    ''Starting without TLS (HTTP only)'' \<in> set log"
proof -
  let ?c = "LoadTLSConfig E"
  have on: "Enabled ?c" "\<not> Auto ?c" "CertFile ?c \<noteq> []" "KeyFile ?c \<noteq> []"
    using tls by (simp_all add: LoadTLSConfig_def Let_def)
  obtain e where "LoadX509KeyPair files (CertFile ?c) (KeyFile ?c) = Inl e"
    using load missing by blast
  moreover have "\<exists>v. Validate files ?c = Some v" using on missing by (auto simp: Validate_def)
  ultimately show ?thesis
    using on by (auto simp: start_server_def configure_tls_def GetTLSConfig_def tls_warnings_def Let_def)
qed

theorem no_http_fallback_witness:
  "\<exists>log e. start_server dev_build no_certs \<lparr>Port = ''9999'', Secret = ''s'', LogLevel = ''info'',
       LogFilePath = ''/var/log/cloud-update/cloud-update.log''\<rparr>
     (LoadTLSConfig (set_env [(''CLOUD_UPDATE_SECRET'', ''s''), (''CLOUD_UPDATE_TLS_ENABLED'', ''true'')])) =
     (log, Fatal e)"
proof -
  let ?E = "set_env [(''CLOUD_UPDATE_SECRET'', ''s''), (''CLOUD_UPDATE_TLS_ENABLED'', ''true'')]"
  have "Load ?E = Inr \<lparr>Port = ''9999'', Secret = ''s'', LogLevel = ''info'',
       LogFilePath = ''/var/log/cloud-update/cloud-update.log''\<rparr>"
    by (simp add: Load_def getEnvOrDefault_def set_env_def Let_def)
  from no_http_fallback [OF _ _ this, of no_certs dev_build]
  show ?thesis by (auto simp: set_env_def no_certs_def)
qed

text \<open>
  Automatic TLS is plain HTTP. With TLS enabled in automatic mode the service announces
  HTTPS and listens without TLS, whatever the files and even without a domain.
\<close>

theorem auto_tls_is_plain_http:
  assumes "E ''CLOUD_UPDATE_TLS_ENABLED'' = ''true''" and "E ''CLOUD_UPDATE_TLS_AUTO'' = ''true''"
  shows "snd (start_server v files cfg (LoadTLSConfig E)) = ListenAndServe ('':'' @ Port cfg) \<and>
    ''Starting Cloud Update service on :'' @ Port cfg @ '' (HTTPS)'' \<in>
      set (fst (start_server v files cfg (LoadTLSConfig E)))"
  using assms by (simp add: start_server_def configure_tls_def LoadTLSConfig_def startup_lines_def announce_def
      make_server_def Let_def)

theorem auto_tls_is_plain_http_witness:
  "snd (start_server dev_build no_certs \<lparr>Port = ''443'', Secret = [], LogLevel = [], LogFilePath = []\<rparr>
     (LoadTLSConfig (set_env [(''CLOUD_UPDATE_TLS_ENABLED'', ''true''), (''CLOUD_UPDATE_TLS_AUTO'', ''true'')]))) =
   ListenAndServe '':443''"
  using auto_tls_is_plain_http [of "set_env [(''CLOUD_UPDATE_TLS_ENABLED'', ''true''),
      (''CLOUD_UPDATE_TLS_AUTO'', ''true'')]" dev_build no_certs
      "\<lparr>Port = ''443'', Secret = [], LogLevel = [], LogFilePath = []\<rparr>"]
  by (simp add: set_env_def)

end
