(* ===== verification/Log_File.thy ===== *)
theory Log_File
  imports Logger
begin

text \<open>
  The logger and its files: the log as the text of all backups and of the current file. A
  message extends it, a rotation keeps it but for the oldest part, and the removal of backups
  touches no other names. The functions are those of \<open>Logger\<close>; a run (\<open>log_run\<close>) is any
  sequence of messages and ticks of the monitor.
\<close>

section \<open>The log as a text\<close>

definition log_dir :: "log_config \<Rightarrow> loc" where
  "log_dir cfg = loc_of (Dir (FilePath cfg))"

definition log_loc :: "log_config \<Rightarrow> loc" where
  "log_loc cfg = below (log_dir cfg) (Base (FilePath cfg))"

text \<open>The backups in the order of their names, and everything that is kept of the log.\<close>

definition backups :: "log_config \<Rightarrow> file_system \<Rightarrow> string list" where
  "backups cfg s =
     sorted_list_of_set {n \<in> dir_names s (log_dir cfg). is_backup (Base (FilePath cfg)) n}"

definition backup_text :: "log_config \<Rightarrow> file_system \<Rightarrow> string \<Rightarrow> string" where
  "backup_text cfg s n = content s (below (log_dir cfg) n)"

definition log_text :: "log_config \<Rightarrow> file_system \<Rightarrow> string" where
  "log_text cfg s = concat (map (backup_text cfg s) (backups cfg s)) @ content s (log_loc cfg)"

text \<open>
  What the logger promises to keep, without files: the texts of the backups, oldest first, and
  the text of the current file. A line extends the current text; a tick that finds it too long
  makes it the newest backup and keeps the last \<open>MaxBackups\<close> of them.
\<close>

type_synonym kept_log = "string list \<times> string"

definition log_kept :: "log_config \<Rightarrow> file_system \<Rightarrow> kept_log" where
  "log_kept cfg s = (map (backup_text cfg s) (backups cfg s), content s (log_loc cfg))"

definition kept_rotate :: "log_config \<Rightarrow> kept_log \<Rightarrow> kept_log" where
  "kept_rotate cfg k =
     (drop (Suc (length (fst k)) - nat (MaxBackups cfg)) (fst k @ [snd k]), [])"

definition kept_tick :: "log_config \<Rightarrow> kept_log \<Rightarrow> kept_log" where
  "kept_tick cfg k = (if int (length (snd k)) > MaxSize cfg then kept_rotate cfg k else k)"

lemma log_text_kept: "log_text cfg s = concat (fst (log_kept cfg s)) @ snd (log_kept cfg s)"
  by (simp add: log_text_def log_kept_def)

lemma kept_tick_suffix:
  "suffix (concat (fst (kept_tick cfg k)) @ snd (kept_tick cfg k)) (concat (fst k) @ snd k)"
proof -
  let ?n = "Suc (length (fst k)) - nat (MaxBackups cfg)" and ?xs = "fst k @ [snd k]"
  have "concat ?xs = concat (take ?n ?xs) @ concat (drop ?n ?xs)"
    by (metis append_take_drop_id concat_append)
  then have "suffix (concat (drop ?n ?xs)) (concat ?xs)" by (rule suffixI)
  then show ?thesis by (simp add: kept_tick_def kept_rotate_def)
qed

lemma kept_tick_length:
  "length (fst (kept_tick cfg k)) \<le> max (nat (MaxBackups cfg)) (length (fst k))"
  by (auto simp: kept_tick_def kept_rotate_def)

text \<open>A place for the log: no directory has the name of a backup.\<close>

definition log_place :: "log_config \<Rightarrow> file_system \<Rightarrow> bool" where
  "log_place cfg s \<longleftrightarrow> file_path (FilePath cfg) \<and> fs_ok s \<and> is_dir s (log_dir cfg) \<and>
     (\<forall>n. is_backup (Base (FilePath cfg)) n \<longrightarrow> \<not> is_dir s (below (log_dir cfg) n))"

lemma backups_set:
  "set (backups cfg s) = {n \<in> dir_names s (log_dir cfg). is_backup (Base (FilePath cfg)) n}"
  by (simp add: backups_def)

lemma sorted_backups: "sorted_list_of_set (set (backups cfg s)) = backups cfg s"
  unfolding backups_set by (simp only: backups_def)

lemma distinct_backups [simp]: "distinct (backups cfg s)"
  by (simp add: backups_def)

lemma backups_file:
  assumes "log_place cfg s" and "n \<in> set (backups cfg s)"
  shows "\<exists>i. inode_at s (below (log_dir cfg) n) = Some i" and "plain_name n"
proof -
  show *: "\<exists>i. inode_at s (below (log_dir cfg) n) = Some i"
    using assms by (auto simp: backups_set dir_names_def log_place_def is_dir_def)
  then obtain i where "inode_at s (below (log_dir cfg) n) = Some i" by blast
  then show "plain_name n"
    using fs_okD(6) assms(1) by (fastforce simp: log_place_def)
qed

lemma backups_cong:
  assumes "\<And>n. is_backup (Base (FilePath cfg)) n \<Longrightarrow>
     n \<in> dir_names s (log_dir cfg) \<longleftrightarrow> n \<in> dir_names t (log_dir cfg)"
  shows "backups cfg s = backups cfg t"
  unfolding backups_def by (rule arg_cong [where f = sorted_list_of_set]) (use assms in blast)

lemma sorted_list_filter:
  assumes "finite A"
  shows "filter P (sorted_list_of_set A) = sorted_list_of_set {x \<in> A. P x}"
  by (rule sorted_distinct_set_unique) (use assms in \<open>auto intro: sorted_filter [where f = id, simplified]\<close>)

lemma sorted_list_insert_last:
  assumes "finite A" and "\<And>x. x \<in> A \<Longrightarrow> x < y"
  shows "sorted_list_of_set (insert y A) = sorted_list_of_set A @ [y]"
proof (rule sorted_distinct_set_unique)
  show "set (sorted_list_of_set (insert y A)) = set (sorted_list_of_set A @ [y])"
    using assms(1) by (simp only: set_sorted_list_of_set finite_insert) simp
  show "sorted (sorted_list_of_set A @ [y])" "distinct (sorted_list_of_set A @ [y])"
    using assms by (auto simp: sorted_append intro: less_imp_le)
qed (rule sorted_sorted_list_of_set distinct_sorted_list_of_set)+

text \<open>Of a sorted set, the last \<open>k\<close> elements are those with fewer than \<open>k\<close> above them.\<close>

lemma drop_sorted_iff:
  fixes A :: "('b :: linorder) set"
  assumes A: "finite A" and x: "x \<in> A"
  shows "x \<in> set (drop (length (sorted_list_of_set A) - k) (sorted_list_of_set A)) \<longleftrightarrow>
    card {y \<in> A. x < y} < k"
proof -
  let ?xs = "sorted_list_of_set A"
  have set: "set ?xs = A" using A by simp
  then obtain us vs where xs: "?xs = us @ x # vs" using x by (metis split_list)
  have srt: "sorted_wrt (<) ?xs" by (rule strict_sorted_list_of_set)
  have us: "\<forall>u \<in> set us. u < x" and vs: "\<forall>v \<in> set vs. x < v"
    using srt by (auto simp: xs sorted_wrt_append)
  have "{y \<in> A. x < y} = set vs"
    using set us vs unfolding xs by auto
  moreover have "distinct vs" using distinct_sorted_list_of_set [of A] unfolding xs by simp
  ultimately have card: "card {y \<in> A. x < y} = length vs" by (simp add: distinct_card)
  have "x \<notin> set vs" using vs by auto
  then have "x \<in> set (drop m (us @ x # vs)) \<longleftrightarrow> m \<le> length us" for m
    using us by (cases "m \<le> length us") (auto simp: drop_Cons' dest: in_set_dropD)
  then have "x \<in> set (drop (length ?xs - k) ?xs) \<longleftrightarrow> length ?xs - k \<le> length us"
    unfolding xs by blast
  then show ?thesis unfolding card xs by auto
qed

lemma sorted_list_drop:
  assumes "finite A"
  shows "sorted_list_of_set (A - set (take k (sorted_list_of_set A))) = drop k (sorted_list_of_set A)"
proof (rule sorted_distinct_set_unique)
  let ?xs = "sorted_list_of_set A"
  have "set (take k ?xs) \<inter> set (drop k ?xs) = {}" by (rule set_take_disj_set_drop_if_distinct) simp_all
  moreover have "set (take k ?xs) \<union> set (drop k ?xs) = A"
    using assms by (metis append_take_drop_id set_append sorted_list_of_set.set_sorted_key_list_of_set)
  ultimately show "set (sorted_list_of_set (A - set (take k ?xs))) = set (drop k ?xs)"
    using assms by auto
qed (simp_all add: sorted_wrt_drop distinct_drop)

section \<open>The removal of backups\<close>

text \<open>Without faults, and with a number of backups that is not negative.\<close>

definition surplus :: "log_config \<Rightarrow> file_system \<Rightarrow> string list" where
  "surplus cfg s = take (length (backups cfg s) - nat (MaxBackups cfg)) (backups cfg s)"

definition without :: "loc set \<Rightarrow> file_system \<Rightarrow> file_system \<Rightarrow> bool" where
  "without L s t \<longleftrightarrow> fs_dirs t = fs_dirs s \<and> fs_data t = fs_data s \<and> fs_mode t = fs_mode s \<and>
     fs_next t = fs_next s \<and> fs_handles t = fs_handles s \<and>
     inode_at t = (\<lambda>l. if l \<in> L then None else inode_at s l)"

lemma remove_names_ok:
  assumes "fs_ok s" and "d \<noteq> []" and "distinct ns"
    and "\<And>n. n \<in> set ns \<Longrightarrow> plain_name n \<and> inode_at s (below (loc_of d) n) \<noteq> None"
  shows "fs_ok (remove_names no_fault d ns s) \<and>
    without (below (loc_of d) ` set ns) s (remove_names no_fault d ns s)"
  using assms
proof (induction ns arbitrary: s)
  case Nil
  then show ?case by (simp add: remove_names_def without_def)
next
  case (Cons n ns)
  let ?t = "s\<lparr>fs_files := AList.delete (below (loc_of d) n) (fs_files s)\<rparr>"
  obtain i where i: "inode_at s (below (loc_of d) n) = Some i" and n: "plain_name n"
    using Cons.prems(4) [of n] by auto
  have "snd (os_Remove no_fault (Join [d, n]) s) = ?t"
    using os_Remove_file [of s "Join [d, n]" i] i
    by (simp add: loc_of_Join_below [OF Cons.prems(2) n])
  then have step: "remove_names no_fault d (n # ns) s = remove_names no_fault d ns ?t"
    by (simp add: remove_names_def)
  have "fs_ok (remove_names no_fault d ns ?t) \<and>
      without (below (loc_of d) ` set ns) ?t (remove_names no_fault d ns ?t)"
    by (rule Cons.IH) (use Cons.prems in \<open>auto simp: fs_ok_deleted inode_at_deleted\<close>)
  then show ?case unfolding step by (auto simp: without_def inode_at_deleted fun_eq_iff)
qed

lemma cleanOldBackups_ok:
  assumes place: "log_place cfg s" and max: "0 \<le> MaxBackups cfg"
  obtains t where "cleanOldBackups no_fault cfg s = Inr t" and "fs_ok t"
    and "without (below (log_dir cfg) ` set (surplus cfg s)) s t"
proof -
  have bk: "filter (is_backup (Base (FilePath cfg))) (sorted_list_of_set (dir_names s (log_dir cfg))) =
      backups cfg s"
    by (simp add: sorted_list_filter backups_def)
  have read: "os_ReadDir no_fault (Dir (FilePath cfg)) s =
      Inr (sorted_list_of_set (dir_names s (log_dir cfg)))"
    using place ReadDir_ok [of s "Dir (FilePath cfg)"] by (simp add: log_place_def log_dir_def)
  let ?t = "remove_names no_fault (Dir (FilePath cfg)) (surplus cfg s) s"
  have "fs_ok ?t \<and> without (below (log_dir cfg) ` set (surplus cfg s)) s ?t"
    unfolding log_dir_def
  proof (rule remove_names_ok)
    show "Dir (FilePath cfg) \<noteq> []" by (simp add: Dir_def)
    show "distinct (surplus cfg s)" by (simp add: surplus_def)
    show "plain_name n \<and> inode_at s (below (loc_of (Dir (FilePath cfg))) n) \<noteq> None"
      if "n \<in> set (surplus cfg s)" for n
      using backups_file [OF place, of n] that
      by (auto simp: surplus_def log_dir_def dest: in_set_takeD)
  qed (use place in \<open>simp add: log_place_def\<close>)
  moreover have "cleanOldBackups no_fault cfg s = Inr ?t"
    using max by (auto simp: cleanOldBackups_def read bk surplus_def Let_def remove_names_def)
  ultimately show ?thesis using that by blast
qed

lemma without_dir: "without L s t \<Longrightarrow> is_dir t = is_dir s"
  by (simp add: without_def is_dir_def fun_eq_iff)

lemma backups_without:
  assumes place: "log_place cfg s" and w: "without (below (log_dir cfg) ` set (surplus cfg s)) s t"
  shows "backups cfg t = drop (length (backups cfg s) - nat (MaxBackups cfg)) (backups cfg s)"
    and "n \<notin> set (surplus cfg s) \<Longrightarrow> content t (below (log_dir cfg) n) = content s (below (log_dir cfg) n)"
proof -
  let ?B = "{n \<in> dir_names s (log_dir cfg). is_backup (Base (FilePath cfg)) n}"
  have "{n \<in> dir_names t (log_dir cfg). is_backup (Base (FilePath cfg)) n} = ?B - set (surplus cfg s)"
    using w place by (auto simp: dir_names_def without_def log_place_def is_dir_def)
  then show "backups cfg t = drop (length (backups cfg s) - nat (MaxBackups cfg)) (backups cfg s)"
    using sorted_list_drop [of ?B] by (simp add: backups_def surplus_def)
  show "content t (below (log_dir cfg) n) = content s (below (log_dir cfg) n)"
    if "n \<notin> set (surplus cfg s)"
    using w that by (auto simp: content_def without_def split: option.split)
qed

section \<open>A rotation\<close>

text \<open>
  The logger writes to the file at its path. (\<open>lr_out\<close> and \<open>lg_file\<close> agree, the handle is open and
  its inode is the one that the name leads to.)
\<close>

definition log_inv :: "log_config \<Rightarrow> 'v log_state \<Rightarrow> bool" where
  "log_inv cfg st \<longleftrightarrow> log_place cfg (lg_fs st) \<and>
     (\<exists>h lr. lg_file st = Some h \<and> lg_instance st = Some lr \<and> lr_out lr = StdoutAnd h \<and>
        handle_open (lg_fs st) h \<and>
        inode_at (lg_fs st) (log_loc cfg) = Some (fh_inode (fs_handles (lg_fs st) ! h)))"

lemma log_loc_eq: "file_path (FilePath cfg) \<Longrightarrow> loc_of (FilePath cfg) = log_loc cfg"
  by (simp add: log_loc_def log_dir_def loc_of_file_below)

text \<open>Where a rotation puts the file.\<close>

definition backup_name :: "log_config \<Rightarrow> string \<Rightarrow> string" where
  "backup_name cfg stamp = Base (FilePath cfg) @ ''.'' @ stamp"

lemma backup_path_loc:
  assumes "file_path (FilePath cfg)" and "CHR ''/'' \<notin> set stamp"
  shows "loc_of (backup_path cfg stamp) = below (log_dir cfg) (backup_name cfg stamp)"
    and "plain_name (backup_name cfg stamp)" and "is_backup (Base (FilePath cfg)) (backup_name cfg stamp)"
proof -
  let ?q = "backup_path cfg stamp"
  have p: "FilePath cfg \<noteq> []" "last (FilePath cfg) \<noteq> CHR ''/''"
    using assms by (simp_all add: file_path_def)
  have "last stamp \<noteq> CHR ''/''" if "stamp \<noteq> []" using assms(2) last_in_set that by metis
  then have q: "?q \<noteq> []" "last ?q \<noteq> CHR ''/''" by (auto simp: backup_path_def)
  have tw: "takeWhile (\<lambda>c. c \<noteq> CHR ''/'') (rev ?q) =
      rev (''.'' @ stamp) @ takeWhile (\<lambda>c. c \<noteq> CHR ''/'') (rev (FilePath cfg))"
    using assms(2) by (simp add: backup_path_def takeWhile_append)
  have dw: "dropWhile (\<lambda>c. c \<noteq> CHR ''/'') (rev ?q) = dropWhile (\<lambda>c. c \<noteq> CHR ''/'') (rev (FilePath cfg))"
    using assms(2) by (simp add: backup_path_def dropWhile_append)
  have base: "Base ?q = backup_name cfg stamp"
    using Base_file(1) [OF q] Base_file(1) [OF p] tw by (simp add: backup_name_def)
  have dir: "Dir ?q = Dir (FilePath cfg)" by (simp add: Dir_def dir_part_def dw)
  have b: "plain_name (Base (FilePath cfg))" by (rule file_path_plain [OF assms(1)])
  then show plain: "plain_name (backup_name cfg stamp)"
    using assms(2) by (cases "Base (FilePath cfg)") (auto simp: plain_name_def backup_name_def append_eq_Cons_conv Cons_eq_append_conv)
  then have "file_path ?q" using q base by (simp add: file_path_def plain_name_def)
  then show "loc_of ?q = below (log_dir cfg) (backup_name cfg stamp)"
    using loc_of_file_below [of ?q] by (simp add: base dir log_dir_def)
  show "is_backup (Base (FilePath cfg)) (backup_name cfg stamp)"
    by (simp add: is_backup_def backup_name_def)
qed

lemma time_stamp_plain: "CHR ''/'' \<notin> set (time_stamp tz t)"
proof -
  have "CHR ''/'' \<notin> set hextable" by (simp add: hextable_def)
  then have "CHR ''/'' \<notin> set (nat_in_base 10 n)" for n
    using nat_in_base_digits [of 10 n] by auto
  then have "CHR ''/'' \<notin> set (pad w n)" for w n by (simp add: pad_def Let_def)
  then show ?thesis by (auto simp: time_stamp_def stamp_of_def split: prod.splits)
qed

text \<open>The state after closing, renaming and reopening without faults.\<close>

definition rotated_fs :: "log_config \<Rightarrow> string \<Rightarrow> handle \<Rightarrow> file_system \<Rightarrow> file_system" where
  "rotated_fs cfg stamp h s =
     (let i = fh_inode (fs_handles s ! h);
          s = s\<lparr>fs_handles := (fs_handles s)[h := (fs_handles s ! h)\<lparr>fh_open := False\<rparr>]\<rparr>;
          s = new_file (log_loc cfg) (octal 6 0 0)
                (renamed (log_loc cfg) (below (log_dir cfg) (backup_name cfg stamp)) i s)
      in s\<lparr>fs_handles := fs_handles s @ [\<lparr>fh_name = FilePath cfg, fh_inode = fs_next s - 1, fh_open = True\<rparr>]\<rparr>)"

lemma log_place_facts:
  assumes "log_place cfg s"
  shows "loc_of (FilePath cfg) = log_loc cfg" "FilePath cfg \<noteq> []" "last (FilePath cfg) \<noteq> CHR ''/''"
    "is_dir s (log_dir cfg)" "fs_ok s" "parent (log_loc cfg) = log_dir cfg"
    "plain_name (Base (FilePath cfg))"
proof -
  have "file_path (FilePath cfg)" using assms by (simp add: log_place_def)
  then show "loc_of (FilePath cfg) = log_loc cfg" "FilePath cfg \<noteq> []"
    "last (FilePath cfg) \<noteq> CHR ''/''" "plain_name (Base (FilePath cfg))"
    by (simp_all add: log_loc_eq file_path_plain) (simp_all add: file_path_def)
qed (use assms in \<open>simp_all add: log_place_def log_loc_def\<close>)

lemma is_backup_irrefl: "\<not> is_backup b b"
  by (simp add: is_backup_def)

lemma set_out_sel [simp]:
  "lg_fs (set_out x st) = lg_fs st" "lg_file (set_out x st) = lg_file st"
  "lg_once (set_out x st) = lg_once st" "lg_stop (set_out x st) = lg_stop st"
  "lg_monitors (set_out x st) = lg_monitors st" "lg_stdout (set_out x st) = lg_stdout st"
  "lg_default (set_out x st) = lg_default st"
  "lg_instance (set_out x st) = map_option (lr_out_update (\<lambda>_. x)) (lg_instance st)"
  by (simp_all add: set_out_def)

lemma rotation_state:
  fixes now :: time
  assumes inv: "log_inv cfg st" and h: "lg_file st = Some h"
    and env: "le_sys env = no_fault"
  defines "stamp \<equiv> time_stamp (le_zone env) now"
  shows "rot_reopen env cfg (rot_rename env cfg now (rot_close env h st)) =
    set_out (StdoutAnd (length (fs_handles (lg_fs st))))
      (st\<lparr>lg_fs := rotated_fs cfg stamp h (lg_fs st), lg_file := Some (length (fs_handles (lg_fs st)))\<rparr>)"
proof -
  let ?s = "lg_fs st" and ?l = "log_loc cfg" and ?b = "below (log_dir cfg) (backup_name cfg stamp)"
  let ?c = "?s\<lparr>fs_handles := (fs_handles ?s)[h := (fs_handles ?s ! h)\<lparr>fh_open := False\<rparr>]\<rparr>"
  let ?i = "fh_inode (fs_handles ?s ! h)"
  have place: "log_place cfg ?s" and ho: "handle_open ?s h" and at: "inode_at ?s ?l = Some ?i"
    using inv h by (auto simp: log_inv_def)
  note F = log_place_facts [OF place]
  have B: "loc_of (backup_path cfg stamp) = ?b" "is_backup (Base (FilePath cfg)) (backup_name cfg stamp)"
    using backup_path_loc [of cfg stamp] place time_stamp_plain [of "le_zone env" now]
    by (simp_all add: log_place_def stamp_def)
  have nd: "\<not> is_dir ?s ?b" "\<not> is_dir ?s ?l"
    using place B(2) inode_not_dir [OF F(5) at] by (auto simp: log_place_def)
  have ne: "?b \<noteq> ?l" using B(2) is_backup_irrefl by (auto simp: log_loc_def)
  have close: "rot_close env h st = st\<lparr>lg_fs := ?c\<rparr>"
    using ho by (simp add: rot_close_def file_Close_def env no_fault_def)
  have ren: "rot_rename env cfg now (st\<lparr>lg_fs := ?c\<rparr>) = st\<lparr>lg_fs := renamed ?l ?b ?i ?c\<rparr>"
    using os_Rename_ok [of ?c "FilePath cfg" ?i "backup_path cfg stamp"] F B(1) nd at
    by (simp add: rot_rename_def env stamp_def)
  have op: "openLogFile no_fault (FilePath cfg) (renamed ?l ?b ?i ?c) =
      (Inr (length (fs_handles ?s)), rotated_fs cfg stamp h ?s)"
    using os_OpenAppend_new [of "FilePath cfg" "renamed ?l ?b ?i ?c" "octal 6 0 0"] F nd ne
    by (simp add: openLogFile_def inode_at_renamed new_handle_def rotated_fs_def Let_def)
  show ?thesis
    unfolding close ren by (simp add: rot_reopen_def env op)
qed

text \<open>The state of the files after the three parts: the old file is the last backup.\<close>

lemma rotated_fs_facts:
  assumes place: "log_place cfg s" and h: "handle_open s h"
    and at: "inode_at s (log_loc cfg) = Some (fh_inode (fs_handles s ! h))"
    and stamp: "CHR ''/'' \<notin> set stamp"
  defines "t \<equiv> rotated_fs cfg stamp h s" and "h' \<equiv> length (fs_handles s)"
  shows "log_place cfg t" and "handle_open t h'"
    and "inode_at t (log_loc cfg) = Some (fh_inode (fs_handles t ! h'))"
    and "backups cfg t = sorted_list_of_set (insert (backup_name cfg stamp) (set (backups cfg s)))"
    and "content t (log_loc cfg) = []"
    and "backup_text cfg t (backup_name cfg stamp) = content s (log_loc cfg)"
    and "n \<in> set (backups cfg s) \<Longrightarrow> n \<noteq> backup_name cfg stamp \<Longrightarrow>
      backup_text cfg t n = backup_text cfg s n"
proof -
  let ?l = "log_loc cfg" and ?n = "backup_name cfg stamp"
  let ?b = "below (log_dir cfg) ?n" and ?i = "fh_inode (fs_handles s ! h)"
  let ?c = "s\<lparr>fs_handles := (fs_handles s)[h := (fs_handles s ! h)\<lparr>fh_open := False\<rparr>]\<rparr>"
  let ?r = "renamed ?l ?b ?i ?c"
  let ?f = "new_file ?l (octal 6 0 0) ?r"
  have t: "t = ?f\<lparr>fs_handles := fs_handles ?f @ [\<lparr>fh_name = FilePath cfg, fh_inode = fs_next s, fh_open = True\<rparr>]\<rparr>"
    by (simp add: t_def rotated_fs_def Let_def)
  note F = log_place_facts [OF place]
  have B: "plain_name ?n" "is_backup (Base (FilePath cfg)) ?n"
    using backup_path_loc(2,3) [OF _ stamp, of cfg] place by (simp_all add: log_place_def)
  have nd: "\<not> is_dir s ?b" "\<not> is_dir s ?l"
    using place B(2) inode_not_dir [OF F(5) at] by (auto simp: log_place_def)
  have ne: "?n \<noteq> Base (FilePath cfg)" "?b \<noteq> ?l" "?l \<noteq> ?b"
    using B(2) is_backup_irrefl by (auto simp: log_loc_def)
  have hi: "fh_inode f < fs_next s" if "f \<in> set (fs_handles ?c)" for f
    using that F(5) h fs_okD(8) [OF F(5)] set_update_subset_insert [of "fs_handles s" h]
    by (fastforce simp: handle_open_def)
  have okc: "fs_ok ?c" by (rule fs_ok_same [OF F(5)]) (use hi in auto)
  have okr: "fs_ok ?r" by (rule fs_ok_renamed [OF okc]) (use at nd F B in simp_all)
  have okf: "fs_ok ?f" by (rule fs_ok_new_file [OF okr]) (use nd F in \<open>simp_all add: log_loc_def\<close>)
  have okt: "fs_ok t"
    unfolding t by (rule fs_ok_same [OF okf]) (use hi in \<open>auto intro: less_SucI\<close>)
  have dirs: "is_dir t = is_dir s" by (simp add: t fun_eq_iff)
  show "log_place cfg t"
    using place okt by (simp add: log_place_def dirs)
  show "handle_open t h'" by (simp add: t h'_def handle_open_def nth_append)
  have ino: "inode_at t k = (if k = ?l then Some (fs_next s) else if k = ?b then Some ?i else inode_at s k)" for k
    using ne by (simp add: t inode_at_new_file inode_at_renamed)
  show "inode_at t ?l = Some (fh_inode (fs_handles t ! h'))"
    by (simp add: ino h'_def) (simp add: t nth_append)
  have dn: "dir_names t (log_dir cfg) = insert ?n (dir_names s (log_dir cfg))"
    using at by (auto simp: dir_names_def ino log_loc_def) (auto simp: t)
  have "{n \<in> dir_names t (log_dir cfg). is_backup (Base (FilePath cfg)) n} =
      insert ?n {n \<in> dir_names s (log_dir cfg). is_backup (Base (FilePath cfg)) n}"
    using B(2) by (auto simp: dn)
  then show "backups cfg t = sorted_list_of_set (insert ?n (set (backups cfg s)))"
    unfolding backups_set by (simp only: backups_def)
  show "content t ?l = []" by (simp add: content_def ino) (simp add: t)
  have less: "?i < fs_next s" by (rule fs_okD(3) [OF F(5) at])
  show "backup_text cfg t ?n = content s ?l"
    using ne less at by (simp add: backup_text_def content_def ino) (simp add: t)
  show "backup_text cfg t n = backup_text cfg s n" if "n \<in> set (backups cfg s)" "n \<noteq> ?n"
  proof -
    have "n \<noteq> ?n" "n \<noteq> Base (FilePath cfg)"
      using that is_backup_irrefl by (auto simp: backups_set)
    then have "inode_at t (below (log_dir cfg) n) = inode_at s (below (log_dir cfg) n)"
      by (simp add: ino log_loc_def)
    moreover have "fs_data t j = fs_data s j" if "j < fs_next s" for j
      using that by (simp add: t)
    ultimately show ?thesis using fs_okD(3) [OF F(5)]
      by (auto simp: backup_text_def content_def split: option.split)
  qed
qed

lemma rotated_newest:
  assumes "log_place cfg s" and "handle_open s h"
    and "inode_at s (log_loc cfg) = Some (fh_inode (fs_handles s ! h))"
    and "CHR ''/'' \<notin> set stamp"
    and newest: "\<And>n. n \<in> set (backups cfg s) \<Longrightarrow> n < backup_name cfg stamp"
  shows "backups cfg (rotated_fs cfg stamp h s) = backups cfg s @ [backup_name cfg stamp]"
    and "map (backup_text cfg (rotated_fs cfg stamp h s)) (backups cfg s @ [backup_name cfg stamp]) =
      map (backup_text cfg s) (backups cfg s) @ [content s (log_loc cfg)]"
proof -
  note R = rotated_fs_facts [OF assms(1-4)]
  show "backups cfg (rotated_fs cfg stamp h s) = backups cfg s @ [backup_name cfg stamp]"
    using R(4) sorted_list_insert_last [of "set (backups cfg s)" "backup_name cfg stamp"] newest
    by (simp add: sorted_backups)
  show "map (backup_text cfg (rotated_fs cfg stamp h s)) (backups cfg s @ [backup_name cfg stamp]) =
      map (backup_text cfg s) (backups cfg s) @ [content s (log_loc cfg)]"
    using R(6,7) newest by fastforce
qed

lemma log_place_without:
  "log_place cfg s \<Longrightarrow> fs_ok t \<Longrightarrow> without L s t \<Longrightarrow> log_place cfg t"
  by (simp add: log_place_def without_dir)

lemma log_loc_not_surplus: "log_loc cfg \<notin> below (log_dir cfg) ` set (surplus cfg s)"
  using is_backup_irrefl by (auto simp: log_loc_def surplus_def backups_set dest!: in_set_takeD)

text \<open>
  A rotation without faults: the file of the log becomes a backup, the surplus at the front is
  removed, and logging goes on in an empty file.
\<close>

definition all_backups :: "log_env \<Rightarrow> log_config \<Rightarrow> time \<Rightarrow> file_system \<Rightarrow> string list" where
  "all_backups env cfg now s =
     sorted_list_of_set (insert (backup_name cfg (time_stamp (le_zone env) now)) (set (backups cfg s)))"

lemma set_all_backups:
  "set (all_backups env cfg now s) =
     insert (backup_name cfg (time_stamp (le_zone env) now)) (set (backups cfg s))"
  by (simp only: all_backups_def set_sorted_list_of_set finite_insert finite_set)

lemma rotateLog_names:
  fixes now :: time
  assumes inv: "log_inv cfg st" and env: "le_sys env = no_fault" and max: "0 \<le> MaxBackups cfg"
  defines "n \<equiv> backup_name cfg (time_stamp (le_zone env) now)" and "s \<equiv> lg_fs st"
    and "bs \<equiv> all_backups env cfg now (lg_fs st)"
  obtains st' where "rotateLog env cfg now st = Inr st'" and "log_inv cfg st'"
    and "backups cfg (lg_fs st') = drop (length bs - nat (MaxBackups cfg)) bs"
    and "\<And>b. b \<in> set (backups cfg (lg_fs st')) \<Longrightarrow> backup_text cfg (lg_fs st') b =
      (if b = n then content s (log_loc cfg) else backup_text cfg s b)"
    and "content (lg_fs st') (log_loc cfg) = []"
    and "lg_stdout st' = lg_stdout st"
    and "map_option lr_level (lg_instance st') = map_option lr_level (lg_instance st)"
    and "map_option lr_format (lg_instance st') = map_option lr_format (lg_instance st)"
proof -
  obtain h lr where h: "lg_file st = Some h" "lg_instance st = Some lr" "handle_open s h"
    and at: "inode_at s (log_loc cfg) = Some (fh_inode (fs_handles s ! h))" and place: "log_place cfg s"
    using inv by (auto simp: log_inv_def s_def)
  let ?t = "rotated_fs cfg (time_stamp (le_zone env) now) h s"
  note R = rotated_fs_facts [OF place h(3) at time_stamp_plain [of "le_zone env" now]]
  have bt: "backups cfg ?t = bs" using R(4) by (simp add: bs_def all_backups_def s_def)
  obtain u where u: "cleanOldBackups no_fault cfg ?t = Inr u" "fs_ok u"
    and w: "without (below (log_dir cfg) ` set (surplus cfg ?t)) ?t u"
    using cleanOldBackups_ok [OF R(1) max] by blast
  define st' where "st' = (set_out (StdoutAnd (length (fs_handles s)))
      (st\<lparr>lg_file := Some (length (fs_handles s))\<rparr>))\<lparr>lg_fs := u\<rparr>"
  have run: "rotateLog env cfg now st = Inr st'"
    using rotation_state [OF inv h(1) env, of now] u(1)
    by (simp add: rotateLog_def h rot_clean_def env s_def st'_def set_out_def)
  have bu: "backups cfg u = drop (length bs - nat (MaxBackups cfg)) bs"
    using backups_without(1) [OF R(1) w] by (simp add: bt)
  have cur: "inode_at u (log_loc cfg) = inode_at ?t (log_loc cfg)"
    using w log_loc_not_surplus by (simp add: without_def)
  have "log_inv cfg st'"
    using log_place_without [OF R(1) u(2) w] R(2,3) cur w h
    by (simp add: log_inv_def st'_def handle_open_def without_def)
  moreover have "content u (log_loc cfg) = []"
    using R(5) w log_loc_not_surplus by (simp add: content_def cur without_def split: option.splits)
  moreover have "backup_text cfg u b = (if b = n then content s (log_loc cfg) else backup_text cfg s b)"
    if "b \<in> set (backups cfg u)" for b
  proof -
    have "set (surplus cfg ?t) \<inter> set (backups cfg u) = {}"
      unfolding surplus_def bu bt
      by (rule set_take_disj_set_drop_if_distinct)
        (simp_all only: bs_def all_backups_def distinct_sorted_list_of_set order_refl)
    then have "backup_text cfg u b = backup_text cfg ?t b"
      using that backups_without(2) [OF R(1) w, of b] by (auto simp: backup_text_def)
    moreover have "b \<in> insert n (set (backups cfg s))"
      using that set_drop_subset [of "length bs - nat (MaxBackups cfg)" bs]
      unfolding bu by (auto simp only: bs_def set_all_backups s_def n_def)
    ultimately show ?thesis using R(6) R(7) [of b] by (auto simp: n_def)
  qed
  ultimately show ?thesis
    using that [OF run] bu h by (simp add: st'_def)
qed

lemma rotateLog_kept:
  fixes now :: time
  assumes inv: "log_inv cfg st" and env: "le_sys env = no_fault" and max: "0 \<le> MaxBackups cfg"
  defines "n \<equiv> backup_name cfg (time_stamp (le_zone env) now)" and "s \<equiv> lg_fs st"
  assumes newest: "\<And>b. b \<in> set (backups cfg s) \<Longrightarrow> b < n"
  obtains st' where "rotateLog env cfg now st = Inr st'" and "log_inv cfg st'"
    and "log_kept cfg (lg_fs st') = kept_rotate cfg (log_kept cfg s)"
    and "set (backups cfg (lg_fs st')) \<subseteq> insert n (set (backups cfg s))"
    and "lg_stdout st' = lg_stdout st"
    and "map_option lr_level (lg_instance st') = map_option lr_level (lg_instance st)"
    and "map_option lr_format (lg_instance st') = map_option lr_format (lg_instance st)"
proof (rule rotateLog_names [OF inv env max, of now])
  fix st'
  let ?xs = "backups cfg s" and ?k = "Suc (length (backups cfg s)) - nat (MaxBackups cfg)"
  let ?bt = "\<lambda>b. if b = n then content s (log_loc cfg) else backup_text cfg s b"
  have bs: "all_backups env cfg now (lg_fs st) = ?xs @ [n]"
    using sorted_list_insert_last [of "set ?xs" n] newest
    by (simp add: all_backups_def n_def s_def sorted_backups)
  assume st': "rotateLog env cfg now st = Inr st'" "log_inv cfg st'"
    "lg_stdout st' = lg_stdout st"
    "map_option lr_level (lg_instance st') = map_option lr_level (lg_instance st)"
    "map_option lr_format (lg_instance st') = map_option lr_format (lg_instance st)"
  assume c: "content (lg_fs st') (log_loc cfg) = []"
  assume "backups cfg (lg_fs st') = drop (length (all_backups env cfg now (lg_fs st)) -
      nat (MaxBackups cfg)) (all_backups env cfg now (lg_fs st))"
  then have b: "backups cfg (lg_fs st') = drop ?k (?xs @ [n])"
    unfolding bs by (simp only: length_append_singleton)
  assume t: "\<And>b. b \<in> set (backups cfg (lg_fs st')) \<Longrightarrow> backup_text cfg (lg_fs st') b =
      (if b = backup_name cfg (time_stamp (le_zone env) now) then content (lg_fs st) (log_loc cfg)
       else backup_text cfg (lg_fs st) b)"
  have "map ?bt ?xs = map (backup_text cfg s) ?xs"
    by (rule map_cong [OF refl]) (use newest in auto)
  then have texts: "map ?bt (?xs @ [n]) = map (backup_text cfg s) ?xs @ [content s (log_loc cfg)]"
    by simp
  have "map (backup_text cfg (lg_fs st')) (backups cfg (lg_fs st')) = map ?bt (backups cfg (lg_fs st'))"
    by (rule map_cong [OF refl]) (use t in \<open>simp add: n_def s_def\<close>)
  also have "\<dots> = drop ?k (map (backup_text cfg s) ?xs @ [content s (log_loc cfg)])"
    unfolding b by (simp only: drop_map [symmetric] texts)
  finally have "log_kept cfg (lg_fs st') = kept_rotate cfg (log_kept cfg s)"
    by (simp add: log_kept_def kept_rotate_def c)
  moreover have "set (backups cfg (lg_fs st')) \<subseteq> insert n (set ?xs)"
    unfolding b using set_drop_subset [of ?k "?xs @ [n]"] by simp
  ultimately show thesis using that st' by blast
qed

section \<open>A run of the logger\<close>

text \<open>Messages and ticks of the monitor, in any order; a fatal message ends the program.\<close>

datatype log_event = LogLine log_call string | LogTick time

fun log_run :: "'v logrus_lib \<Rightarrow> log_env \<Rightarrow> log_config \<Rightarrow> log_event list \<Rightarrow> 'v log_state \<Rightarrow>
    log_panic + 'v log_state" where
  "log_run lib env cfg [] st = Inr st"
| "log_run lib env cfg (LogLine c msg # es) st =
     (case log_message lib env c msg st of
        (stop, st') \<Rightarrow> if stop then Inr st' else log_run lib env cfg es st')"
| "log_run lib env cfg (LogTick now # es) st =
     (case monitor_tick env cfg now st of
        Inl p \<Rightarrow> Inl p
      | Inr st' \<Rightarrow> log_run lib env cfg es st')"

text \<open>
  What the run should print, for a logger of this level and format; what it should leave of a
  log; and its ticks.
\<close>

definition line_text :: "'v logrus_lib \<Rightarrow> 'v \<Rightarrow> log_format \<Rightarrow> log_call \<Rightarrow> string \<Rightarrow> string" where
  "line_text lib v f c msg =
     (if level_enabled lib v (call_level lib c) then render lib f (call_level lib c) msg else [])"

fun run_text :: "'v logrus_lib \<Rightarrow> 'v \<Rightarrow> log_format \<Rightarrow> log_event list \<Rightarrow> string" where
  "run_text lib v f [] = []"
| "run_text lib v f (LogLine c msg # es) =
     line_text lib v f c msg @ (if c = FatalCall then [] else run_text lib v f es)"
| "run_text lib v f (LogTick now # es) = run_text lib v f es"

fun kept_run :: "'v logrus_lib \<Rightarrow> 'v \<Rightarrow> log_format \<Rightarrow> log_config \<Rightarrow> log_event list \<Rightarrow>
    kept_log \<Rightarrow> kept_log" where
  "kept_run lib v f cfg [] k = k"
| "kept_run lib v f cfg (LogLine c msg # es) (bs, cur) =
     (let k = (bs, cur @ line_text lib v f c msg)
      in if c = FatalCall then k else kept_run lib v f cfg es k)"
| "kept_run lib v f cfg (LogTick now # es) k = kept_run lib v f cfg es (kept_tick cfg k)"

fun run_ticks :: "log_event list \<Rightarrow> time list" where
  "run_ticks [] = []"
| "run_ticks (LogLine c msg # es) = run_ticks es"
| "run_ticks (LogTick now # es) = now # run_ticks es"

text \<open>Seen as one text, a run loses only the beginning.\<close>

lemma kept_run_suffix:
  "suffix (concat (fst (kept_run lib v f cfg es k)) @ snd (kept_run lib v f cfg es k))
     (concat (fst k) @ snd k @ run_text lib v f es)"
proof (induction lib v f cfg es k rule: kept_run.induct)
  case (3 lib v f cfg now es k)
  have "suffix ((concat (fst (kept_tick cfg k)) @ snd (kept_tick cfg k)) @ run_text lib v f es)
      ((concat (fst k) @ snd k) @ run_text lib v f es)"
    by (simp only: same_suffix_suffix kept_tick_suffix)
  then show ?case using 3 by (simp add: suffix_order.trans)
qed (simp_all add: Let_def)

lemma kept_run_length:
  "length (fst (kept_run lib v f cfg es k)) \<le> max (nat (MaxBackups cfg)) (length (fst k))"
proof (induction lib v f cfg es k rule: kept_run.induct)
  case (3 lib v f cfg now es k)
  then show ?case using kept_tick_length [of cfg k] by simp
qed (simp_all add: Let_def)

text \<open>A line is appended to the file, and to standard output.\<close>

lemma log_message_ok:
  assumes inv: "log_inv cfg st" and env: "le_sys env = no_fault" "le_stdout env = None"
    and lr: "lg_instance st = Some lr"
  obtains st' where "log_message lib env c msg st = (c = FatalCall, st')" and "log_inv cfg st'"
    and "lg_instance st' = Some lr" and "backups cfg (lg_fs st') = backups cfg (lg_fs st)"
    and "log_kept cfg (lg_fs st') =
      (fst (log_kept cfg (lg_fs st)), snd (log_kept cfg (lg_fs st)) @ line_text lib (lr_level lr) (lr_format lr) c msg)"
    and "lg_stdout st' = lg_stdout st @ line_text lib (lr_level lr) (lr_format lr) c msg"
proof (cases "level_enabled lib (lr_level lr) (call_level lib c)")
  case False
  then show ?thesis using that [of st] inv lr by (simp add: log_message_def Get_def line_text_def)
next
  case True
  let ?d = "render lib (lr_format lr) (call_level lib c) msg" and ?s = "lg_fs st"
  obtain h where h: "lg_file st = Some h" "lr_out lr = StdoutAnd h" "handle_open ?s h"
    and at: "inode_at ?s (log_loc cfg) = Some (fh_inode (fs_handles ?s ! h))" and place: "log_place cfg ?s"
    using inv lr by (auto simp: log_inv_def)
  let ?i = "fh_inode (fs_handles ?s ! h)"
  let ?t = "?s\<lparr>fs_data := (fs_data ?s)(?i := fs_data ?s ?i @ ?d)\<rparr>"
  let ?st = "st\<lparr>lg_stdout := lg_stdout st @ ?d, lg_fs := ?t\<rparr>"
  note F = log_place_facts [OF place]
  have "fs_ok ?t" by (rule fs_ok_same [OF F(5)]) (use fs_okD(8) [OF F(5)] in auto)
  then have place': "log_place cfg ?t" using place by (simp add: log_place_def)
  have inode: "inode_at ?t = inode_at ?s" by (simp add: fun_eq_iff)
  have bk: "backups cfg ?t = backups cfg ?s"
    by (rule backups_cong) (simp add: dir_names_def)
  have bt: "backup_text cfg ?t n = backup_text cfg ?s n" if "n \<in> set (backups cfg ?s)" for n
  proof -
    have "below (log_dir cfg) n \<noteq> log_loc cfg"
      using that is_backup_irrefl by (auto simp: backups_set log_loc_def)
    then have "inode_at ?s (below (log_dir cfg) n) \<noteq> Some ?i" using fs_okD(7) [OF F(5) _ at] by blast
    then show ?thesis by (auto simp: backup_text_def content_def inode split: option.split)
  qed
  then have "map (backup_text cfg ?t) (backups cfg ?s) = map (backup_text cfg ?s) (backups cfg ?s)"
    by (rule map_cong [OF refl])
  moreover have "content ?t (log_loc cfg) = content ?s (log_loc cfg) @ ?d"
    by (simp add: content_def inode at)
  ultimately have grow: "log_kept cfg ?t = (fst (log_kept cfg ?s), snd (log_kept cfg ?s) @ ?d)"
    unfolding log_kept_def bk by (simp only: fst_conv snd_conv)
  have "log_message lib env c msg st = (c = FatalCall, ?st)"
    using True lr h env
    by (simp add: log_message_def Get_def write_out_def out_write_def file_Write_def no_fault_def Let_def)
  moreover have "log_inv cfg ?st"
    using place' h lr at by (simp add: log_inv_def handle_open_def)
  ultimately show ?thesis using that [of ?st] lr bk grow True by (simp add: line_text_def)
qed

lemma monitor_tick_ok:
  assumes inv: "log_inv cfg st" and env: "le_sys env = no_fault" and max: "0 \<le> MaxBackups cfg"
    and newest: "\<And>b. b \<in> set (backups cfg (lg_fs st)) \<Longrightarrow> b < backup_name cfg (time_stamp (le_zone env) now)"
  obtains st' where "monitor_tick env cfg now st = Inr st'" and "log_inv cfg st'"
    and "log_kept cfg (lg_fs st') = kept_tick cfg (log_kept cfg (lg_fs st))"
    and "set (backups cfg (lg_fs st')) \<subseteq>
      insert (backup_name cfg (time_stamp (le_zone env) now)) (set (backups cfg (lg_fs st)))"
    and "lg_stdout st' = lg_stdout st"
    and "map_option lr_level (lg_instance st') = map_option lr_level (lg_instance st)"
    and "map_option lr_format (lg_instance st') = map_option lr_format (lg_instance st)"
proof -
  obtain h where h: "lg_file st = Some h" "handle_open (lg_fs st) h"
    and at: "inode_at (lg_fs st) (log_loc cfg) = Some (fh_inode (fs_handles (lg_fs st) ! h))"
    using inv by (auto simp: log_inv_def)
  let ?n = "int (length (fs_data (lg_fs st) (fh_inode (fs_handles (lg_fs st) ! h))))"
  have tick: "monitor_tick env cfg now st = (if ?n > MaxSize cfg then rotateLog env cfg now st else Inr st)"
    using h by (simp add: monitor_tick_def file_Size_def env no_fault_def)
  have size: "int (length (snd (log_kept cfg (lg_fs st)))) = ?n"
    using at by (simp add: log_kept_def content_def)
  show ?thesis
  proof (cases "?n > MaxSize cfg")
    case True
    show ?thesis
    proof (rule rotateLog_kept [OF inv env max newest])
    qed (use True tick that size in \<open>auto simp: kept_tick_def\<close>)
  next
    case False
    then show ?thesis using tick that [of st] inv size by (auto simp: kept_tick_def)
  qed
qed

text \<open>
  Ticks whose backups sort behind the ones that exist: later by the local clock, in whole
  seconds, and before the year 9986.
\<close>

definition later_ticks :: "log_env \<Rightarrow> log_config \<Rightarrow> file_system \<Rightarrow> time list \<Rightarrow> bool" where
  "later_ticks env cfg s ts \<longleftrightarrow>
     sorted_wrt (\<lambda>t t'. local_seconds (le_zone env) t < local_seconds (le_zone env) t') ts \<and>
     (\<forall>t \<in> set ts. local_seconds (le_zone env) t < 86400 * 3647000 \<and>
        (\<forall>b \<in> set (backups cfg s). b < backup_name cfg (time_stamp (le_zone env) t)))"

lemma backup_name_less:
  assumes "local_seconds tz t < local_seconds tz t'" and "local_seconds tz t' < 86400 * 3647000"
  shows "backup_name cfg (time_stamp tz t) < backup_name cfg (time_stamp tz t')"
  using stamp_of_less [OF assms] by (simp add: backup_name_def time_stamp_def less_append_eq)

lemma later_ticks_Cons:
  assumes "later_ticks env cfg s (now # ts)"
    and "set (backups cfg s') \<subseteq> insert (backup_name cfg (time_stamp (le_zone env) now)) (set (backups cfg s))"
  shows "later_ticks env cfg s' ts"
  using assms backup_name_less [of "le_zone env" now]
  by (auto simp: later_ticks_def dest!: subsetD [OF assms(2)])

lemma log_run_ok:
  assumes "log_inv cfg st" and "le_sys env = no_fault" "le_stdout env = None"
    and "0 \<le> MaxBackups cfg" and "later_ticks env cfg (lg_fs st) (run_ticks es)"
    and "map_option lr_level (lg_instance st) = Some v"
    and "map_option lr_format (lg_instance st) = Some f"
  shows "\<exists>st'. log_run lib env cfg es st = Inr st' \<and> log_inv cfg st' \<and>
    log_kept cfg (lg_fs st') = kept_run lib v f cfg es (log_kept cfg (lg_fs st)) \<and>
    lg_stdout st' = lg_stdout st @ run_text lib v f es"
  using assms
proof (induction es arbitrary: st)
  case Nil
  then show ?case by simp
next
  case (Cons e es)
  note inv = Cons.prems(1) and env = Cons.prems(2,3) and max = Cons.prems(4)
  obtain lr where lr: "lg_instance st = Some lr" "lr_level lr = v" "lr_format lr = f"
    using Cons.prems(6,7) by auto
  obtain bs cur where k: "log_kept cfg (lg_fs st) = (bs, cur)" by (cases "log_kept cfg (lg_fs st)")
  show ?case
  proof (cases e)
    case (LogLine c msg)
    obtain st1 where st1: "log_message lib env c msg st = (c = FatalCall, st1)" "log_inv cfg st1"
      "lg_instance st1 = Some lr" "backups cfg (lg_fs st1) = backups cfg (lg_fs st)"
      "log_kept cfg (lg_fs st1) = (bs, cur @ line_text lib v f c msg)"
      "lg_stdout st1 = lg_stdout st @ line_text lib v f c msg"
      using log_message_ok [OF inv env lr(1), of lib c msg] lr(2,3) by (auto simp: k)
    show ?thesis
    proof (cases "c = FatalCall")
      case True
      then show ?thesis using st1 LogLine k by auto
    next
      case False
      have "later_ticks env cfg (lg_fs st1) (run_ticks es)"
        using Cons.prems(5) LogLine st1(4) by (simp add: later_ticks_def)
      from Cons.IH [OF st1(2) env max this] st1(3) lr obtain st' where
        st': "log_run lib env cfg es st1 = Inr st'" "log_inv cfg st'"
          "log_kept cfg (lg_fs st') = kept_run lib v f cfg es (log_kept cfg (lg_fs st1))"
          "lg_stdout st' = lg_stdout st1 @ run_text lib v f es"
        by auto
      then show ?thesis using st1 False LogLine k by (intro exI [of _ st']) (simp add: Let_def)
    qed
  next
    case (LogTick now)
    have new: "b < backup_name cfg (time_stamp (le_zone env) now)" if "b \<in> set (backups cfg (lg_fs st))" for b
      using Cons.prems(5) LogTick that by (simp add: later_ticks_def)
    obtain st1 where st1: "monitor_tick env cfg now st = Inr st1" "log_inv cfg st1"
      "log_kept cfg (lg_fs st1) = kept_tick cfg (log_kept cfg (lg_fs st))"
      "set (backups cfg (lg_fs st1)) \<subseteq>
        insert (backup_name cfg (time_stamp (le_zone env) now)) (set (backups cfg (lg_fs st)))"
      "lg_stdout st1 = lg_stdout st"
      "map_option lr_level (lg_instance st1) = map_option lr_level (lg_instance st)"
      "map_option lr_format (lg_instance st1) = map_option lr_format (lg_instance st)"
      by (rule monitor_tick_ok [OF inv env(1) max new])
    have "later_ticks env cfg (lg_fs st1) (run_ticks es)"
      using later_ticks_Cons [OF _ st1(4)] Cons.prems(5) LogTick by simp
    from Cons.IH [OF st1(2) env max this] st1(6,7) Cons.prems(6,7) obtain st' where
      "log_run lib env cfg es st1 = Inr st'" "log_inv cfg st'"
      "log_kept cfg (lg_fs st') = kept_run lib v f cfg es (log_kept cfg (lg_fs st1))"
      "lg_stdout st' = lg_stdout st1 @ run_text lib v f es"
      by auto
    then show ?thesis using st1(1,3,5) LogTick by (intro exI [of _ st']) simp
  qed
qed

section \<open>Setting up and shutting down\<close>

text \<open>Where the log can be kept: its directory can be made, and nothing else has its names.\<close>

definition log_site :: "log_config \<Rightarrow> file_system \<Rightarrow> bool" where
  "log_site cfg s \<longleftrightarrow> file_path (FilePath cfg) \<and> fs_ok s \<and> no_file_on s (log_dir cfg) \<and>
     \<not> is_dir s (log_loc cfg) \<and>
     (\<forall>n. is_backup (Base (FilePath cfg)) n \<longrightarrow> \<not> is_dir s (below (log_dir cfg) n))"

lemma below_not_prefix: "below d n \<notin> set (path_prefixes d)"
  by (auto simp: path_prefixes_iff below_def dest: prefix_length_le)

lemma Initialize_ok:
  assumes site: "log_site cfg (lg_fs st)" and env: "le_sys env = no_fault" and fresh: "\<not> lg_once st"
  obtains st' where "Initialize lib env cfg st = (None, st')" and "log_inv cfg st'"
    and "lg_once st'" and "lg_stdout st' = lg_stdout st"
    and "map_option lr_level (lg_instance st') =
      Some (parse_level lib (Level cfg))"
    and "map_option lr_format (lg_instance st') = Some json_format"
    and "backups cfg (lg_fs st') = backups cfg (lg_fs st)"
    and "log_kept cfg (lg_fs st') = log_kept cfg (lg_fs st)"
    and "lg_monitors st' =
      (if MaxSize cfg > 0 \<and> \<not> le_test env then cfg # lg_monitors st else lg_monitors st)"
proof -
  let ?s = "lg_fs st" and ?p = "FilePath cfg"
  let ?lr = "(logrus_New lib)\<lparr>lr_level := parse_level lib (Level cfg), lr_format := json_format\<rparr>"
  have fp: "file_path ?p" using site by (simp add: log_site_def)
  then have p: "?p \<noteq> []" "last ?p \<noteq> CHR ''/''" "loc_of ?p = log_loc cfg" "plain_name (Base ?p)"
    by (simp_all add: log_loc_eq file_path_plain) (simp_all add: file_path_def)
  obtain t where t: "os_MkdirAll no_fault (Dir ?p) (octal 7 5 0) ?s = (None, t)" "fs_ok t"
    "inode_at t = inode_at ?s" "fs_data t = fs_data ?s" "fs_handles t = fs_handles ?s"
    and dirs: "\<And>k. is_dir t k \<longleftrightarrow> k \<in> set (path_prefixes (log_dir cfg)) \<or> is_dir ?s k" "is_dir t (log_dir cfg)"
    using os_MkdirAll_ok [of ?s "Dir ?p" "octal 7 5 0"] site by (auto simp: log_site_def log_dir_def)
  have nd: "\<not> is_dir t (log_loc cfg)"
    and place: "log_place cfg t"
    using site t(2) dirs(2) below_not_prefix
    by (auto simp: dirs(1) log_place_def log_site_def log_loc_def)
  have par: "parent (log_loc cfg) = log_dir cfg" by (simp add: log_loc_def)
  have bk_eq: "backups cfg u = backups cfg ?s"
    if "inode_at u = (inode_at ?s)(log_loc cfg := x)" "log_place cfg u" for u x
  proof (rule backups_cong)
    fix n assume n: "is_backup (Base ?p) n"
    then have "below (log_dir cfg) n \<noteq> log_loc cfg" using is_backup_irrefl by (auto simp: log_loc_def)
    then show "n \<in> dir_names u (log_dir cfg) \<longleftrightarrow> n \<in> dir_names ?s (log_dir cfg)"
      using n that site by (auto simp: dir_names_def log_place_def log_site_def is_dir_def)
  qed
  obtain i u where op: "os_OpenAppend no_fault ?p (octal 6 0 0) t = new_handle ?p i u"
    and u: "fs_ok u" "is_dir u = is_dir t" "fs_handles u = fs_handles t"
      "inode_at u (log_loc cfg) = Some i" "inode_at u = (inode_at ?s)(log_loc cfg := Some i)"
      "content u (log_loc cfg) = content ?s (log_loc cfg)" "i < fs_next u"
      "\<And>l. l \<noteq> log_loc cfg \<Longrightarrow> content u l = content ?s l"
  proof (cases "inode_at t (log_loc cfg)")
    case (Some i)
    show ?thesis
      by (rule that [of i t]) (use Some t p nd dirs par os_OpenAppend_old [of ?p t i "octal 6 0 0"] fs_okD(3) [OF t(2)]
        in \<open>auto simp: content_def fun_upd_idem split: option.split\<close>)
  next
    case None
    let ?u = "new_file (log_loc cfg) (octal 6 0 0) t"
    have "fs_ok ?u" by (rule fs_ok_new_file [OF t(2)]) (use nd dirs par p in \<open>simp_all add: log_loc_def\<close>)
    moreover have "j \<noteq> fs_next t" if "inode_at t l = Some j" for l j
      using fs_okD(3) [OF t(2) that] by simp
    moreover have "os_OpenAppend no_fault ?p (octal 6 0 0) t = new_handle ?p (fs_next t) ?u"
      using None p nd dirs(2) par os_OpenAppend_new [of ?p t "octal 6 0 0"] by simp
    ultimately show ?thesis
      by (intro that [of "fs_next t" ?u])
        (use None t(3,4) in \<open>auto simp: inode_at_new_file content_def fun_eq_iff split: option.split\<close>)
  qed
  let ?v = "u\<lparr>fs_handles := fs_handles u @ [\<lparr>fh_name = ?p, fh_inode = i, fh_open = True\<rparr>]\<rparr>"
  let ?h = "length (fs_handles u)"
  have okv: "fs_ok ?v" by (rule fs_ok_same [OF u(1)]) (use fs_okD(8) [OF u(1)] u(7) in auto)
  have inv_v: "inode_at ?v = inode_at u" by (simp add: fun_eq_iff)
  have cv: "content ?v l = content u l" for l by (simp add: content_def inv_v split: option.split)
  have placev: "log_place cfg ?v" using place okv u(2) by (simp add: log_place_def)
  have bk: "backups cfg ?v = backups cfg ?s" by (rule bk_eq [OF _ placev]) (simp add: inv_v u(5))
  have bt: "backup_text cfg ?v n = backup_text cfg ?s n" if "n \<in> set (backups cfg ?s)" for n
  proof -
    have "below (log_dir cfg) n \<noteq> log_loc cfg"
      using that is_backup_irrefl by (auto simp: backups_set log_loc_def)
    then show ?thesis using u(8) by (simp add: backup_text_def cv)
  qed
  then have "map (backup_text cfg ?v) (backups cfg ?s) = map (backup_text cfg ?s) (backups cfg ?s)"
    by (rule map_cong [OF refl])
  moreover have "content ?v (log_loc cfg) = content ?s (log_loc cfg)"
    using u(6) by (simp add: cv)
  ultimately have lt: "log_kept cfg ?v = log_kept cfg ?s" unfolding log_kept_def bk by (simp only:)
  define st1 where "st1 = st\<lparr>lg_once := True, lg_instance := Some (lr_out_update (\<lambda>_. StdoutAnd ?h) ?lr),
    lg_fs := ?v, lg_file := Some ?h\<rparr>"
  define st' where "st' = (if MaxSize cfg > 0 \<and> \<not> le_test env
    then st1\<lparr>lg_stop := True, lg_monitors := cfg # lg_monitors st\<rparr> else st1)"
  have "Initialize lib env cfg st = (None, st')"
    using fresh p t(1) op env
    by (simp add: Initialize_def setupFileOutput_def openLogFile_def new_handle_def st'_def st1_def
        set_out_def Let_def)
  moreover have "log_inv cfg st'"
    using placev u(4) by (simp add: log_inv_def st'_def st1_def handle_open_def inv_v nth_append)
  ultimately show ?thesis using that [of st'] bk lt by (simp add: st'_def st1_def)
qed

text \<open>
  After \<open>Close\<close> no monitor runs, the file is released, and messages go to standard output only.
\<close>

lemma Close_ok:
  "lg_file (Close env st) = None \<and> \<not> lg_once (Close env st) \<and> \<not> lg_stop (Close env st) \<and>
   (lg_stop st \<longrightarrow> lg_monitors (Close env st) = [])"
  by (simp add: Close_def close_file_def close_stop_def Let_def split: option.split)

lemma Close_out:
  assumes "lg_file st = Some h"
  shows "map_option lr_out (lg_instance (Close env st)) = map_option (\<lambda>lr. Stdout) (lg_instance st)"
  using assms by (cases "lg_instance st") (simp_all add: Close_def close_file_def close_stop_def Let_def)

section \<open>What a rotation can touch\<close>

definition log_names :: "log_config \<Rightarrow> loc set" where
  "log_names cfg = insert (log_loc cfg)
     {below (log_dir cfg) n | n. is_backup (Base (FilePath cfg)) n}"

lemma backup_plain:
  assumes "plain_name b" and "is_backup b n" and "CHR ''/'' \<notin> set n"
  shows "plain_name n"
proof -
  obtain x xs where n: "n = b @ x # xs"
    using assms(2) unfolding is_backup_def by (metis append_take_drop_id append_Nil2 list.exhaust)
  then show ?thesis using assms by (cases b) (auto simp: plain_name_def append_eq_Cons_conv Cons_eq_append_conv)
qed

lemma ReadDir_names:
  assumes ok: "fs_ok s" and "os_ReadDir sys p s = Inr ns" and "n \<in> set ns"
  shows "CHR ''/'' \<notin> set n"
proof -
  obtain l where l: "l \<in> set (children s (loc_of p))" "n = last (snd l)"
    using assms(2,3) by (auto simp: os_ReadDir_def split: option.splits if_splits)
  then consider i where "inode_at s l = Some i" | m where "map_of (fs_dirs s) l = Some m"
    by (auto simp: children_iff)
  then show ?thesis
    using fs_okD(6) [OF ok] fs_okD(9) [OF ok] by cases (auto simp: l(2) plain_name_def)
qed

lemma leaves_remove_names:
  assumes "fs_ok s" and "\<And>n. n \<in> set ns \<Longrightarrow> loc_of (Join [d, n]) \<in> L"
  shows "leaves L s (remove_names sys d ns s)"
  using assms
proof (induction ns arbitrary: s)
  case (Cons n ns)
  have "leaves L s (snd (os_Remove sys (Join [d, n]) s))"
    by (rule leaves_Remove) (use Cons.prems in auto)
  moreover from this have "leaves L (snd (os_Remove sys (Join [d, n]) s))
      (remove_names sys d ns (snd (os_Remove sys (Join [d, n]) s)))"
    by (intro Cons.IH) (use Cons.prems in \<open>auto simp: leaves_def\<close>)
  ultimately show ?case by (auto simp: remove_names_def intro: leaves_trans)
qed (simp add: remove_names_def leaves_refl)

lemma leaves_clean:
  assumes ok: "fs_ok s" and p: "file_path (FilePath cfg)"
    and "cleanOldBackups sys cfg s = Inr t"
  shows "leaves (log_names cfg) s t"
proof -
  have "loc_of (Join [Dir (FilePath cfg), n]) \<in> log_names cfg"
    if "os_ReadDir sys (Dir (FilePath cfg)) s = Inr ns" "n \<in> set ns" "is_backup (Base (FilePath cfg)) n" for n ns
  proof -
    have "plain_name n" by (rule backup_plain [OF file_path_plain [OF p] that(3) ReadDir_names [OF ok that(1,2)]])
    then have "loc_of (Join [Dir (FilePath cfg), n]) = below (log_dir cfg) n"
      by (simp add: loc_of_Join_below Dir_def log_dir_def)
    then show ?thesis using that(3) by (auto simp: log_names_def)
  qed
  then show ?thesis using assms(3) leaves_refl [OF ok]
    by (auto simp: cleanOldBackups_def Let_def dest!: in_set_takeD intro!: leaves_remove_names [OF ok]
        split: sum.splits if_splits)
qed

lemma leaves_openLogFile:
  assumes "fs_ok s" and "file_path (FilePath cfg)"
  shows "leaves (log_names cfg) s (snd (openLogFile sys (FilePath cfg) s))"
proof -
  have "leaves (log_names cfg) s (snd (os_OpenAppend sys (FilePath cfg) (octal 6 0 0) s))"
    by (rule leaves_OpenAppend [OF assms(1)])
      (use assms in \<open>simp_all add: log_loc_eq log_names_def log_loc_def file_path_plain\<close>)
  moreover have "snd (openLogFile sys (FilePath cfg) s) = snd (os_OpenAppend sys (FilePath cfg) (octal 6 0 0) s)"
    by (auto simp: openLogFile_def split: prod.splits sum.splits)
  ultimately show ?thesis by simp
qed

lemma leaves_rotateLog:
  fixes now :: time
  assumes ok: "fs_ok (lg_fs st)" and p: "file_path (FilePath cfg)"
    and run: "rotateLog env cfg now st = Inr st'"
  shows "leaves (log_names cfg) (lg_fs st) (lg_fs st')"
proof (cases "lg_file st")
  case None
  then show ?thesis using run leaves_refl [OF ok] by (simp add: rotateLog_def)
next
  case (Some h)
  let ?a = "rot_close env h st" and ?L = "log_names cfg"
  let ?b = "rot_rename env cfg now ?a"
  let ?c = "rot_reopen env cfg ?b"
  have a: "leaves ?L (lg_fs st) (lg_fs ?a)" by (simp add: rot_close_def leaves_Close [OF ok])
  note q = backup_path_loc [OF p time_stamp_plain, of "le_zone env" now]
  have lg_b: "lg_fs ?b = snd (os_Rename (le_sys env) (FilePath cfg)
      (backup_path cfg (time_stamp (le_zone env) now)) (lg_fs ?a))"
    by (simp add: rot_rename_def)
  have b: "leaves ?L (lg_fs ?a) (lg_fs ?b)"
    unfolding lg_b by (rule leaves_Rename [OF leaves_fs_ok [OF a]])
      (use q in \<open>auto simp: log_names_def log_loc_eq [OF p]\<close>)
  have "lg_fs ?c = snd (openLogFile (le_sys env) (FilePath cfg) (lg_fs ?b))"
    by (auto simp: rot_reopen_def split: prod.splits sum.splits)
  then have c: "leaves ?L (lg_fs ?b) (lg_fs ?c)"
    using leaves_openLogFile [OF leaves_fs_ok [OF b] p, of "le_sys env"] by simp
  have "cleanOldBackups (le_sys env) cfg (lg_fs ?c) = Inr (lg_fs st')"
    using run Some by (auto simp: rotateLog_def rot_clean_def split: sum.splits)
  then have "leaves ?L (lg_fs ?c) (lg_fs st')" by (rule leaves_clean [OF leaves_fs_ok [OF c] p])
  then show ?thesis using a b c by (blast intro: leaves_trans)
qed

section \<open>Properties\<close>

text \<open>
  C18: the log is kept, exactly as its abstract version says. Start the logger on a site for
  its file, without faults and with a \<open>MaxBackups\<close> that is not negative, and let the ticks of
  the monitor come later and later by the local clock, later than every file that already has
  the name of a backup. Then, whatever is logged, the texts of the backups in the order of
  their names and of the current file are those of \<open>kept_run\<close>: every line goes to the end of
  the current text, a tick that finds more than \<open>MaxSize\<close> bytes makes it the newest backup, and
  exactly the last \<open>MaxBackups\<close> backups are kept, no fewer. Read in a row, backups and file
  are an end piece of all that was there and was logged since; there are never more backups
  than configured (or than there were); standard output has every line.
\<close>

theorem log_loses_only_oldest:
  assumes site: "log_site cfg (lg_fs st)" and fresh: "\<not> lg_once st"
    and env: "le_sys env = no_fault" "le_stdout env = None" and max: "0 \<le> MaxBackups cfg"
    and ticks: "later_ticks env cfg (lg_fs st) (run_ticks es)"
  shows "\<exists>st0 st'. Initialize lib env cfg st = (None, st0) \<and>
    log_run lib env cfg es st0 = Inr st' \<and>
    (map (backup_text cfg (lg_fs st')) (backups cfg (lg_fs st')), content (lg_fs st') (log_loc cfg)) =
      kept_run lib (parse_level lib (Level cfg)) json_format cfg es
        (map (backup_text cfg (lg_fs st)) (backups cfg (lg_fs st)), content (lg_fs st) (log_loc cfg)) \<and>
    suffix (log_text cfg (lg_fs st'))
      (log_text cfg (lg_fs st) @ run_text lib (parse_level lib (Level cfg)) json_format es) \<and>
    int (length (backups cfg (lg_fs st'))) \<le> max (MaxBackups cfg) (int (length (backups cfg (lg_fs st)))) \<and>
    lg_stdout st' = lg_stdout st @ run_text lib (parse_level lib (Level cfg)) json_format es"
proof (rule Initialize_ok [OF site env(1) fresh, of lib])
  fix st0
  let ?v = "parse_level lib (Level cfg)" and ?k = "log_kept cfg (lg_fs st)"
  assume I: "Initialize lib env cfg st = (None, st0)" "log_inv cfg st0" "lg_stdout st0 = lg_stdout st"
    "map_option lr_level (lg_instance st0) = Some ?v"
    "map_option lr_format (lg_instance st0) = Some json_format"
    "backups cfg (lg_fs st0) = backups cfg (lg_fs st)" "log_kept cfg (lg_fs st0) = ?k"
  have "later_ticks env cfg (lg_fs st0) (run_ticks es)"
    using ticks I(6) by (simp add: later_ticks_def)
  from log_run_ok [OF I(2) env max this I(4,5), of lib] obtain st' where
    run: "log_run lib env cfg es st0 = Inr st'"
      "log_kept cfg (lg_fs st') = kept_run lib ?v json_format cfg es ?k"
      "lg_stdout st' = lg_stdout st @ run_text lib ?v json_format es"
    by (auto simp: I(3,7))
  have "suffix (log_text cfg (lg_fs st')) (log_text cfg (lg_fs st) @ run_text lib ?v json_format es)"
    using kept_run_suffix [of lib ?v json_format cfg es ?k] by (simp add: log_text_kept run(2))
  moreover have "int (length (backups cfg (lg_fs st'))) \<le>
      max (MaxBackups cfg) (int (length (backups cfg (lg_fs st))))"
    using kept_run_length [of lib ?v json_format cfg es ?k] max
    by (simp add: run(2) [symmetric]) (simp add: log_kept_def)
  ultimately show ?thesis using I(1) run unfolding log_kept_def by blast
qed

text \<open>A disk with the directory of the log, and a logger that keeps one backup.\<close>

definition empty_disk :: file_system where
  "empty_disk = \<lparr>fs_dirs = [], fs_files = [], fs_data = (\<lambda>i. []), fs_mode = (\<lambda>i. 0),
     fs_next = 0, fs_handles = []\<rparr>"

definition small_log :: log_config where
  "small_log = \<lparr>Level = ''info'', FilePath = ''/var/log/app.log'', MaxSize = 3, MaxBackups = 1\<rparr>"

definition plain_lib :: "nat logrus_lib" where
  "plain_lib = \<lparr>ParseLevel = (\<lambda>s. None), DebugLevel = 5, InfoLevel = 4, WarnLevel = 3,
     ErrorLevel = 2, FatalLevel = 1, level_enabled = (\<lambda>v l. l \<le> v), render = (\<lambda>f l m. m)\<rparr>"

definition quiet_env :: log_env where
  "quiet_env = \<lparr>le_sys = no_fault, le_stdout = None, le_zone = (\<lambda>t. 0), le_test = False\<rparr>"

definition log_sample :: "log_event list" where
  "log_sample = [LogLine InfoCall ''one'', LogTick (100 * second), LogLine ErrorCall ''two'',
     LogLine DebugCall ''hidden'', LogTick (160 * second), LogLine WarnCall ''three'', LogTick (220 * second)]"

lemma fs_ok_empty: "fs_ok empty_disk"
  by (simp add: fs_ok_def empty_disk_def inode_at_def)

lemma small_log_locs:
  "file_path (FilePath small_log)" "log_dir small_log = (True, [''var'', ''log''])"
  "Base (FilePath small_log) = ''app.log''" "log_loc small_log = (True, [''var'', ''log'', ''app.log''])"
proof -
  show "file_path (FilePath small_log)" "Base (FilePath small_log) = ''app.log''"
    by (simp_all add: small_log_def file_path_def Base_def)
  moreover show "log_dir small_log = (True, [''var'', ''log''])"
    by (simp add: small_log_def log_dir_def loc_of_def rooted_def clean_step_def Dir_def Clean_def dir_part_def)
  ultimately show "log_loc small_log = (True, [''var'', ''log'', ''app.log''])"
    by (simp add: log_loc_def below_def)
qed

lemma small_log_site: "log_site small_log empty_disk" "backups small_log empty_disk = []"
  by (simp_all add: log_site_def small_log_locs fs_ok_empty no_file_on_def list_all_iff)
    (simp_all add: empty_disk_def inode_at_def is_dir_def backups_def dir_names_def below_def)

lemma log_sample_kept:
  "run_text plain_lib 4 f log_sample = ''onetwothree''"
  "kept_run plain_lib 4 f small_log log_sample ([], []) = ([''three''], [])"
  by (simp_all add: log_sample_def plain_lib_def line_text_def Let_def kept_tick_def kept_rotate_def
      small_log_def)

theorem log_loses_only_oldest_witness:
  "\<exists>st'. log_run plain_lib quiet_env small_log log_sample
      (snd (Initialize plain_lib quiet_env small_log (log_start empty_disk))) = Inr st' \<and>
    map (backup_text small_log (lg_fs st')) (backups small_log (lg_fs st')) = [''three''] \<and>
    content (lg_fs st') (log_loc small_log) = [] \<and> lg_stdout st' = ''onetwothree''"
proof -
  have ticks: "later_ticks quiet_env small_log empty_disk (run_ticks log_sample)"
    by (simp add: later_ticks_def log_sample_def quiet_env_def local_seconds_def small_log_site)
  have level: "parse_level plain_lib (Level small_log) = 4"
    by (simp add: plain_lib_def parse_level_def small_log_def)
  have blank: "content empty_disk l = []" for l by (simp add: content_def empty_disk_def inode_at_def)
  have start: "lg_fs (log_start empty_disk) = empty_disk" "\<not> lg_once (log_start empty_disk)"
    "lg_stdout (log_start empty_disk) = []" "le_sys quiet_env = no_fault" "le_stdout quiet_env = None"
    "0 \<le> MaxBackups small_log"
    by (simp_all add: log_start_def quiet_env_def small_log_def)
  note run = log_loses_only_oldest [of small_log "log_start empty_disk" quiet_env log_sample plain_lib]
  show ?thesis
    using run [unfolded start small_log_site(2) level blank log_sample_kept list.map]
      small_log_site(1) start ticks
    by (elim meta_impE) auto
qed

text \<open>
  C19: a rotation stays with its own files. Whatever the system does (every call may fail), a
  rotation that runs to its end leaves each file alone whose name is neither that of the log nor
  begins with it in the same directory: the name still leads to the same inode and text.
\<close>

theorem rotation_touches_only_its_names:
  fixes now :: time
  assumes "fs_ok (lg_fs st)" and "file_path (FilePath cfg)" and "rotateLog env cfg now st = Inr st'"
    and "l \<noteq> log_loc cfg" and "\<And>n. is_backup (Base (FilePath cfg)) n \<Longrightarrow> l \<noteq> below (log_dir cfg) n"
  shows "inode_at (lg_fs st') l = inode_at (lg_fs st) l \<and> content (lg_fs st') l = content (lg_fs st) l"
proof -
  have "l \<notin> log_names cfg" using assms(4,5) by (auto simp: log_names_def)
  then show ?thesis
    using leaves_rotateLog [OF assms(1-3)] leaves_content [OF _ assms(1)] leaves_inode by metis
qed

text \<open>A disk on which the log and another file exist.\<close>

definition full_disk :: file_system where
  "full_disk = \<lparr>fs_dirs = [((True, [''var'']), octal 7 5 5), ((True, [''var'', ''log'']), octal 7 5 0)],
     fs_files = [((True, [''var'', ''log'', ''app.log'']), 0), ((True, [''var'', ''log'', ''app.log-old'']), 1),
       ((True, [''var'', ''log'', ''other'']), 2)],
     fs_data = (\<lambda>i. if i = 0 then ''abcd'' else if i = 1 then ''precious'' else ''text''),
     fs_mode = (\<lambda>i. octal 6 0 0), fs_next = 3,
     fs_handles = [\<lparr>fh_name = ''/var/log/app.log'', fh_inode = 0, fh_open = True\<rparr>]\<rparr>"

definition full_state :: "nat log_state" where
  "full_state = \<lparr>lg_instance = Some \<lparr>lr_level = 4, lr_format = json_format, lr_out = StdoutAnd 0\<rparr>,
     lg_once = True, lg_file = Some 0, lg_stop = True, lg_monitors = [small_log], lg_fs = full_disk,
     lg_stdout = [], lg_default = []\<rparr>"

lemma full_disk_inode:
  "inode_at full_disk l =
     (if l = (True, [''var'', ''log'', ''app.log'']) then Some 0
      else if l = (True, [''var'', ''log'', ''app.log-old'']) then Some 1
      else if l = (True, [''var'', ''log'', ''other'']) then Some 2 else None)"
  by (simp add: full_disk_def inode_at_def)

lemma full_disk_dir:
  "map_of (fs_dirs full_disk) l =
     (if l = (True, [''var'']) then Some (octal 7 5 5) else if l = (True, [''var'', ''log'']) then Some (octal 7 5 0) else None)"
  by (simp add: full_disk_def)

lemma fs_ok_full: "fs_ok full_disk"
proof (rule fs_okI)
  show "gm_ok (fs_files full_disk)" "gm_ok (fs_dirs full_disk)"
    by (simp_all add: full_disk_def gm_ok_def)
qed (auto simp: full_disk_inode full_disk_dir is_dir_def parent_def plain_name_def split: if_splits,
    simp_all add: full_disk_def)

lemma full_log_inv: "log_inv small_log full_state" "log_place small_log full_disk"
proof -
  show place: "log_place small_log full_disk"
    by (auto simp: log_place_def small_log_locs fs_ok_full is_dir_def full_disk_dir below_def)
  then show "log_inv small_log full_state"
    by (simp add: log_inv_def full_state_def small_log_locs full_disk_inode handle_open_def)
      (simp add: full_disk_def)
qed

lemma full_backups: "backups small_log full_disk = [''app.log-old'']"
proof -
  have "{n \<in> dir_names full_disk (log_dir small_log). is_backup (Base (FilePath small_log)) n} =
      {''app.log-old''}"
    by (auto simp: dir_names_def full_disk_inode full_disk_dir below_def small_log_locs is_backup_def)
  then show ?thesis by (simp add: backups_def)
qed

lemma small_log_max: "MaxBackups small_log = 1"
  by (simp add: small_log_def)

lemma full_newest:
  "b \<in> set (backups small_log (lg_fs full_state)) \<Longrightarrow>
   b < backup_name small_log (time_stamp (le_zone quiet_env) t)"
  by (simp add: full_state_def full_backups backup_name_def small_log_locs)

lemma full_rotates: "\<exists>st'. rotateLog quiet_env small_log now full_state = Inr st'"
proof (rule rotateLog_names [OF full_log_inv(1), of quiet_env now])
qed (auto simp: quiet_env_def small_log_def)

theorem rotation_touches_only_its_names_witness:
  "\<exists>st'. rotateLog quiet_env small_log 0 full_state = Inr st' \<and>
     content (lg_fs st') (True, [''var'', ''log'', ''other'']) = ''text''"
proof -
  obtain st' where st': "rotateLog quiet_env small_log 0 full_state = Inr st'"
    using full_rotates by blast
  let ?l = "(True, [''var'', ''log'', ''other''])"
  have "content full_disk ?l = ''text''" by (simp add: content_def full_disk_inode) (simp add: full_disk_def)
  moreover have "?l \<noteq> below (log_dir small_log) n" if "is_backup (Base (FilePath small_log)) n" for n
    using that by (auto simp: below_def small_log_locs is_backup_def)
  ultimately show ?thesis
    using rotation_touches_only_its_names [OF _ _ st', of ?l] st' fs_ok_full
    by (simp add: full_state_def small_log_locs)
qed

text \<open>
  C35: what counts as a backup is any file whose name begins with the log's name, whoever
  made it. Without faults and with a \<open>MaxBackups\<close> that is not negative, a rotation returns, and
  such a file beside the log is gone after it exactly when at least \<open>MaxBackups\<close> other such
  names, that of the new backup among them, come after it in byte order. So a file that somebody
  put there is deleted in its turn, and one named with a hyphen, which sorts before the dot
  of a real backup, before all of these.
\<close>

theorem foreign_file_removed:
  fixes now :: time
  assumes inv: "log_inv cfg st" and env: "le_sys env = no_fault" and max: "0 \<le> MaxBackups cfg"
    and n: "is_backup (Base (FilePath cfg)) n" "inode_at (lg_fs st) (below (log_dir cfg) n) \<noteq> None"
  shows "\<exists>st'. rotateLog env cfg now st = Inr st' \<and>
    (inode_at (lg_fs st') (below (log_dir cfg) n) = None \<longleftrightarrow>
     MaxBackups cfg \<le> int (card {b \<in> insert (backup_name cfg (time_stamp (le_zone env) now))
       (set (backups cfg (lg_fs st))). n < b}))"
proof (rule rotateLog_names [OF inv env max, of now])
  fix st'
  let ?A = "insert (backup_name cfg (time_stamp (le_zone env) now)) (set (backups cfg (lg_fs st)))"
  let ?bs = "sorted_list_of_set ?A"
  assume run: "rotateLog env cfg now st = Inr st'" "log_inv cfg st'"
    and b: "backups cfg (lg_fs st') = drop (length (all_backups env cfg now (lg_fs st)) -
      nat (MaxBackups cfg)) (all_backups env cfg now (lg_fs st))"
  have "inode_at (lg_fs st') (below (log_dir cfg) n) = None \<longleftrightarrow> n \<notin> set (backups cfg (lg_fs st'))"
    using run(2) n(1) by (auto simp: backups_set dir_names_def log_inv_def log_place_def is_dir_def)
  also have "\<dots> \<longleftrightarrow> n \<notin> set (drop (length ?bs - nat (MaxBackups cfg)) ?bs)"
    by (simp only: b all_backups_def)
  also have "\<dots> \<longleftrightarrow> \<not> card {b \<in> ?A. n < b} < nat (MaxBackups cfg)"
  proof -
    have "n \<in> set (backups cfg (lg_fs st))" using n by (simp add: backups_set dir_names_def)
    then have "n \<in> ?A" by (rule insertI2)
    from drop_sorted_iff [OF _ this, of "nat (MaxBackups cfg)"] show ?thesis
      by (simp only: finite_insert finite_set simp_thms)
  qed
  also have "\<dots> \<longleftrightarrow> MaxBackups cfg \<le> int (card {b \<in> ?A. n < b})"
    by (simp only: not_less nat_le_iff)
  finally show ?thesis by (intro exI [of _ st'] conjI run(1))
qed

theorem foreign_file_removed_witness:
  "\<exists>st'. rotateLog quiet_env small_log 0 full_state = Inr st' \<and>
     inode_at (lg_fs st') (True, [''var'', ''log'', ''app.log-old'']) = None"
proof -
  let ?new = "backup_name small_log (time_stamp (le_zone quiet_env) 0)"
  have "''app.log-old'' < ?new"
    using full_newest [of "''app.log-old''" 0] by (simp add: full_state_def full_backups)
  then have "card {b. (b = ?new \<or> b = ''app.log-old'') \<and> ''app.log-old'' < b} = card {?new}"
    by (intro arg_cong [where f = card]) auto
  then have "\<exists>st'. rotateLog quiet_env small_log 0 full_state = Inr st' \<and>
      inode_at (lg_fs st') (below (log_dir small_log) ''app.log-old'') = None"
    using foreign_file_removed [OF full_log_inv(1), of quiet_env "''app.log-old''" 0]
    by (simp add: full_state_def full_backups small_log_locs below_def full_disk_inode quiet_env_def
      small_log_max is_backup_def)
  then show ?thesis by (simp add: below_def small_log_locs)
qed

text \<open>
  C36: a line logged during a rotation is not in the file. Between the moment a rotation closes
  the file and the moment it gives the logger the new one, the logger still writes to the closed
  file: a message then reaches standard output but changes nothing on the disk.
\<close>

theorem line_lost_during_rotation:
  fixes now :: time
  assumes inv: "log_inv cfg st" and h: "lg_file st = Some h" and lr: "lg_instance st = Some lr"
    and "le_stdout env = None" and "level_enabled lib (lr_level lr) (call_level lib c)"
    and mid: "mid \<in> {rot_close env h st, rot_rename env cfg now (rot_close env h st)}"
  shows "snd (log_message lib env c msg mid) =
    mid\<lparr>lg_stdout := lg_stdout mid @ render lib (lr_format lr) (call_level lib c) msg\<rparr>"
proof -
  have inst: "lg_instance mid = Some lr" using lr mid by (auto simp: rot_close_def rot_rename_def)
  have out: "lr_out lr = StdoutAnd h" using inv h lr by (auto simp: log_inv_def)
  have "\<not> handle_open (snd (file_Close sys h s)) h" for sys s
    by (simp add: file_Close_def handle_open_def)
  moreover have "handle_open (snd (os_Rename sys p q s)) h = handle_open s h" for sys p q s
    by (simp add: os_Rename_def handle_open_def split: option.split)
  ultimately have "\<not> handle_open (lg_fs mid) h" using mid by (auto simp: rot_close_def rot_rename_def)
  then show ?thesis using inst out assms(4,5)
    by (simp add: log_message_def Get_def write_out_def out_write_def file_Write_def Let_def)
qed

theorem line_lost_during_rotation_witness:
  "lg_stdout (snd (log_message plain_lib quiet_env ErrorCall ''lost'' (rot_close quiet_env 0 full_state))) = ''lost'' \<and>
   lg_fs (snd (log_message plain_lib quiet_env ErrorCall ''lost'' (rot_close quiet_env 0 full_state))) =
     lg_fs (rot_close quiet_env 0 full_state)"
proof -
  have "snd (log_message plain_lib quiet_env ErrorCall ''lost'' (rot_close quiet_env 0 full_state)) =
      (rot_close quiet_env 0 full_state)\<lparr>lg_stdout := lg_stdout (rot_close quiet_env 0 full_state) @
        render plain_lib json_format 2 ''lost''\<rparr>"
    using line_lost_during_rotation [OF full_log_inv(1), of 0 _ quiet_env plain_lib ErrorCall]
    by (simp add: full_state_def quiet_env_def plain_lib_def)
  then show ?thesis by (simp add: rot_close_def full_state_def plain_lib_def)
qed

text \<open>
  C33: a failed start is final and silent. When \<open>Initialize\<close> fails it has used up its only run:
  every later call reports success without doing anything, and the logger keeps the output it
  was created with, so its messages reach neither standard output nor a file.
\<close>

theorem failed_start_is_final:
  assumes "Initialize lib env cfg st = (Some e, st1)"
  shows "Initialize lib env' cfg' st1 = (None, st1) \<and>
    lg_stdout (snd (log_message lib env' c msg st1)) = lg_stdout st1 \<and>
    lg_fs (snd (log_message lib env' c msg st1)) = lg_fs st1"
proof -
  have "lg_once st1 \<and> (\<exists>lr. lg_instance st1 = Some lr \<and> lr_out lr = DefaultOut)"
    using assms
    by (auto simp: Initialize_def setupFileOutput_def logrus_New_def Let_def
        split: if_splits prod.splits option.splits sum.splits)
  then show ?thesis
    by (auto simp: Initialize_def log_message_def Get_def write_out_def Let_def)
qed

definition broken_env :: log_env where
  "broken_env = quiet_env\<lparr>le_sys := (\<lambda>s c. Some ''read-only file system'')\<rparr>"

theorem failed_start_is_final_witness:
  "\<exists>e st1. Initialize plain_lib broken_env small_log (log_start empty_disk) = (Some e, st1) \<and>
     Initialize plain_lib quiet_env small_log st1 = (None, st1) \<and>
     lg_stdout (snd (log_message plain_lib quiet_env ErrorCall ''text'' st1)) = []"
proof -
  obtain e st1 where st1: "Initialize plain_lib broken_env small_log (log_start empty_disk) = (Some e, st1)"
    and out: "lg_stdout st1 = []"
    by (simp add: Initialize_def setupFileOutput_def os_MkdirAll_def broken_env_def
        log_start_def small_log_def Let_def)
  show ?thesis using failed_start_is_final [OF st1] st1 out by auto
qed

end
