(* ===== verification/Log_System.thy ===== *)
theory Log_System
  imports Log_File
begin

text \<open>
  The logger in operation: the goroutine that watches the file, messages, and calls of \<open>Close\<close>, one
  rule per section under the lock \<open>mu\<close>. \<open>Close\<close> has two sections and waits in between; it keeps
  the stop channel until its second section, so that another call may find it closed already.

  Lemmas: with one call of \<open>Close\<close> nothing panics and \<open>Close\<close> can always return (\<open>closing_inv\<close>)
  and leaves no file open (\<open>only_open\<close>); with two calls the program can crash.
\<close>

section \<open>The system\<close>

datatype monitor = NoMonitor | Watching | Ticking | Stopped

datatype closer = Called | Waits | HasReturned

record 'v log_sys =
  ls_st :: "'v log_state"
  ls_monitor :: monitor
  ls_closed :: bool
  ls_closers :: "closer list"
  ls_crashed :: bool

text \<open>The monitor holds the lock while it ticks; a \<open>Close\<close> has to wait for it.\<close>

inductive log_step :: "'v logrus_lib \<Rightarrow> log_env \<Rightarrow> log_config \<Rightarrow> 'v log_sys \<Rightarrow> 'v log_sys \<Rightarrow> bool"
  for lib :: "'v logrus_lib" and env :: log_env and cfg :: log_config where
  logs:
  "\<not> ls_crashed s \<Longrightarrow> log_message lib env c msg (ls_st s) = (False, st') \<Longrightarrow>
   log_step lib env cfg s (s\<lparr>ls_st := st'\<rparr>)"
| tick_begins:
  "\<not> ls_crashed s \<Longrightarrow> ls_monitor s = Watching \<Longrightarrow>
   log_step lib env cfg s (s\<lparr>ls_monitor := Ticking\<rparr>)"
| tick_ends:
  "\<not> ls_crashed s \<Longrightarrow> ls_monitor s = Ticking \<Longrightarrow> monitor_tick env cfg now (ls_st s) = Inr st' \<Longrightarrow>
   log_step lib env cfg s (s\<lparr>ls_monitor := Watching, ls_st := st'\<rparr>)"
| tick_panics:
  "\<not> ls_crashed s \<Longrightarrow> ls_monitor s = Ticking \<Longrightarrow> monitor_tick env cfg now (ls_st s) = Inl p \<Longrightarrow>
   log_step lib env cfg s (s\<lparr>ls_crashed := True\<rparr>)"
| monitor_stops:
  "\<not> ls_crashed s \<Longrightarrow> ls_monitor s = Watching \<Longrightarrow> ls_closed s \<Longrightarrow>
   log_step lib env cfg s (s\<lparr>ls_monitor := Stopped\<rparr>)"
| close_signals:
  "\<not> ls_crashed s \<Longrightarrow> i < length (ls_closers s) \<Longrightarrow> ls_closers s ! i = Called \<Longrightarrow>
   ls_monitor s \<noteq> Ticking \<Longrightarrow> lg_stop (ls_st s) \<Longrightarrow> \<not> ls_closed s \<Longrightarrow>
   log_step lib env cfg s (s\<lparr>ls_closed := True, ls_closers := (ls_closers s)[i := Waits]\<rparr>)"
| close_panics:
  "\<not> ls_crashed s \<Longrightarrow> i < length (ls_closers s) \<Longrightarrow> ls_closers s ! i = Called \<Longrightarrow>
   ls_monitor s \<noteq> Ticking \<Longrightarrow> lg_stop (ls_st s) \<Longrightarrow> ls_closed s \<Longrightarrow>
   log_step lib env cfg s (s\<lparr>ls_crashed := True\<rparr>)"
| close_no_channel:
  "\<not> ls_crashed s \<Longrightarrow> i < length (ls_closers s) \<Longrightarrow> ls_closers s ! i = Called \<Longrightarrow>
   ls_monitor s \<noteq> Ticking \<Longrightarrow> \<not> lg_stop (ls_st s) \<Longrightarrow>
   log_step lib env cfg s (s\<lparr>ls_closers := (ls_closers s)[i := Waits]\<rparr>)"
| close_ends:
  "\<not> ls_crashed s \<Longrightarrow> i < length (ls_closers s) \<Longrightarrow> ls_closers s ! i = Waits \<Longrightarrow>
   ls_monitor s \<in> {NoMonitor, Stopped} \<Longrightarrow>
   log_step lib env cfg s (s\<lparr>ls_st := close_file env (ls_st s), ls_closed := False,
     ls_closers := (ls_closers s)[i := HasReturned]\<rparr>)"

inductive_cases log_stepE: "log_step lib env cfg s t"

text \<open>After \<open>Initialize\<close>, with \<open>n\<close> calls of \<open>Close\<close> to come.\<close>

definition log_sys_init :: "'v logrus_lib \<Rightarrow> log_env \<Rightarrow> log_config \<Rightarrow> file_system \<Rightarrow> nat \<Rightarrow>
    'v log_sys \<Rightarrow> bool" where
  "log_sys_init lib env cfg disk n s \<longleftrightarrow>
     (let st = snd (Initialize lib env cfg (log_start disk))
      in s = \<lparr>ls_st = st, ls_monitor = (if lg_monitors st = [] then NoMonitor else Watching),
             ls_closed = False, ls_closers = replicate n Called, ls_crashed = False\<rparr>)"

section \<open>One call\<close>

lemma tick_no_panic: "0 \<le> MaxBackups cfg \<Longrightarrow> monitor_tick env cfg now st \<noteq> Inl p"
  by (simp add: monitor_tick_def rotateLog_def rot_clean_def cleanOldBackups_def Let_def
      split: option.split sum.split)

lemma message_keeps_stop:
  "lg_instance st \<noteq> None \<Longrightarrow> log_message lib env c msg st = (b, st') \<Longrightarrow>
   lg_stop st' = lg_stop st \<and> lg_instance st' \<noteq> None"
  by (auto simp: log_message_def Get_def write_out_def Let_def split: option.splits
      prod.splits if_splits)

lemma rot_keeps_stop:
  "lg_stop (rot_close env h st) = lg_stop st" "lg_instance (rot_close env h st) = lg_instance st"
  "lg_stop (rot_rename env cfg now st) = lg_stop st"
  "lg_instance (rot_rename env cfg now st) = lg_instance st"
  "lg_stop (rot_reopen env cfg st) = lg_stop st"
  "lg_instance (rot_reopen env cfg st) = None \<longleftrightarrow> lg_instance st = None"
  by (auto simp: rot_close_def rot_rename_def rot_reopen_def split: prod.split sum.split)

lemma tick_keeps_stop:
  "monitor_tick env cfg now st = Inr st' \<Longrightarrow>
   lg_stop st' = lg_stop st \<and> (lg_instance st' = None \<longleftrightarrow> lg_instance st = None)"
  by (auto simp: monitor_tick_def rotateLog_def rot_clean_def rot_keeps_stop
      split: option.splits sum.splits if_splits)

text \<open>
  The phases of the only call: nothing is closed before its first section; after it the channel
  is closed until the second; at the end the monitor is gone.
\<close>

definition closing_inv :: "'v log_sys \<Rightarrow> bool" where
  "closing_inv s \<longleftrightarrow> \<not> ls_crashed s \<and> lg_instance (ls_st s) \<noteq> None \<and>
     (lg_stop (ls_st s) \<longleftrightarrow> ls_monitor s \<noteq> NoMonitor \<and> ls_closers s \<noteq> [HasReturned]) \<and>
     (ls_closers s = [Called] \<and> \<not> ls_closed s \<and> ls_monitor s \<noteq> Stopped \<or>
      ls_closers s = [Waits] \<and> (ls_monitor s \<noteq> NoMonitor \<longrightarrow> ls_closed s) \<or>
      ls_closers s = [HasReturned] \<and> \<not> ls_closed s \<and> ls_monitor s \<in> {NoMonitor, Stopped} \<and>
        lg_file (ls_st s) = None)"

lemma Initialize_instance:
  "\<not> lg_once st \<Longrightarrow> lg_instance (snd (Initialize lib env cfg st)) \<noteq> None"
  by (auto simp: Initialize_def setupFileOutput_def Let_def split: prod.splits option.splits sum.splits)

lemma Initialize_stop:
  "lg_stop (snd (Initialize lib env cfg (log_start disk))) \<longleftrightarrow>
   lg_monitors (snd (Initialize lib env cfg (log_start disk))) \<noteq> []"
  by (auto simp: Initialize_def setupFileOutput_def log_start_def Let_def split: prod.splits option.splits sum.splits)

lemma closing_inv_init: "log_sys_init lib env cfg disk 1 s \<Longrightarrow> closing_inv s"
  using Initialize_instance [of "log_start disk" lib env cfg] Initialize_stop [of lib env cfg disk]
  by (auto simp: log_sys_init_def closing_inv_def Let_def) (simp_all add: log_start_def)

lemma close_file_facts:
  "lg_file (close_file env st) = None" "\<not> lg_stop (close_file env st)"
  "lg_instance (close_file env st) = None \<longleftrightarrow> lg_instance st = None"
  by (simp_all add: close_file_def Let_def split: option.split)

lemma single_update: "length xs = 1 \<Longrightarrow> i < length xs \<Longrightarrow> xs[i := x] = [x] \<and> xs = [xs ! i]"
  by (cases xs) auto

lemma closing_inv_step:
  assumes inv: "closing_inv s" and step: "log_step lib env cfg s t" and max: "0 \<le> MaxBackups cfg"
  shows "closing_inv t"
proof -
  have one: "length (ls_closers s) = 1" using inv by (auto simp: closing_inv_def)
  from step show ?thesis
  proof cases
    case (logs c msg st')
    have "lg_file st' = lg_file (ls_st s)"
      using logs inv by (auto simp: closing_inv_def log_message_def Get_def write_out_def Let_def
          split: option.splits prod.splits if_splits)
    then show ?thesis
      using inv logs message_keeps_stop [OF _ logs(3)] by (auto simp: closing_inv_def)
  next
    case (tick_ends now st')
    then show ?thesis using inv tick_keeps_stop [OF tick_ends(4)] by (auto simp: closing_inv_def)
  next
    case (tick_panics now p)
    then show ?thesis using tick_no_panic [OF max] by blast
  next
    case (close_signals i)
    then show ?thesis using inv single_update [OF one, of i] by (auto simp: closing_inv_def)
  next
    case (close_panics i)
    then show ?thesis using inv single_update [OF one, of i] by (auto simp: closing_inv_def)
  next
    case (close_no_channel i)
    then show ?thesis using inv single_update [OF one, of i] by (auto simp: closing_inv_def)
  next
    case (close_ends i)
    then show ?thesis using inv single_update [OF one, of i]
      by (auto simp: closing_inv_def close_file_facts)
  qed (use inv in \<open>auto simp: closing_inv_def\<close>)
qed

text \<open>
  Of the files that the logger opened (those with handles from \<open>n\<close> on), only the one in \<open>logFile\<close>
  is open, whatever calls fail.
\<close>

definition only_open :: "nat \<Rightarrow> 'v log_state \<Rightarrow> bool" where
  "only_open n st \<longleftrightarrow> (\<forall>h \<ge> n. handle_open (lg_fs st) h \<longrightarrow> lg_file st = Some h)"

lemma only_open_same:
  "only_open n st \<Longrightarrow> fs_handles (lg_fs st') = fs_handles (lg_fs st) \<Longrightarrow> lg_file st' = lg_file st \<Longrightarrow>
   only_open n st'"
  by (simp add: only_open_def handle_open_def)

lemma same_handles:
  "fs_handles (snd (os_MkdirAll sys p m s)) = fs_handles s"
  "fs_handles (snd (os_Rename sys p q s)) = fs_handles s"
  "fs_handles (snd (os_Remove sys p s)) = fs_handles s"
  "fs_handles (snd (file_Write sys h d s)) = fs_handles s"
proof -
  have "fs_handles (add_dir m l s) = fs_handles s" for l s by (simp add: add_dir_def)
  then have "fs_handles (fold (add_dir m) ls s) = fs_handles s" for ls
    by (induction ls arbitrary: s) simp_all
  then show "fs_handles (snd (os_MkdirAll sys p m s)) = fs_handles s"
    by (auto simp: os_MkdirAll_def Let_def split: option.split)
qed (auto simp: os_Rename_def os_Remove_def file_Write_def Let_def split: option.split)

lemma same_handles_clean:
  "cleanOldBackups sys cfg s = Inr t \<Longrightarrow> fs_handles t = fs_handles s"
proof -
  have "fs_handles (remove_names sys d ns s) = fs_handles s" for d ns s
    by (induction ns arbitrary: s) (simp_all add: remove_names_def same_handles)
  then show "cleanOldBackups sys cfg s = Inr t \<Longrightarrow> fs_handles t = fs_handles s"
    by (auto simp: cleanOldBackups_def Let_def split: sum.splits if_splits)
qed

lemma only_open_close:
  assumes "only_open n st" and "lg_file st = Some h" and "n \<le> h'"
  shows "\<not> handle_open (snd (file_Close sys h (lg_fs st))) h'"
  using assms by (auto simp: only_open_def file_Close_def handle_open_def nth_list_update)

lemma openLogFile_handles:
  assumes "openLogFile sys p s = (r, s')"
  shows "(\<exists>e. r = Inl e \<and> fs_handles s' = fs_handles s) \<or>
    (\<exists>x. r = Inr (length (fs_handles s)) \<and> fs_handles s' = fs_handles s @ [x])"
  using assms
  by (auto simp: openLogFile_def os_OpenAppend_def new_handle_def new_file_def Let_def
      split: prod.splits sum.splits option.splits if_splits)

lemma only_open_opened:
  assumes closed: "\<And>h. n \<le> h \<Longrightarrow> \<not> handle_open s h" and run: "openLogFile sys p s = (r, s')"
    and h: "n \<le> h" "handle_open s' h"
  shows "r = Inr h"
  using openLogFile_handles [OF run] closed [OF h(1)] h(2)
  by (auto simp: handle_open_def nth_append less_Suc_eq)

lemma only_open_reopen:
  assumes "\<And>h. n \<le> h \<Longrightarrow> \<not> handle_open (lg_fs st) h"
  shows "only_open n (rot_reopen env cfg st)"
  using only_open_opened [OF assms]
  by (fastforce simp: only_open_def rot_reopen_def split: prod.split sum.split)

lemma only_open_tick:
  assumes only: "only_open n st" and run: "monitor_tick env cfg now st = Inr st'"
  shows "only_open n st'"
proof (cases "rotateLog env cfg now st = Inr st' \<and> lg_file st \<noteq> None")
  case True
  then obtain h where h: "lg_file st = Some h" by auto
  let ?r = "rot_rename env cfg now (rot_close env h st)"
  have "\<not> handle_open (lg_fs ?r) h'" if "n \<le> h'" for h'
    using only_open_close [OF only h that, of "le_sys env"]
    by (simp add: rot_rename_def rot_close_def handle_open_def same_handles)
  then have "only_open n (rot_reopen env cfg ?r)" by (rule only_open_reopen)
  moreover obtain s where "cleanOldBackups (le_sys env) cfg (lg_fs (rot_reopen env cfg ?r)) = Inr s"
    and "st' = (rot_reopen env cfg ?r)\<lparr>lg_fs := s\<rparr>"
    using True h by (auto simp: rotateLog_def rot_clean_def split: sum.splits)
  ultimately show ?thesis by (auto intro: only_open_same simp: same_handles_clean)
next
  case False
  then have "st' = st"
    using run by (auto simp: monitor_tick_def rotateLog_def split: option.splits sum.splits if_splits)
  then show ?thesis using only by simp
qed

lemma only_open_message:
  assumes only: "only_open n st" and run: "log_message lib env c msg st = (b, st')"
    and inst: "lg_instance st \<noteq> None"
  shows "only_open n st'"
proof -
  have "fs_handles (lg_fs st') = fs_handles (lg_fs st) \<and> lg_file st' = lg_file st"
    using run inst same_handles(4)
    by (auto simp: log_message_def Get_def write_out_def out_write_def Let_def
        split: option.splits prod.splits if_splits) (metis snd_conv same_handles(4))+
  then show ?thesis using only only_open_same by blast
qed

lemma only_open_close_file: "only_open n st \<Longrightarrow> only_open n (close_file env st)"
  using only_open_close [of n st _ _ "le_sys env"]
  by (cases "lg_file st") (simp_all add: close_file_def only_open_def Let_def)

lemma only_open_Initialize:
  "only_open (length (fs_handles disk)) (snd (Initialize lib env cfg (log_start disk)))"
proof -
  let ?n = "length (fs_handles disk)" and ?p = "FilePath cfg"
  let ?m = "os_MkdirAll (le_sys env) (Dir ?p) (octal 7 5 0) disk"
  have closed: "\<not> handle_open s h" if "?n \<le> h" "fs_handles s = fs_handles disk" for s h
    using that by (simp add: handle_open_def)
  have made: "fs_handles (snd ?m) = fs_handles disk" by (rule same_handles)
  obtain r s where op: "openLogFile (le_sys env) ?p (snd ?m) = (r, s)" by force
  have "r = Inr h" if "?n \<le> h" "handle_open s h" for h
    using only_open_opened [OF closed [OF _ made] op] that by blast
  with closed made op show ?thesis
    by (cases ?m; cases "fst ?m"; cases r)
      (auto simp: only_open_def Initialize_def setupFileOutput_def log_start_def Let_def)
qed

definition open_inv :: "nat \<Rightarrow> 'v log_sys \<Rightarrow> bool" where
  "open_inv n s \<longleftrightarrow> closing_inv s \<and> only_open n (ls_st s)"

lemma open_inv_init:
  "log_sys_init lib env cfg disk 1 s \<Longrightarrow> open_inv (length (fs_handles disk)) s"
  using only_open_Initialize [of disk lib env cfg] closing_inv_init [of lib env cfg disk s]
  by (auto simp: open_inv_def log_sys_init_def Let_def)

lemma open_inv_step:
  assumes inv: "open_inv n s" and step: "log_step lib env cfg s t" and max: "0 \<le> MaxBackups cfg"
  shows "open_inv n t"
proof -
  have c: "closing_inv s" and only: "only_open n (ls_st s)" using inv by (simp_all add: open_inv_def)
  from step have "only_open n (ls_st t)"
  proof cases
    case (logs c msg st')
    then show ?thesis using only_open_message [OF only logs(3)] c by (simp add: closing_inv_def)
  next
    case (tick_ends now st')
    then show ?thesis using only_open_tick [OF only tick_ends(4)] by simp
  qed (use only in \<open>simp_all add: only_open_close_file\<close>)
  then show ?thesis using closing_inv_step [OF c step max] by (simp add: open_inv_def)
qed

lemma closing_system:
  "0 \<le> MaxBackups cfg \<Longrightarrow>
   inv_system (log_sys_init lib env cfg disk 1) (log_step lib env cfg) (open_inv (length (fs_handles disk)))"
  by unfold_locales (auto intro: open_inv_init open_inv_step)

text \<open>The ways to the end of \<open>Close\<close>.\<close>

lemma closing_ends:
  assumes inv: "closing_inv s" and "ls_closers s = [Waits]" "ls_monitor s \<in> {NoMonitor, Stopped}"
  shows "\<exists>t. (log_step lib env cfg)\<^sup>*\<^sup>* s t \<and> ls_closers t = [HasReturned]"
proof -
  let ?t = "s\<lparr>ls_st := close_file env (ls_st s), ls_closed := False, ls_closers := (ls_closers s)[0 := HasReturned]\<rparr>"
  have "log_step lib env cfg s ?t"
    by (rule close_ends) (use assms in \<open>auto simp: closing_inv_def\<close>)
  moreover have "ls_closers ?t = [HasReturned]" using assms by simp
  ultimately show ?thesis by blast
qed

lemma closing_waits:
  assumes inv: "closing_inv s" and "ls_closers s = [Waits]" "ls_monitor s \<noteq> Ticking"
  shows "\<exists>t. (log_step lib env cfg)\<^sup>*\<^sup>* s t \<and> ls_closers t = [HasReturned]"
proof (cases "ls_monitor s = Watching")
  case True
  let ?t = "s\<lparr>ls_monitor := Stopped\<rparr>"
  have step: "log_step lib env cfg s ?t"
    by (rule monitor_stops) (use True assms in \<open>auto simp: closing_inv_def\<close>)
  have "closing_inv ?t" using True assms by (auto simp: closing_inv_def)
  then obtain t where "(log_step lib env cfg)\<^sup>*\<^sup>* ?t t" "ls_closers t = [HasReturned]"
    using closing_ends [of ?t lib env cfg] assms by auto
  then show ?thesis using step by (blast intro: converse_rtranclp_into_rtranclp)
next
  case False
  then show ?thesis using closing_ends [OF inv] assms by (cases "ls_monitor s") auto
qed

lemma closing_not_ticking:
  assumes inv: "closing_inv s" and nt: "ls_monitor s \<noteq> Ticking" and max: "0 \<le> MaxBackups cfg"
  shows "\<exists>t. (log_step lib env cfg)\<^sup>*\<^sup>* s t \<and> ls_closers t = [HasReturned]"
proof -
  consider "ls_closers s = [Called]" | "ls_closers s = [Waits]" | "ls_closers s = [HasReturned]"
    using inv by (auto simp: closing_inv_def)
  then show ?thesis
  proof cases
    case 1
    let ?t = "if lg_stop (ls_st s) then s\<lparr>ls_closed := True, ls_closers := (ls_closers s)[0 := Waits]\<rparr>
      else s\<lparr>ls_closers := (ls_closers s)[0 := Waits]\<rparr>"
    have step: "log_step lib env cfg s ?t"
      using close_signals [of s 0 lib env cfg] close_no_channel [of s 0 lib env cfg] 1 nt inv
      by (auto simp: closing_inv_def)
    have "closing_inv ?t" by (rule closing_inv_step [OF inv step max])
    moreover have "ls_closers ?t = [Waits]" "ls_monitor ?t \<noteq> Ticking" using 1 nt by auto
    ultimately show ?thesis using closing_waits [of ?t lib env cfg] step
      by (blast intro: converse_rtranclp_into_rtranclp)
  qed (use closing_waits [OF inv] nt in auto)
qed

section \<open>Properties\<close>

text \<open>
  C30: one \<open>Close\<close> is safe and can always return. With one call of \<open>Close\<close>, a \<open>MaxBackups\<close> that
  is not negative, and whatever calls of the system fail, in every reachable state of the logger
  nothing has panicked and there are steps after which the call has returned. Whenever it has
  returned, the monitor has ended, no file is remembered, and every file that the logger opened
  since its start, by \<open>Initialize\<close> or in a rotation, is closed.
\<close>

theorem single_close_returns:
  assumes reach: "reach (log_sys_init lib env cfg disk 1) (log_step lib env cfg) s"
    and max: "0 \<le> MaxBackups cfg"
  shows "\<not> ls_crashed s \<and>
    (\<exists>t. (log_step lib env cfg)\<^sup>*\<^sup>* s t \<and> ls_closers t = [HasReturned]) \<and>
    (ls_closers s = [HasReturned] \<longrightarrow> ls_monitor s \<in> {NoMonitor, Stopped} \<and> lg_file (ls_st s) = None \<and>
       (\<forall>h \<ge> length (fs_handles disk). \<not> handle_open (lg_fs (ls_st s)) h))"
proof -
  have "open_inv (length (fs_handles disk)) s"
    by (rule inv_system.inv_reach [OF closing_system [OF max] reach])
  then have inv: "closing_inv s" and only: "only_open (length (fs_handles disk)) (ls_st s)"
    by (simp_all add: open_inv_def)
  have "\<exists>t. (log_step lib env cfg)\<^sup>*\<^sup>* s t \<and> ls_closers t = [HasReturned]"
  proof (cases "ls_monitor s = Ticking")
    case True
    obtain st' where st': "monitor_tick env cfg 0 (ls_st s) = Inr st'"
      using tick_no_panic [OF max] by (metis sumE)
    let ?t = "s\<lparr>ls_monitor := Watching, ls_st := st'\<rparr>"
    have step: "log_step lib env cfg s ?t"
      by (rule tick_ends) (use inv True st' in \<open>auto simp: closing_inv_def\<close>)
    have "closing_inv ?t" by (rule closing_inv_step [OF inv step max])
    then obtain t where "(log_step lib env cfg)\<^sup>*\<^sup>* ?t t" "ls_closers t = [HasReturned]"
      using closing_not_ticking [of ?t cfg lib env] max by auto
    then show ?thesis using step by (blast intro: converse_rtranclp_into_rtranclp)
  qed (rule closing_not_ticking [OF inv _ max])
  then show ?thesis using inv only by (auto simp: closing_inv_def only_open_def)
qed

lemma small_log_monitor:
  "lg_monitors (snd (Initialize plain_lib quiet_env small_log (log_start empty_disk))) = [small_log]"
proof -
  have "log_site small_log (lg_fs (log_start empty_disk))" using small_log_site by (simp add: log_start_def)
  then show ?thesis
  proof (rule Initialize_ok [of _ _ quiet_env plain_lib])
    fix st'
    assume "Initialize plain_lib quiet_env small_log (log_start empty_disk) = (None, st')"
      and "lg_monitors st' = (if MaxSize small_log > 0 \<and> \<not> le_test quiet_env
        then small_log # lg_monitors (log_start empty_disk) else lg_monitors (log_start empty_disk))"
    then show ?thesis by (simp add: quiet_env_def log_start_def) (simp add: small_log_def)
  qed (simp_all add: quiet_env_def log_start_def)
qed

definition small_sys :: "nat \<Rightarrow> nat log_sys" where
  "small_sys n = \<lparr>ls_st = snd (Initialize plain_lib quiet_env small_log (log_start empty_disk)),
     ls_monitor = Watching, ls_closed = False, ls_closers = replicate n Called, ls_crashed = False\<rparr>"

lemma small_sys_init: "log_sys_init plain_lib quiet_env small_log empty_disk n (small_sys n)"
  by (simp add: log_sys_init_def small_sys_def small_log_monitor Let_def)

theorem single_close_returns_witness:
  "\<exists>t. (log_step plain_lib quiet_env small_log)\<^sup>*\<^sup>* (small_sys 1) t \<and> ls_closers t = [HasReturned]"
proof -
  have "reach (log_sys_init plain_lib quiet_env small_log empty_disk 1)
      (log_step plain_lib quiet_env small_log) (small_sys 1)"
    by (rule reach_init) (rule small_sys_init)
  from single_close_returns [OF this] show ?thesis by (simp add: small_log_max)
qed

text \<open>
  C37: two calls of \<open>Close\<close> can crash the program. If the monitor runs, there is a schedule in
  which the second call comes while the first one waits and closes the stop channel again.
\<close>

theorem double_close_crashes:
  assumes "lg_monitors (snd (Initialize lib env cfg (log_start disk))) \<noteq> []"
  shows "\<exists>s. reach (log_sys_init lib env cfg disk 2) (log_step lib env cfg) s \<and> ls_crashed s"
proof -
  let ?st = "snd (Initialize lib env cfg (log_start disk))"
  let ?s0 = "\<lparr>ls_st = ?st, ls_monitor = Watching, ls_closed = False, ls_closers = replicate 2 Called,
    ls_crashed = False\<rparr>"
  let ?s1 = "?s0\<lparr>ls_closed := True, ls_closers := (ls_closers ?s0)[0 := Waits]\<rparr>"
  have "log_sys_init lib env cfg disk 2 ?s0" using assms by (simp add: log_sys_init_def Let_def)
  then have "reach (log_sys_init lib env cfg disk 2) (log_step lib env cfg) ?s0" by (rule reach_init)
  moreover have "log_step lib env cfg ?s0 ?s1"
    by (rule close_signals) (use assms Initialize_stop in auto)
  ultimately have "reach (log_sys_init lib env cfg disk 2) (log_step lib env cfg) ?s1" by (rule reach_step)
  moreover have "log_step lib env cfg ?s1 (?s1\<lparr>ls_crashed := True\<rparr>)"
    by (rule close_panics [of _ 1]) (use assms Initialize_stop in \<open>auto simp: numeral_2_eq_2\<close>)
  ultimately have "reach (log_sys_init lib env cfg disk 2) (log_step lib env cfg) (?s1\<lparr>ls_crashed := True\<rparr>)"
    by (rule reach_step)
  then show ?thesis by (intro exI [of _ "?s1\<lparr>ls_crashed := True\<rparr>"] conjI) simp_all
qed

theorem double_close_crashes_witness:
  "\<exists>s. reach (log_sys_init plain_lib quiet_env small_log empty_disk 2)
         (log_step plain_lib quiet_env small_log) s \<and> ls_crashed s"
  by (rule double_close_crashes) (simp add: small_log_monitor)

end
