(* ===== verification/Slog_Logger.thy ===== *)
theory Slog_Logger
  imports Log_File
begin

text \<open>
  \<open>internal/infrastructure/logger/slog_logger.go\<close>: the second logger of the package, on
  \<open>log/slog\<close>, with its own file, its own rotation and its own state. A logger is its level, its
  output and whether it rewrites attributes (\<open>ReplaceAttr\<close>); the JSON line that \<open>slog\<close> makes of an
  entry is a parameter, as is the name of the calling line.

  Lemmas: its rotation treats the file as that of \<open>Logger\<close> does; unlike that one it never removes
  a backup, it forgets the level, and it does not recover when the new file cannot be opened.
\<close>

section \<open>State and set-up\<close>

definition LevelDebug :: int where "LevelDebug = -4"
definition LevelInfo :: int where "LevelInfo = 0"
definition LevelWarn :: int where "LevelWarn = 4"
definition LevelError :: int where "LevelError = 8"

record slogger =
  sg_level :: int
  sg_out :: log_out
  sg_replace :: bool

record slog_state =
  sl_instance :: "slogger option"
  sl_default :: "slogger option"
  sl_once :: bool
  sl_file :: "handle option"
  sl_rotateSize :: int
  sl_lastCheck :: int
  sl_fs :: file_system
  sl_stdout :: string

definition slog_start :: "file_system \<Rightarrow> slog_state" where
  "slog_start s = \<lparr>sl_instance = None, sl_default = None, sl_once = False, sl_file = None,
     sl_rotateSize = 0, sl_lastCheck = 0, sl_fs = s, sl_stdout = []\<rparr>"

definition slog_level :: "string \<Rightarrow> int" where
  "slog_level s =
     (if s = ''debug'' then LevelDebug else if s = ''info'' then LevelInfo
      else if s = ''warn'' \<or> s = ''warning'' then LevelWarn
      else if s = ''error'' then LevelError else LevelInfo)"

definition set_slog :: "slogger \<Rightarrow> slog_state \<Rightarrow> slog_state" where
  "set_slog g st = st\<lparr>sl_instance := Some g, sl_default := Some g\<rparr>"

definition InitializeSlog :: "log_env \<Rightarrow> log_config \<Rightarrow> slog_state \<Rightarrow> string go_error \<times> slog_state" where
  "InitializeSlog env cfg st =
     (if sl_once st then (None, st)
      else
        let st = st\<lparr>sl_once := True\<rparr>;
            start = (\<lambda>out st. set_slog \<lparr>sg_level = slog_level (Level cfg), sg_out = out, sg_replace = True\<rparr> st)
        in if FilePath cfg = [] then (None, start Stdout st)
           else
             (case os_MkdirAll (le_sys env) (Dir (FilePath cfg)) (octal 7 5 0) (sl_fs st) of
                (Some e, s) \<Rightarrow> (Some (''failed to create log directory: '' @ e), st\<lparr>sl_fs := s\<rparr>)
              | (None, s) \<Rightarrow>
                  (case os_OpenAppend (le_sys env) (FilePath cfg) (octal 6 0 0) s of
                     (Inl e, s) \<Rightarrow>
                       (Some (''failed to open log file: '' @ e), st\<lparr>sl_fs := s, sl_file := None\<rparr>)
                   | (Inr h, s) \<Rightarrow>
                       (None, start (StdoutAnd h)
                          (st\<lparr>sl_fs := s, sl_file := Some h, sl_rotateSize := MaxSize cfg\<rparr>)))))"

definition GetSlog :: "log_env \<Rightarrow> slog_state \<Rightarrow> slog_state" where
  "GetSlog env st =
     (if sl_instance st = None then
        let st = snd (InitializeSlog env fallback_config st)
        in if sl_instance st = None
           then st\<lparr>sl_instance := Some \<lparr>sg_level = LevelInfo, sg_out = Stdout, sg_replace = False\<rparr>\<rparr>
           else st
      else st)"

section \<open>Rotation\<close>

text \<open>The name of the file is the one it was opened with.\<close>

definition doRotateSlogFile :: "log_env \<Rightarrow> time \<Rightarrow> slog_state \<Rightarrow> slog_state" where
  "doRotateSlogFile env now st =
     (case sl_file st of
        None \<Rightarrow> st
      | Some h \<Rightarrow>
          let s = snd (file_Close (le_sys env) h (sl_fs st));
              oldPath = fh_name (fs_handles s ! h);
              s = snd (os_Rename (le_sys env) oldPath
                    (oldPath @ ''.'' @ time_stamp (le_zone env) now) s)
          in case os_OpenAppend (le_sys env) oldPath (octal 6 0 0) s of
               (Inl e, s) \<Rightarrow> st\<lparr>sl_fs := s\<rparr>
             | (Inr h, s) \<Rightarrow>
                 set_slog \<lparr>sg_level = LevelInfo, sg_out = StdoutAnd h, sg_replace = False\<rparr>
                   (st\<lparr>sl_fs := s, sl_file := Some h\<rparr>))"

definition rotateSlogFile :: "log_env \<Rightarrow> time \<Rightarrow> slog_state \<Rightarrow> slog_state" where
  "rotateSlogFile env now st = (if sl_file st = None then st else doRotateSlogFile env now st)"

definition Rotate :: "log_env \<Rightarrow> time \<Rightarrow> slog_state \<Rightarrow> string go_error \<times> slog_state" where
  "Rotate env now st =
     (if sl_file st = None then (Some ''no log file to rotate'', st)
      else (None, doRotateSlogFile env now st))"

text \<open>The clock is read at the check and again, if the file is too large, for the backup's name.\<close>

definition checkRotation :: "log_env \<Rightarrow> time \<Rightarrow> time \<Rightarrow> slog_state \<Rightarrow> slog_state" where
  "checkRotation env now now' st =
     (case sl_file st of
        None \<Rightarrow> st
      | Some h \<Rightarrow>
          if sl_rotateSize st \<le> 0 then st
          else if sl_lastCheck st \<ge> unix_seconds now then st
          else
            let st = st\<lparr>sl_lastCheck := unix_seconds now\<rparr>
            in case file_Size (le_sys env) h (sl_fs st) of
                 Inl e \<Rightarrow> st
               | Inr n \<Rightarrow> if n > sl_rotateSize st then rotateSlogFile env now' st else st)"

section \<open>Logging\<close>

text \<open>\<open>slog_line replace level msg\<close> is the line for a message; a missing logger is a panic.\<close>

datatype slog_panic = NilDereference

type_synonym slog_line = "bool \<Rightarrow> int \<Rightarrow> string \<Rightarrow> string"

definition LogAttrs :: "slog_line \<Rightarrow> log_env \<Rightarrow> int \<Rightarrow> string \<Rightarrow> slog_state \<Rightarrow> slog_panic + slog_state" where
  "LogAttrs line env lvl msg st =
     (case sl_instance st of
        None \<Rightarrow> Inl NilDereference
      | Some g \<Rightarrow>
          if lvl < sg_level g then Inr st
          else (case out_write env (out_file (sg_out g)) (line (sg_replace g) lvl msg) (sl_fs st) of
                  (e, x, s) \<Rightarrow> Inr (st\<lparr>sl_stdout := sl_stdout st @ x, sl_fs := s\<rparr>)))"

definition LogDebug :: "slog_line \<Rightarrow> log_env \<Rightarrow> time \<Rightarrow> time \<Rightarrow> string \<Rightarrow> slog_state \<Rightarrow>
    slog_panic + slog_state" where
  "LogDebug line env now now' msg st =
     (let st = checkRotation env now now' st in
      case sl_instance st of
        None \<Rightarrow> Inl NilDereference
      | Some g \<Rightarrow> if LevelDebug < sg_level g then Inr st else LogAttrs line env LevelDebug msg st)"

definition LogInfo :: "slog_line \<Rightarrow> log_env \<Rightarrow> time \<Rightarrow> time \<Rightarrow> string \<Rightarrow> slog_state \<Rightarrow>
    slog_panic + slog_state" where
  "LogInfo line env now now' msg st = LogAttrs line env LevelInfo msg (checkRotation env now now' st)"

definition LogWarn :: "slog_line \<Rightarrow> log_env \<Rightarrow> time \<Rightarrow> time \<Rightarrow> string \<Rightarrow> slog_state \<Rightarrow>
    slog_panic + slog_state" where
  "LogWarn line env now now' msg st = LogAttrs line env LevelWarn msg (checkRotation env now now' st)"

text \<open>The error is rendered before the level is looked at; a \<open>nil\<close> error panics.\<close>

definition LogError :: "slog_line \<Rightarrow> log_env \<Rightarrow> time \<Rightarrow> time \<Rightarrow> string \<Rightarrow> string go_error \<Rightarrow> slog_state \<Rightarrow>
    slog_panic + slog_state" where
  "LogError line env now now' msg err st =
     (let st = checkRotation env now now' st in
      case err of
        None \<Rightarrow> Inl NilDereference
      | Some e \<Rightarrow> LogAttrs line env LevelError (msg @ e) st)"

definition CloseSlog :: "log_env \<Rightarrow> slog_state \<Rightarrow> slog_state" where
  "CloseSlog env st =
     (let st = (case sl_file st of
                  None \<Rightarrow> st
                | Some h \<Rightarrow>
                    st\<lparr>sl_fs := snd (file_Close (le_sys env) h (sl_fs st)), sl_file := None\<rparr>)
      in st\<lparr>sl_once := False, sl_instance := None\<rparr>)"

section \<open>Facts about its rotation\<close>

text \<open>The logger writes to the file at its path, which it was opened with.\<close>

definition slog_inv :: "log_config \<Rightarrow> slog_state \<Rightarrow> bool" where
  "slog_inv cfg st \<longleftrightarrow> log_place cfg (sl_fs st) \<and>
     (\<exists>h g. sl_file st = Some h \<and> sl_instance st = Some g \<and> sg_out g = StdoutAnd h \<and>
        handle_open (sl_fs st) h \<and> fh_name (fs_handles (sl_fs st) ! h) = FilePath cfg \<and>
        inode_at (sl_fs st) (log_loc cfg) = Some (fh_inode (fs_handles (sl_fs st) ! h)))"

text \<open>The logger of \<open>Logger\<close> that has the same file.\<close>

definition same_file :: "slog_state \<Rightarrow> 'v log_state \<Rightarrow> bool" where
  "same_file sl st \<longleftrightarrow> lg_fs st = sl_fs sl \<and> lg_file st = sl_file sl"

text \<open>
  Both rotations do the same to the disk, under any faults: what \<open>rotateLog\<close> does until it
  cleans up is what \<open>doRotateSlogFile\<close> does.
\<close>

lemma handle_name_Close: "fh_name (fs_handles (snd (file_Close sys h s)) ! h) = fh_name (fs_handles s ! h)"
  by (simp add: file_Close_def handle_open_def)

lemma same_rotation:
  assumes "same_file sl st" and "sl_file sl = Some h"
    and "fh_name (fs_handles (sl_fs sl) ! h) = FilePath cfg"
  shows "sl_fs (doRotateSlogFile env now sl) =
    lg_fs (rot_reopen env cfg (rot_rename env cfg now (rot_close env h st)))"
  using assms
  by (simp add: doRotateSlogFile_def rot_reopen_def rot_rename_def rot_close_def same_file_def
      handle_name_Close backup_path_def openLogFile_def set_slog_def Let_def split: prod.split sum.split)

lemma slog_invE:
  assumes "slog_inv cfg st"
  obtains h g where "sl_file st = Some h" "sl_instance st = Some g" "sg_out g = StdoutAnd h"
    "handle_open (sl_fs st) h" "fh_name (fs_handles (sl_fs st) ! h) = FilePath cfg"
    "inode_at (sl_fs st) (log_loc cfg) = Some (fh_inode (fs_handles (sl_fs st) ! h))"
    "log_place cfg (sl_fs st)"
  using assms by (auto simp: slog_inv_def)

lemma rotated_handles:
  "length (fs_handles (rotated_fs cfg stamp h s)) = Suc (length (fs_handles s))"
  "fs_handles (rotated_fs cfg stamp h s) ! length (fs_handles s) =
     \<lparr>fh_name = FilePath cfg, fh_inode = fs_next s, fh_open = True\<rparr>"
  by (simp_all add: rotated_fs_def Let_def nth_append)

lemma doRotate_ok:
  fixes now :: time
  assumes inv: "slog_inv cfg st" and env: "le_sys env = no_fault"
  defines "stamp \<equiv> time_stamp (le_zone env) now"
  obtains h where "sl_file st = Some h"
    and "doRotateSlogFile env now st =
      set_slog \<lparr>sg_level = LevelInfo, sg_out = StdoutAnd (length (fs_handles (sl_fs st))), sg_replace = False\<rparr>
        (st\<lparr>sl_fs := rotated_fs cfg stamp h (sl_fs st), sl_file := Some (length (fs_handles (sl_fs st)))\<rparr>)"
    and "slog_inv cfg (doRotateSlogFile env now st)"
proof (rule slog_invE [OF inv])
  fix h g
  let ?s = "sl_fs st"
  assume h: "sl_file st = Some h" "sl_instance st = Some g" "sg_out g = StdoutAnd h"
    "handle_open ?s h" "fh_name (fs_handles ?s ! h) = FilePath cfg"
    and at: "inode_at ?s (log_loc cfg) = Some (fh_inode (fs_handles ?s ! h))" and place: "log_place cfg ?s"
  define lg :: "nat log_state" where "lg = \<lparr>lg_instance = Some \<lparr>lr_level = 0, lr_format = json_format, lr_out = StdoutAnd h\<rparr>,
     lg_once = True, lg_file = Some h, lg_stop = False, lg_monitors = [], lg_fs = ?s,
     lg_stdout = [], lg_default = []\<rparr>"
  have "log_inv cfg lg" using h at place by (simp add: log_inv_def lg_def)
  note rot = rotation_state [OF this _ env, of h now]
  have fs: "lg_fs (rot_reopen env cfg (rot_rename env cfg now (rot_close env h lg))) = rotated_fs cfg stamp h ?s"
    and lf: "lg_file (rot_reopen env cfg (rot_rename env cfg now (rot_close env h lg))) =
      Some (length (fs_handles ?s))"
    using rot by (simp_all add: stamp_def) (simp_all add: lg_def)
  let ?mid = "rot_rename env cfg now (rot_close env h lg)"
  have mid: "lg_fs ?mid = snd (os_Rename (le_sys env) (FilePath cfg) (FilePath cfg @ ''.'' @ stamp)
      (snd (file_Close (le_sys env) h ?s)))"
    by (simp add: rot_rename_def rot_close_def backup_path_def stamp_def) (simp add: lg_def)
  have "os_OpenAppend (le_sys env) (FilePath cfg) (octal 6 0 0) (lg_fs ?mid) =
      (Inr (length (fs_handles ?s)), rotated_fs cfg stamp h ?s)"
    using fs lf
    by (cases "os_OpenAppend (le_sys env) (FilePath cfg) (octal 6 0 0) (lg_fs ?mid)")
      (auto simp: rot_reopen_def openLogFile_def split: sum.splits)
  then have run: "doRotateSlogFile env now st =
      set_slog \<lparr>sg_level = LevelInfo, sg_out = StdoutAnd (length (fs_handles ?s)), sg_replace = False\<rparr>
        (st\<lparr>sl_fs := rotated_fs cfg stamp h ?s, sl_file := Some (length (fs_handles ?s))\<rparr>)"
    unfolding mid by (simp add: doRotateSlogFile_def h handle_name_Close Let_def stamp_def)
  note R = rotated_fs_facts [OF place h(4) at time_stamp_plain [of "le_zone env" now]]
  have "slog_inv cfg (doRotateSlogFile env now st)"
    using R(1-3) by (simp add: run slog_inv_def set_slog_def stamp_def rotated_handles)
  with h(1) run show thesis using that by blast
qed

lemma doRotate_fs:
  fixes now :: time
  assumes "slog_inv cfg st" and "le_sys env = no_fault"
  obtains h where "sl_file st = Some h" and "slog_inv cfg (doRotateSlogFile env now st)"
    and "sl_fs (doRotateSlogFile env now st) = rotated_fs cfg (time_stamp (le_zone env) now) h (sl_fs st)"
  by (rule doRotate_ok [OF assms, of now]) (use that in \<open>auto simp: set_slog_def\<close>)

section \<open>Properties\<close>

text \<open>
  C38: this logger keeps every backup. Without faults, rotations at later and later local
  seconds lose nothing of the log and each adds one backup: their number grows without bound,
  whatever \<open>MaxBackups\<close> asks for.
\<close>

theorem slog_never_cleans:
  fixes ts :: "time list"
  assumes "slog_inv cfg st" and "le_sys env = no_fault" and "later_ticks env cfg (sl_fs st) ts"
  shows "log_text cfg (sl_fs (fold (doRotateSlogFile env) ts st)) = log_text cfg (sl_fs st) \<and>
    length (backups cfg (sl_fs (fold (doRotateSlogFile env) ts st))) =
      length (backups cfg (sl_fs st)) + length ts"
  using assms
proof (induction ts arbitrary: st)
  case (Cons now ts)
  let ?s = "sl_fs st" and ?n = "backup_name cfg (time_stamp (le_zone env) now)"
  let ?st = "doRotateSlogFile env now st"
  obtain h where h: "sl_file st = Some h" "slog_inv cfg ?st"
    and run: "sl_fs ?st = rotated_fs cfg (time_stamp (le_zone env) now) h ?s"
    using doRotate_fs [OF Cons.prems(1,2), of now] by metis
  have H: "log_place cfg ?s" "handle_open ?s h"
    "inode_at ?s (log_loc cfg) = Some (fh_inode (fs_handles ?s ! h))"
    using Cons.prems(1) h(1) by (auto simp: slog_inv_def)
  have new: "\<And>b. b \<in> set (backups cfg ?s) \<Longrightarrow> b < ?n"
    using Cons.prems(3) by (simp add: later_ticks_def)
  have bk: "backups cfg (sl_fs ?st) = backups cfg ?s @ [?n]"
    and tx: "map (backup_text cfg (sl_fs ?st)) (backups cfg ?s @ [?n]) =
      map (backup_text cfg ?s) (backups cfg ?s) @ [content ?s (log_loc cfg)]"
    unfolding run using rotated_newest [OF H time_stamp_plain] new by blast+
  have "content (sl_fs ?st) (log_loc cfg) = []"
    unfolding run by (rule rotated_fs_facts(5) [OF H time_stamp_plain])
  then have lt: "log_text cfg (sl_fs ?st) = log_text cfg ?s"
    unfolding log_text_def bk tx by simp
  have "later_ticks env cfg (sl_fs ?st) ts"
    by (rule later_ticks_Cons [OF Cons.prems(3)]) (simp add: bk)
  from Cons.IH [OF h(2) Cons.prems(2) this] show ?case by (simp add: lt bk)
qed simp

definition slog_sample :: slog_state where
  "slog_sample = \<lparr>sl_instance = Some \<lparr>sg_level = LevelError, sg_out = StdoutAnd 0, sg_replace = True\<rparr>,
     sl_default = None, sl_once = True, sl_file = Some 0, sl_rotateSize = 3, sl_lastCheck = 0,
     sl_fs = full_disk, sl_stdout = []\<rparr>"

lemma slog_sample_inv: "slog_inv small_log slog_sample"
  by (simp add: slog_inv_def slog_sample_def full_log_inv small_log_locs full_disk_inode handle_open_def)
    (simp add: full_disk_def small_log_def)

theorem slog_never_cleans_witness:
  "length (backups small_log (sl_fs (fold (doRotateSlogFile quiet_env)
     [100 * second, 200 * second, 300 * second] slog_sample))) = 4 \<and> MaxBackups small_log = 1"
proof -
  have "later_ticks quiet_env small_log (sl_fs slog_sample) [100 * second, 200 * second, 300 * second]"
    by (simp add: later_ticks_def slog_sample_def full_backups quiet_env_def local_seconds_def
        backup_name_def small_log_locs)
  from slog_never_cleans [OF slog_sample_inv _ this] show ?thesis
    by (simp add: quiet_env_def small_log_max) (simp add: slog_sample_def full_backups)
qed

text \<open>
  A rotation forgets the level. Whatever level was configured, the logger that a successful
  rotation installs has level info and no longer rewrites attributes: it logs what an error
  logger suppressed and suppresses what a debug logger showed.
\<close>

theorem rotation_forgets_level:
  fixes now :: time
  assumes inv: "slog_inv cfg st" and env: "le_sys env = no_fault"
  shows "\<exists>h. sl_instance (doRotateSlogFile env now st) =
      Some \<lparr>sg_level = LevelInfo, sg_out = StdoutAnd h, sg_replace = False\<rparr> \<and>
    LogAttrs line env LevelDebug msg (doRotateSlogFile env now st) = Inr (doRotateSlogFile env now st) \<and>
    (le_stdout env = None \<longrightarrow> (\<exists>st'. LogAttrs line env LevelInfo msg (doRotateSlogFile env now st) = Inr st' \<and>
       sl_stdout st' = sl_stdout st @ line False LevelInfo msg))"
proof (rule doRotate_ok [OF inv env, of now])
  fix h
  let ?s = "sl_fs st"
  assume "doRotateSlogFile env now st =
      set_slog \<lparr>sg_level = LevelInfo, sg_out = StdoutAnd (length (fs_handles ?s)), sg_replace = False\<rparr>
        (st\<lparr>sl_fs := rotated_fs cfg (time_stamp (le_zone env) now) h ?s, sl_file := Some (length (fs_handles ?s))\<rparr>)"
  then show ?thesis
    by (simp add: set_slog_def LogAttrs_def LevelInfo_def LevelDebug_def out_write_def split: prod.split)
qed

theorem rotation_forgets_level_witness:
  "LogAttrs (\<lambda>r l m. m) quiet_env LevelInfo ''noise'' slog_sample = Inr slog_sample \<and>
   (\<exists>st'. LogAttrs (\<lambda>r l m. m) quiet_env LevelInfo ''noise'' (doRotateSlogFile quiet_env 0 slog_sample) = Inr st' \<and>
      sl_stdout st' = ''noise'')"
proof -
  have "\<exists>st'. LogAttrs (\<lambda>r l m. m) quiet_env LevelInfo ''noise'' (doRotateSlogFile quiet_env 0 slog_sample) = Inr st' \<and>
      sl_stdout st' = sl_stdout slog_sample @ ''noise''"
    using rotation_forgets_level [OF slog_sample_inv, of quiet_env 0 "\<lambda>r l m. m" "''noise''"]
    by (auto simp: quiet_env_def)
  then show ?thesis
    by (simp add: slog_sample_def) (simp add: LogAttrs_def LevelInfo_def LevelError_def)
qed

text \<open>
  No recovery. If the new file cannot be opened during a rotation, the logger is left with
  the closed one. From then on no message reaches any file and no rotation is tried again, even
  when the system works: the size of a closed file cannot be read.
\<close>

theorem slog_does_not_recover:
  fixes now :: time
  assumes inv: "slog_inv cfg st" and h: "sl_file st = Some h"
    and fail: "\<And>s. le_sys env s (OpenCall (FilePath cfg) (octal 6 0 0)) \<noteq> None"
  defines "st' \<equiv> doRotateSlogFile env now st"
  shows "sl_file st' = Some h \<and> \<not> handle_open (sl_fs st') h \<and>
    sl_file (checkRotation env' t t' st') = Some h \<and> sl_fs (checkRotation env' t t' st') = sl_fs st' \<and>
    (\<exists>st''. LogWarn line env' t t' msg st' = Inr st'' \<and> sl_fs st'' = sl_fs st')"
proof -
  obtain g where g: "sl_instance st = Some g" "sg_out g = StdoutAnd h"
    "fh_name (fs_handles (sl_fs st) ! h) = FilePath cfg"
    using inv h by (auto simp: slog_inv_def)
  let ?c = "snd (file_Close (le_sys env) h (sl_fs st))"
  let ?r = "snd (os_Rename (le_sys env) (FilePath cfg) (FilePath cfg @ ''.'' @ time_stamp (le_zone env) now) ?c)"
  have st': "st' = st\<lparr>sl_fs := ?r\<rparr>"
    using h g fail [of ?r]
    by (auto simp: st'_def doRotateSlogFile_def handle_name_Close os_OpenAppend_def Let_def split: option.split)
  have "\<not> handle_open ?c h" by (simp add: file_Close_def handle_open_def)
  moreover have "handle_open ?r h = handle_open ?c h"
    by (simp add: os_Rename_def handle_open_def split: option.split)
  ultimately have closed: "\<not> handle_open ?r h" by simp
  have check: "checkRotation env' t t' st' = st' \<or>
      checkRotation env' t t' st' = st'\<lparr>sl_lastCheck := unix_seconds t\<rparr>"
    using closed h by (simp add: checkRotation_def st' file_Size_def)
  have "\<exists>st''. LogWarn line env' t t' msg st' = Inr st'' \<and> sl_fs st'' = sl_fs st'"
    using check g closed
    by (auto simp: LogWarn_def LogAttrs_def st' out_write_def file_Write_def split: option.split)
  then show ?thesis using check closed h by (auto simp: st')
qed

theorem slog_does_not_recover_witness:
  "sl_file (doRotateSlogFile broken_env 0 slog_sample) = Some 0 \<and>
   sl_fs (checkRotation quiet_env (1000 * second) (1000 * second) (doRotateSlogFile broken_env 0 slog_sample)) =
     sl_fs (doRotateSlogFile broken_env 0 slog_sample)"
  using slog_does_not_recover [OF slog_sample_inv, of 0 broken_env 0 quiet_env "1000 * second" "1000 * second"]
  by (simp add: broken_env_def slog_sample_def)

lemma rotateLog_slog:
  fixes now :: time
  assumes "same_file sl st" and "sl_file sl = Some h"
    and "fh_name (fs_handles (sl_fs sl) ! h) = FilePath cfg"
  shows "map_sum (\<lambda>p. p) lg_fs (rotateLog env cfg now st) =
    cleanOldBackups (le_sys env) cfg (sl_fs (doRotateSlogFile env now sl))"
proof -
  have "lg_file st = Some h" using assms(1,2) by (simp add: same_file_def)
  then show ?thesis
    by (simp add: rotateLog_def rot_clean_def same_rotation [OF assms] split: sum.split)
qed

text \<open>
  C20: the two loggers treat their files alike. Started on the same disk with the same
  configuration they have, under any faults, the same effect on the disk, and end with the same
  open file or both fail. Rotating the same file, which each opened under the configured path,
  \<open>rotateLog\<close> leaves the disk that \<open>doRotateSlogFile\<close> leaves followed by the removal of backups,
  again under any faults; so when the directory then shows no more than \<open>MaxBackups\<close> backups,
  or cannot be read, the two disks are equal.
\<close>

theorem loggers_treat_files_alike:
  fixes now :: time
  assumes same: "same_file sl st" and path: "FilePath cfg \<noteq> []"
  shows "(\<not> sl_once sl \<and> \<not> lg_once st \<longrightarrow>
      same_file (snd (InitializeSlog env cfg sl)) (snd (Initialize lib env cfg st)) \<and>
      (fst (InitializeSlog env cfg sl) = None \<longleftrightarrow> fst (Initialize lib env cfg st) = None)) \<and>
    (\<forall>h. sl_file sl = Some h \<and> fh_name (fs_handles (sl_fs sl) ! h) = FilePath cfg \<longrightarrow>
      map_sum (\<lambda>p. p) lg_fs (rotateLog env cfg now st) =
        cleanOldBackups (le_sys env) cfg (sl_fs (doRotateSlogFile env now sl)) \<and>
      ((case os_ReadDir (le_sys env) (Dir (FilePath cfg)) (sl_fs (doRotateSlogFile env now sl)) of
          Inl e \<Rightarrow> True
        | Inr ns \<Rightarrow> int (length (filter (is_backup (Base (FilePath cfg))) ns)) \<le> MaxBackups cfg) \<longrightarrow>
       map_sum (\<lambda>p. p) lg_fs (rotateLog env cfg now st) = Inr (sl_fs (doRotateSlogFile env now sl))))"
proof (intro conjI allI impI)
  assume "\<not> sl_once sl \<and> \<not> lg_once st"
  with same path show "same_file (snd (InitializeSlog env cfg sl)) (snd (Initialize lib env cfg st))"
    and "fst (InitializeSlog env cfg sl) = None \<longleftrightarrow> fst (Initialize lib env cfg st) = None"
    by (auto simp: InitializeSlog_def Initialize_def setupFileOutput_def openLogFile_def same_file_def
        set_slog_def Let_def split: option.split prod.split sum.split)
next
  fix h
  assume "sl_file sl = Some h \<and> fh_name (fs_handles (sl_fs sl) ! h) = FilePath cfg"
  then show rot: "map_sum (\<lambda>p. p) lg_fs (rotateLog env cfg now st) =
      cleanOldBackups (le_sys env) cfg (sl_fs (doRotateSlogFile env now sl))"
    using rotateLog_slog [OF same] by blast
  assume "case os_ReadDir (le_sys env) (Dir (FilePath cfg)) (sl_fs (doRotateSlogFile env now sl)) of
      Inl e \<Rightarrow> True
    | Inr ns \<Rightarrow> int (length (filter (is_backup (Base (FilePath cfg))) ns)) \<le> MaxBackups cfg"
  then show "map_sum (\<lambda>p. p) lg_fs (rotateLog env cfg now st) = Inr (sl_fs (doRotateSlogFile env now sl))"
    unfolding rot by (auto simp: cleanOldBackups_def Let_def split: sum.splits)
qed

theorem loggers_treat_files_alike_witness:
  "same_file (snd (InitializeSlog quiet_env small_log (slog_start empty_disk)))
     (snd (Initialize plain_lib quiet_env small_log (log_start empty_disk))) \<and>
   map_sum (\<lambda>p. p) lg_fs (rotateLog quiet_env small_log 0 full_state) =
     cleanOldBackups no_fault small_log (sl_fs (doRotateSlogFile quiet_env 0 slog_sample))"
proof
  have path: "FilePath small_log \<noteq> []" by (simp add: small_log_def)
  have "same_file (slog_start empty_disk) (log_start empty_disk :: nat log_state)"
    and once: "\<not> sl_once (slog_start empty_disk) \<and> \<not> lg_once (log_start empty_disk :: nat log_state)"
    by (simp_all add: same_file_def slog_start_def log_start_def)
  from loggers_treat_files_alike [OF this(1) path, of quiet_env plain_lib] once
  show "same_file (snd (InitializeSlog quiet_env small_log (slog_start empty_disk)))
      (snd (Initialize plain_lib quiet_env small_log (log_start empty_disk)))" by blast
  have same: "same_file slog_sample full_state"
    by (simp add: same_file_def slog_sample_def full_state_def)
  have h: "sl_file slog_sample = Some 0 \<and> fh_name (fs_handles (sl_fs slog_sample) ! 0) = FilePath small_log"
    by (simp add: slog_sample_def full_disk_def small_log_def)
  have "le_sys quiet_env = no_fault" by (simp add: quiet_env_def)
  with loggers_treat_files_alike [OF same path, of quiet_env plain_lib 0] h
  show "map_sum (\<lambda>p. p) lg_fs (rotateLog quiet_env small_log 0 full_state) =
      cleanOldBackups no_fault small_log (sl_fs (doRotateSlogFile quiet_env 0 slog_sample))"
    by metis
qed

text \<open>
  The second rotation in a second destroys the first backup. If two rotations fall into
  the same second of local time, the second one renames the file over the backup of the first:
  what the log held before the first is gone, and only older backups and what was logged in
  between remain.
\<close>

theorem same_second_overwrites:
  fixes t t' :: time
  assumes inv: "slog_inv cfg st" and env: "le_sys env = no_fault"
    and newest: "\<And>b. b \<in> set (backups cfg (sl_fs st)) \<Longrightarrow> b < backup_name cfg (time_stamp (le_zone env) t)"
    and same: "time_stamp (le_zone env) t' = time_stamp (le_zone env) t"
  defines "st1 \<equiv> doRotateSlogFile env t st"
  shows "log_text cfg (sl_fs (doRotateSlogFile env t' st1)) =
      concat (map (backup_text cfg (sl_fs st)) (backups cfg (sl_fs st))) @
      content (sl_fs st1) (log_loc cfg)"
proof -
  let ?n = "backup_name cfg (time_stamp (le_zone env) t)" and ?s = "sl_fs st"
  let ?st2 = "doRotateSlogFile env t' st1"
  obtain h where h: "sl_file st = Some h" "slog_inv cfg st1"
    and run: "sl_fs st1 = rotated_fs cfg (time_stamp (le_zone env) t) h ?s"
    unfolding st1_def using doRotate_fs [OF inv env] by metis
  obtain h1 where h1: "sl_file st1 = Some h1"
    and run2: "sl_fs ?st2 = rotated_fs cfg (time_stamp (le_zone env) t) h1 (sl_fs st1)"
    using doRotate_fs [OF h(2) env, of t'] same by metis
  have H: "log_place cfg ?s" "handle_open ?s h"
    "inode_at ?s (log_loc cfg) = Some (fh_inode (fs_handles ?s ! h))"
    using inv h(1) by (auto simp: slog_inv_def)
  have H1: "log_place cfg (sl_fs st1)" "handle_open (sl_fs st1) h1"
    "inode_at (sl_fs st1) (log_loc cfg) = Some (fh_inode (fs_handles (sl_fs st1) ! h1))"
    using h(2) h1 by (auto simp: slog_inv_def)
  note ts = time_stamp_plain [of "le_zone env" t]
  have bk: "backups cfg (sl_fs st1) = backups cfg ?s @ [?n]"
    unfolding run using rotated_newest(1) [OF H ts] newest by blast
  have "insert ?n (set (backups cfg (sl_fs st1))) = set (backups cfg (sl_fs st1))" by (auto simp: bk)
  then have "backups cfg (sl_fs ?st2) = backups cfg (sl_fs st1)"
    unfolding run2 rotated_fs_facts(4) [OF H1 ts] by (simp only: sorted_backups)
  then have bk2: "backups cfg (sl_fs ?st2) = backups cfg ?s @ [?n]" by (simp only: bk)
  have old: "backup_text cfg (sl_fs ?st2) b = backup_text cfg ?s b" if "b \<in> set (backups cfg ?s)" for b
  proof -
    have "b \<noteq> ?n" "b \<in> set (backups cfg (sl_fs st1))" using newest [OF that] that by (auto simp: bk)
    then show ?thesis
      using rotated_fs_facts(7) [OF H1 ts, of b] rotated_fs_facts(7) [OF H ts that] run run2 by simp
  qed
  have new: "backup_text cfg (sl_fs ?st2) ?n = content (sl_fs st1) (log_loc cfg)"
    and cur: "content (sl_fs ?st2) (log_loc cfg) = []"
    using rotated_fs_facts(5,6) [OF H1 ts] by (simp_all add: run2)
  have "map (backup_text cfg (sl_fs ?st2)) (backups cfg ?s) = map (backup_text cfg ?s) (backups cfg ?s)"
    by (rule map_cong [OF refl old])
  then show ?thesis unfolding log_text_def bk2 map_append cur by (simp only: concat_append) (simp add: new)
qed

lemma slog_sample_text:
  "backup_text small_log full_disk ''app.log-old'' = ''precious''"
  "content full_disk (log_loc small_log) = ''abcd''"
  by (simp_all add: backup_text_def content_def below_def small_log_locs full_disk_inode)
    (simp_all add: full_disk_def)

theorem same_second_overwrites_witness:
  "log_text small_log (sl_fs slog_sample) = ''preciousabcd'' \<and>
   log_text small_log (sl_fs (doRotateSlogFile quiet_env (second div 2)
     (doRotateSlogFile quiet_env 0 slog_sample))) = ''precious''"
proof -
  let ?st1 = "doRotateSlogFile quiet_env 0 slog_sample"
  have "le_sys quiet_env = no_fault" by (simp add: quiet_env_def)
  then obtain h where h: "sl_file slog_sample = Some h"
    and run: "sl_fs ?st1 = rotated_fs small_log (time_stamp (le_zone quiet_env) 0) h full_disk"
    using doRotate_fs [OF slog_sample_inv, of quiet_env 0] by (metis slog_sample_def slog_state.select_convs(7))
  have "h = 0" using h by (simp add: slog_sample_def)
  then have "content (sl_fs ?st1) (log_loc small_log) = []"
    unfolding run
    by (intro rotated_fs_facts(5) [OF full_log_inv(2) _ _ time_stamp_plain])
      (simp_all add: handle_open_def small_log_locs full_disk_inode, simp_all add: full_disk_def)
  then have "log_text small_log (sl_fs (doRotateSlogFile quiet_env (second div 2) ?st1)) = ''precious''"
    using same_second_overwrites [OF slog_sample_inv, of quiet_env 0 "second div 2"]
    by (simp add: quiet_env_def time_stamp_def local_seconds_def slog_sample_def full_backups
        backup_name_def small_log_locs slog_sample_text)
  then show ?thesis by (simp add: log_text_def slog_sample_def full_backups slog_sample_text)
qed

end
