(* ===== verification/Spec2Isabelle.thy ===== *)
theory Spec2Isabelle
  imports Job_Lifecycle Response_Json Service_Stop Setup Server Log_System Slog_Logger
begin

text \<open>
  A model of \<open>cloud-update\<close>, a Go service that receives signed webhooks and runs system updates,
  one at a time. Paths below are relative to \<open>src/src\<close> of the repository (\<open>internal\<close>, \<open>cmd\<close>).

  THE PROGRAM. \<open>main\<close> reads its configuration from the environment, builds an HMAC authenticator,
  a pool of ten workers, an executor for system commands, the action service and a rate
  limiter, and serves three routes: \<open>/webhook\<close> (behind the rate limiter), \<open>/job/status\<close> and
  \<open>/health\<close>. A webhook is checked (method, size, JSON, age, signature, action), refused with 409
  while a job runs, and otherwise becomes the current job of the job store and a task of the
  pool. A worker runs the task: the action service dispatches it on the executor, which runs
  the commands of the detected distribution; then the worker completes the current job. The
  same binary installs and removes itself as a system service.

  THE THEORIES, in the order in which they build on each other.

  \<^item> \<open>Prelude\<close>: clock readings and durations as integers, Go maps as association lists with an
  arbitrary iteration order (locale \<open>go_map\<close>), errors as options, transition systems with
  their reachable states (locale \<open>inv_system\<close>), and computations over an operating system
  whose answers are an arbitrary function of what was done before (\<open>perform\<close>, \<open>or_return\<close>).
  \<^item> \<open>Go_Text\<close>, \<open>Http\<close>: the parts of the standard library the service uses, on byte strings:
  searching, splitting, number formats, hex, \<open>strconv.Quote\<close>; requests, responses and
  \<open>net.SplitHostPort\<close>.
  \<^item> \<open>Go_Json\<close>: \<open>encoding/json\<close>: the scanner as a machine with a stack (no fuel), string literals
  with escapes and UTF-8, the writer, and that the scanner reads back what the writer renders.
  \<^item> \<open>Entity\<close>: \<open>internal/domain/entity\<close>; requests, jobs and the lifecycle of a job. \<open>Request_Json\<close>:
  \<open>json.Unmarshal\<close> and \<open>json.Marshal\<close> for a webhook request, according to the tags of its fields.
  \<^item> \<open>Job_Store\<close>: \<open>internal/infrastructure/store\<close>; jobs live in a heap because the store and
  the handlers share them by pointer. Invariant \<open>store_inv\<close>, refinement of a one-slot log
  (\<open>job_log\<close>), and the interface \<open>single_slot\<close>, interpreted for both ways to end a job.
  \<^item> \<open>Security\<close>: \<open>internal/infrastructure/security\<close>; the constant-time comparison bit by bit,
  signatures (locale \<open>authenticator\<close>), job IDs and tokens.
  \<^item> \<open>Worker_Pool\<close>: \<open>internal/infrastructure/worker\<close>; the methods on a bounded channel that can
  be closed, and the pool in operation as the transition system \<open>pool_step\<close>.
  \<^item> \<open>Rate_Limiter\<close>: \<open>internal/infrastructure/ratelimit\<close>; \<open>Allow\<close> in its critical sections, LRU
  eviction, the cleanup, the client's address and the middleware; the bound on its clients,
  which needs identifiers that are not empty; the transition system \<open>rl_step\<close>, in which the
  bound can be exceeded. The token bucket of \<open>golang.org/x/time/rate\<close> is the parameter \<open>rate_lib\<close>.
  \<^item> \<open>Executor\<close>: \<open>internal/infrastructure/system\<close>; the default, the secure and the timeout
  executor, distribution detection; the interface \<open>executor\<close>.
  \<^item> \<open>Action_Service\<close>: \<open>internal/domain/service\<close>; the dispatch, with lemmas proved once for
  every executor.
  \<^item> \<open>Webhook_Handler\<close>: \<open>internal/application/handler\<close>; both webhook handlers, job status,
  health, taken one request at a time. \<open>Response_Json\<close>: the bytes of their JSON answers.
  \<^item> \<open>Job_System\<close>: the same handler with requests, workers, cleanup and shutdown interleaved
  (\<open>js_step\<close>): the active job has exactly one owner (\<open>js_inv\<close>). \<open>Job_Lifecycle\<close>: every job stays
  well formed and only moves forward.
  \<^item> \<open>Pool_Drain\<close>: after \<open>Shutdown\<close> has begun, every run of the pool ends (locale \<open>draining\<close>: a
  weight that each step reduces), and nobody new gets in.
  \<^item> \<open>Go_Time\<close>, \<open>Files\<close>: dates and the names of backups; clean paths, and a file system in which
  every call may fail, with open files that survive renaming and removal.
  \<^item> \<open>Logger\<close>, \<open>Log_File\<close>, \<open>Log_System\<close>: \<open>internal/infrastructure/logger/logger.go\<close>; set-up, log
  lines, rotation and removal of backups; what becomes of the log as a whole, as a refinement of
  an abstract log (\<open>kept_run\<close>); the monitor goroutine with calls of \<open>Close\<close> (\<open>log_step\<close>). \<open>Slog_Logger\<close>: the second logger of the package
  (\<open>slog_logger.go\<close>) and its comparison with the first.
  \<^item> \<open>Setup\<close>: \<open>internal/setup\<close>; installation and removal as computations over file operations.
  \<^item> \<open>Server\<close>: \<open>internal/infrastructure/config\<close>, \<open>console\<close>, \<open>internal/version\<close> and
  \<open>cmd/cloud-update/main.go\<close>; configuration, TLS, help and version, start-up and the routes.
  \<^item> \<open>Service_Stop\<close>: the end of the service (\<open>main.go\<close>): the goroutine that waits for a signal,
  \<open>main\<close> with its deferred calls, the requests in flight and the pool (\<open>stop_step\<close>). What \<open>net/http\<close>
  documents of \<open>Shutdown\<close> (no new requests once it is called, \<open>nil\<close> only when none is left,
  \<open>ListenAndServe\<close> returning at once) is in the guards of its rules.
  \<^item> this theory: the service as a whole.

  CONCURRENCY. A critical section (what runs under one lock, or one channel operation) is one
  step; methods that hold their lock to the end are single functions, the others are cut
  where they release it. The transition systems allow any number of requests and any
  schedule, and where the code has no fixed order (map iteration, a \<open>select\<close> with several
  ready cases) every order. Properties of reachable states therefore hold for every schedule.
  Freedom from blocking is stated as the existence of steps that lead on.

  BOUNDS. No fuel is used: every loop of the modelled code is structural recursion over a list
  or a number. The theorems on the end of the pool and of the service give the number of steps.
  The names of backups are ordered as their times are as long as the year has four digits.
  Timestamps of requests are 64-bit words, with the wrap-around of \<open>time.Unix\<close>;
  clock readings are unbounded integers and \<open>Sub\<close> saturates as Go's does.

  PARAMETERS. The MAC (HMAC-SHA256), random bytes, the token bucket, Go's
  Unicode tables and \<open>net.ParseIP\<close>, X.509 loading, the embedded service files, the levels and
  the rendered lines of \<open>logrus\<close> and \<open>slog\<close>, the text of a \<open>float64\<close>, the time zone and all answers of the operating
  system are arguments; properties hold for all of them unless a hypothesis says otherwise (a
  random device that fills its buffer; a new token bucket that admits its first event; a
  certificate that cannot be loaded where the file is missing; a file system without faults).

  NOT MODELLED. The log lines of the components (except those of the start-up) and the progress
  output of the installer; what \<open>logrus\<close> does with the fields of an entry; failures while
  writing a response, the HTTP server's own timeouts and the parsing of HTTP; Go's memory
  model beyond critical sections; the telemetry, whose source is disabled.
\<close>


section \<open>Lemmas on a served request\<close>

lemma serve_webhook:
  "serve e ''/webhook'' r sv =
     (case Allow (re_lib e) (re_order e) (GetClientIP (re_text e) r) (re_now e) (re_now' e)
            (sv_limiter sv) of
        (ok, rl) \<Rightarrow>
          if \<not> ok then (too_many_requests (rl_limit rl) (re_now3 e), sv\<lparr>sv_limiter := rl\<rparr>)
          else (case HandleWebhook (re_webhook e) r (sv_handler sv) of
                  Inl (p, h) \<Rightarrow> (add_header (''X-RateLimit-Limit'', fmt_d (rl_limit rl)) no_response,
                            sv\<lparr>sv_limiter := rl, sv_handler := h, sv_panics := sv_panics sv @ [p]\<rparr>)
                | Inr (w, h) \<Rightarrow> (add_header (''X-RateLimit-Limit'', fmt_d (rl_limit rl)) w,
                            sv\<lparr>sv_limiter := rl, sv_handler := h\<rparr>)))"
  by (cases sv) (auto simp: serve_def MiddlewareFunc_def webhook_next_def
      split: prod.splits bool.splits sum.splits)

lemma serve_other: "path \<noteq> ''/webhook'' \<Longrightarrow> snd (serve e path r sv) = sv"
  by (simp add: serve_def)

definition service_inv :: "'l service \<Rightarrow> bool" where
  "service_inv sv \<longleftrightarrow> rl_ok (sv_limiter sv) \<and> store_inv (h_jobStore (sv_handler sv))"

lemma service_inv_new: "service_inv new_service"
  by (simp add: service_inv_def new_service_def NewWebhookHandlerWithPool_def store_inv_init
      rl_ok_def heap_ok_def NewRateLimiter_def)

lemma service_inv_serve:
  assumes "service_inv sv" shows "service_inv (snd (serve e path r sv))"
proof (cases "path = ''/webhook''")
  case True
  let ?a = "Allow (re_lib e) (re_order e) (GetClientIP (re_text e) r) (re_now e) (re_now' e) (sv_limiter sv)"
  have rl: "rl_ok (snd ?a)" using assms by (simp add: Allow_slow rl_slow_ok service_inv_def)
  have st: "store_inv (h_jobStore h)" if "HandleWebhook (re_webhook e) r (sv_handler sv) = Inr (w, h)" for w h
    using handler_inv [OF _ that] assms by (simp add: service_inv_def)
  have sp: "store_inv (h_jobStore h)" if "HandleWebhook (re_webhook e) r (sv_handler sv) = Inl (p, h)" for p h
    using handler_panic_inv [OF _ that] assms by (simp add: service_inv_def)
  show ?thesis
    using True rl st sp assms
    by (auto simp: serve_webhook service_inv_def split: prod.splits sum.splits)
qed (simp add: serve_other assms)

definition serve_list :: "('l request_env \<times> string \<times> http_request) list \<Rightarrow> 'l service \<Rightarrow> 'l service" where
  "serve_list qs sv = fold (\<lambda>(e, path, r) sv. snd (serve e path r sv)) qs sv"

lemma service_inv_list: "service_inv sv \<Longrightarrow> service_inv (serve_list qs sv)"
  by (induction qs arbitrary: sv) (auto simp: serve_list_def service_inv_serve)

section \<open>Properties that span components\<close>

text \<open>
  C3: what a request needs to have any effect on jobs. If a request to the service changes the
  webhook handler at all, it went to \<open>/webhook\<close>, the rate limiter let its client through, and
  it was a POST with the signature of its own body that asks for an update.
\<close>

theorem effect_passes_all_gates:
  assumes inv: "store_inv (h_jobStore (sv_handler sv))"
    and auth: "we_validate (re_webhook e) = ValidateSignature mac secret"
    and change: "sv_handler (snd (serve e path r sv)) \<noteq> sv_handler sv"
  shows "path = ''/webhook'' \<and>
    fst (Allow (re_lib e) (re_order e) (GetClientIP (re_text e) r) (re_now e) (re_now' e) (sv_limiter sv)) \<and>
    r_Method r = ''POST'' \<and>
    (\<exists>body req. read_limited 1048576 r = Some body \<and> Unmarshal body = Some req \<and>
       r_Header r ''X-Cloud-Update-Signature'' = ''sha256='' @ EncodeToString (mac secret body) \<and>
       req_Action req = ''update'')"
proof -
  have path: "path = ''/webhook''"
    by (rule ccontr) (use change in \<open>simp add: serve_other\<close>)
  have al: "fst (Allow (re_lib e) (re_order e) (GetClientIP (re_text e) r) (re_now e) (re_now' e) (sv_limiter sv))"
    using change path by (auto simp: serve_webhook split: prod.splits if_splits)
  have run: "HandleWebhook (re_webhook e) r (sv_handler sv) \<noteq> Inr (w, sv_handler sv)" for w
    using change path by (auto simp: serve_webhook split: prod.splits if_splits sum.splits)
  have "\<exists>req. valid_request pool_validActions (re_webhook e) r req"
    using inv
  proof (cases rule: HandleWebhook_cases [where env = "re_webhook e" and r = r])
    case (idle req)
    then show ?thesis by blast
  qed (use run in auto)
  then show ?thesis
    using path al by (auto simp: valid_request_def pool_validActions_def ActionUpdate_def auth
        ValidateSignature_iff signature_header_def expected_signature_def)
qed

definition demo_request_env :: "int request_env" where
  "demo_request_env = \<lparr>re_lib = counting_lib, re_order = rev, re_text = sample_lib, re_now = 0,
     re_now' = 0, re_now3 = 0, re_webhook = demo_env\<rparr>"

definition demo_service :: "int service" where
  "demo_service = new_service"

lemma demo_service_sel:
  "sv_handler demo_service = demo_handler" "sv_limiter demo_service = NewRateLimiter DefaultConfig"
  "service_inv demo_service"
  by (simp_all add: demo_service_def service_inv_new) (simp_all add: new_service_def demo_handler_def)

lemma demo_allowed:
  "fst (Allow counting_lib rev i 0 0 (NewRateLimiter DefaultConfig))"
  by (rule new_client_allowed) (simp_all add: counting_lib_def NewRateLimiter_def DefaultConfig_def)

theorem effect_passes_all_gates_witness:
  "sv_handler (snd (serve demo_request_env ''/webhook'' demo_request demo_service)) \<noteq> demo_handler \<and>
   r_Method demo_request = ''POST''"
proof -
  obtain w h where run: "HandleWebhook demo_env demo_request demo_handler = Inr (w, h)"
    and h: "currentJob (h_jobStore h) = Some 0"
    using HandleWebhook_idle [OF demo_valid demo_handler_sel(3,4)] demo_handler_sel(5)
      started_store_sel(1) [OF demo_handler_sel(4)]
    by (simp add: submit_job_accepts) (simp add: demo_handler_sel NewJobStore_def)
  then have "h \<noteq> demo_handler" using demo_handler_sel(4) by auto
  then have change: "sv_handler (snd (serve demo_request_env ''/webhook'' demo_request demo_service)) \<noteq>
      sv_handler demo_service"
    using run demo_allowed [of "GetClientIP sample_lib demo_request"]
    by (auto simp: serve_webhook demo_request_env_def demo_service_sel split: prod.splits)
  have "we_validate (re_webhook demo_request_env) = ValidateSignature demo_mac ''key''"
    by (simp add: demo_request_env_def demo_env_def)
  from effect_passes_all_gates [OF _ this change] demo_service_sel(3) change show ?thesis
    by (simp add: demo_service_sel demo_handler_sel store_inv_init)
qed

text \<open>
  C23: the invariant of the service. After any sequence of requests to any paths, with any
  clocks and random bytes, the two maps of the rate limiter agree and the job store
  is well formed: at most one job runs, and only finished jobs are in the history.
\<close>

theorem service_stays_consistent:
  "known (sv_limiter (serve_list qs new_service)) = seen (sv_limiter (serve_list qs new_service)) \<and>
   store_inv (h_jobStore (sv_handler (serve_list qs new_service)))"
  using service_inv_list [OF service_inv_new, of qs] by (simp add: service_inv_def rl_ok_def)

text \<open>
  C29: an installed service starts. With the secret that \<open>Setup\<close> generated as its
  \<open>CLOUD_UPDATE_SECRET\<close>, and without flags and TLS, the service gets to listen on its port.
\<close>

theorem installed_service_starts:
  assumes rnd: "\<And>tr. i_err (os tr (RandRead 32)) = None \<Longrightarrow> length (i_text (os tr (RandRead 32))) = 32"
    and run: "fst (run_state (generateSecret g os) tr) = Inr secret"
    and E: "me_env m ''CLOUD_UPDATE_SECRET'' = secret" "me_env m ''CLOUD_UPDATE_TLS_ENABLED'' \<noteq> ''true''"
    and f: "\<not> showHelp (me_flags m)" "\<not> showVersion (me_flags m)" "\<not> runSetup (me_flags m)"
      "\<not> runUninstall (me_flags m)"
  shows "mt_end (main_run m) =
    ListenAndServe ('':'' @ getEnvOrDefault (me_env m) ''CLOUD_UPDATE_PORT'' ''9999'')"
proof -
  have "length secret = 64"
    using rnd run
    by (auto simp: generateSecret_def generateSecretWithDeps_def Let_def bytes_of_def split: if_splits option.splits)
  then have "NewHMACAuthenticator secret = Inr secret" "secret \<noteq> []"
    by (auto simp: NewHMACAuthenticator_def)
  then show ?thesis using E f
    by (simp add: main_run_def Load_def getEnvOrDefault_def start_server_def configure_tls_def
        LoadTLSConfig_def make_server_def Let_def)
qed

theorem installed_service_starts_witness:
  "\<exists>secret. fst (run_state (generateSecret sample_lib no_openssl) []) = Inr secret \<and>
     mt_end (main_run (plain_main (set_env [(''CLOUD_UPDATE_SECRET'', secret)]))) = ListenAndServe '':9999''"
proof -
  obtain secret where run: "fst (run_state (generateSecret sample_lib no_openssl) []) = Inr secret"
    by (simp add: generateSecret_def generateSecretWithDeps_def no_openssl_def good_env_def Let_def
        split: option.split)
  moreover have "length (i_text (no_openssl tr (RandRead 32))) = 32" for tr
    by (simp add: no_openssl_def good_env_def)
  ultimately show ?thesis
    using installed_service_starts [OF _ run, of "plain_main (set_env [(''CLOUD_UPDATE_SECRET'', secret)])"]
    by (auto simp: plain_main_def set_env_def no_flags_def getEnvOrDefault_def)
qed

end
